(* ===== verification/Dp_Prelude.thy ===== *)
theory Dp_Prelude
  imports Main "HOL-Library.Word"
begin

text \<open>
  Types and contracts the components share: fixed-width integers, the result
  type of a fallible operation, the contract of a DPDK hash table (a library
  the sources only call, hence a parameter), the contract of a transition
  system with an invariant, and lemmas on lists and maps.
\<close>

section \<open>Types\<close>

type_synonym uint8 = "8 word"
type_synonym uint16 = "16 word"
type_synonym uint32 = "32 word"
type_synonym uint64 = "64 word"

named_theorems dp_defs "definitions unfolded when an operation is evaluated"

section \<open>Error numbers the sources compare with\<close>

abbreviation ENOENT :: int where "ENOENT \<equiv> 2"
abbreviation ENOMEM :: int where "ENOMEM \<equiv> 12"
abbreviation EEXIST :: int where "EEXIST \<equiv> 17"
abbreviation EINVAL :: int where "EINVAL \<equiv> 22"
abbreviation ENOSPC :: int where "ENOSPC \<equiv> 28"

section \<open>The DPDK hash table\<close>

text \<open>
  A table is represented by its contents; the operations on it are library
  code and come as a record of functions.  A failing call returns \<open>Inl\<close> of the
  (negative) code it returns in C, a successful one \<open>Inr\<close> of what it delivers:
  the stored value, or the table after the change.
\<close>

record ('k, 'v) rte_hash =
  rte_hash_lookup_data :: "('k \<rightharpoonup> 'v) \<Rightarrow> 'k \<Rightarrow> int + 'v"
  rte_hash_add_key_data :: "('k \<rightharpoonup> 'v) \<Rightarrow> 'k \<Rightarrow> 'v \<Rightarrow> int + ('k \<rightharpoonup> 'v)"
  rte_hash_del_key :: "('k \<rightharpoonup> 'v) \<Rightarrow> 'k \<Rightarrow> int + ('k \<rightharpoonup> 'v)"

text \<open>
  The documented behaviour of the three calls: a lookup finds exactly the keys
  of the table and reports \<open>-ENOENT\<close> otherwise; an addition either fails with
  \<open>-EINVAL\<close> or \<open>-ENOSPC\<close> and leaves the table as it was, or stores the value, replacing
  the one an existing key had; a deletion removes the key or reports \<open>-ENOENT\<close>.
\<close>

locale hash_table =
  fixes h :: "('k, 'v) rte_hash"
  assumes lookup_data: "rte_hash_lookup_data h t k =
      (case t k of None \<Rightarrow> Inl (- ENOENT) | Some v \<Rightarrow> Inr v)"
    and add_key_data: "rte_hash_add_key_data h t k v = Inr t' \<Longrightarrow> t' = t(k \<mapsto> v)"
    and add_key_fails: "rte_hash_add_key_data h t k v = Inl e \<Longrightarrow> e = - EINVAL \<or> e = - ENOSPC"
    and del_key: "rte_hash_del_key h t k =
      (if t k = None then Inl (- ENOENT) else Inr (t(k := None)))"
begin

lemma lookup_Inr [simp]: "rte_hash_lookup_data h t k = Inr v \<longleftrightarrow> t k = Some v"
  by (simp add: lookup_data split: option.splits)

lemma lookup_Inl [simp]: "rte_hash_lookup_data h t k = Inl e \<longleftrightarrow> t k = None \<and> e = - ENOENT"
  by (auto simp: lookup_data split: option.splits)

lemma del_Inr [simp]: "rte_hash_del_key h t k = Inr t' \<longleftrightarrow> t k \<noteq> None \<and> t' = t(k := None)"
  by (auto simp: del_key)

lemma del_Inl [simp]: "rte_hash_del_key h t k = Inl e \<longleftrightarrow> t k = None \<and> e = - ENOENT"
  by (auto simp: del_key)

lemma add_cases [consumes 0, case_names fails stored]:
  assumes "\<And>e. rte_hash_add_key_data h t k v = Inl e \<Longrightarrow> e < 0 \<Longrightarrow> e \<noteq> - ENOENT \<Longrightarrow> P"
    and "rte_hash_add_key_data h t k v = Inr (t(k \<mapsto> v)) \<Longrightarrow> P"
  shows P
  using assms add_key_data add_key_fails by (cases "rte_hash_add_key_data h t k v") force+

end

text \<open>
  A bounded table that keeps the contract: the reference the parameter is
  instantiated with where a concrete library is needed.
\<close>

definition ref_hash :: "nat \<Rightarrow> ('k, 'v) rte_hash" where
  "ref_hash cap = \<lparr>
     rte_hash_lookup_data = (\<lambda>t k. case t k of None \<Rightarrow> Inl (- ENOENT) | Some v \<Rightarrow> Inr v),
     rte_hash_add_key_data = (\<lambda>t k v. if t k \<noteq> None \<or> card (dom t) < cap
       then Inr (t(k \<mapsto> v)) else Inl (- ENOSPC)),
     rte_hash_del_key = (\<lambda>t k. if t k = None then Inl (- ENOENT) else Inr (t(k := None))) \<rparr>"

interpretation refh: hash_table "ref_hash cap"
  by unfold_locales (auto simp: ref_hash_def split: if_splits)

text \<open>
  A table is walked with \<open>rte_hash_iterate\<close>: it delivers every entry once, in
  an order the library chooses.
\<close>

definition hash_iterates :: "('k \<rightharpoonup> 'v) \<Rightarrow> ('k \<times> 'v) list \<Rightarrow> bool" where
  "hash_iterates t es \<longleftrightarrow> distinct (map fst es) \<and> map_of es = t"

lemma hash_iterates_mem: "hash_iterates t es \<Longrightarrow> (k, v) \<in> set es \<longleftrightarrow> t k = Some v"
  by (auto simp: hash_iterates_def)

lemma hash_iterates_keys: "hash_iterates t es \<Longrightarrow> fst ` set es = dom t"
  unfolding hash_iterates_def by (metis dom_map_of_conv_image_fst)

section \<open>Transition systems\<close>

locale transition_system =
  fixes initial :: "'s \<Rightarrow> bool"
    and step :: "'s \<Rightarrow> 's \<Rightarrow> bool"
    and inv :: "'s \<Rightarrow> bool"
  assumes inv_initial: "initial s \<Longrightarrow> inv s"
    and inv_step: "step s s' \<Longrightarrow> inv s \<Longrightarrow> inv s'"
begin

lemma inv_steps: "step\<^sup>*\<^sup>* s s' \<Longrightarrow> inv s \<Longrightarrow> inv s'"
  by (induction rule: rtranclp_induct) (auto intro: inv_step)

lemma inv_reachable: "initial s \<Longrightarrow> step\<^sup>*\<^sup>* s s' \<Longrightarrow> inv s'"
  by (blast intro: inv_initial inv_steps)

end

section \<open>Keyed stores\<close>

text \<open>
  What a component that keeps entries under keys promises its clients, stated
  over the finite map its state stands for: an entry is added only under a key
  that is not taken, removed only when it is there, and a refused request
  changes nothing that can be observed.
\<close>

locale keyed_store =
  fixes ok :: "'s \<Rightarrow> bool"
    and view :: "'s \<Rightarrow> 'k \<rightharpoonup> 'v"
    and put :: "'r \<Rightarrow> 's \<Rightarrow> ('e + unit) \<times> 's"
    and remove :: "'n \<Rightarrow> 's \<Rightarrow> ('e + unit) \<times> 's"
    and rkey :: "'r \<Rightarrow> 'k" and rval :: "'r \<Rightarrow> 'v" and nkey :: "'n \<Rightarrow> 'k"
  assumes put_done: "ok s \<Longrightarrow> put r s = (Inr u, s') \<Longrightarrow>
      ok s' \<and> view s (rkey r) = None \<and> view s' = (view s)(rkey r \<mapsto> rval r)"
    and put_refused: "ok s \<Longrightarrow> put r s = (Inl e, s') \<Longrightarrow> ok s' \<and> view s' = view s"
    and remove_done: "ok s \<Longrightarrow> remove n s = (Inr u, s') \<Longrightarrow>
      ok s' \<and> view s (nkey n) \<noteq> None \<and> view s' = (view s)(nkey n := None)"
    and remove_refused: "ok s \<Longrightarrow> remove n s = (Inl e, s') \<Longrightarrow> ok s' \<and> view s' = view s"
begin

lemma put_ok: "ok s \<Longrightarrow> ok (snd (put r s))"
  by (cases "put r s"; cases "fst (put r s)") (auto dest: put_done put_refused)

lemma remove_ok: "ok s \<Longrightarrow> ok (snd (remove n s))"
  by (cases "remove n s"; cases "fst (remove n s)") (auto dest: remove_done remove_refused)

lemma put_view: "ok s \<Longrightarrow> put r s = (Inr u, s') \<Longrightarrow> view s' (rkey r) = Some (rval r)"
  by (auto dest: put_done)

lemma put_frame: "ok s \<Longrightarrow> k \<noteq> rkey r \<Longrightarrow> view (snd (put r s)) k = view s k"
  by (cases "put r s"; cases "fst (put r s)") (auto dest: put_done put_refused)

lemma remove_frame: "ok s \<Longrightarrow> k \<noteq> nkey n \<Longrightarrow> view (snd (remove n s)) k = view s k"
  by (cases "remove n s"; cases "fst (remove n s)") (auto dest: remove_done remove_refused)

lemma put_taken: "ok s \<Longrightarrow> view s (rkey r) \<noteq> None \<Longrightarrow>
    \<exists>e s'. put r s = (Inl e, s') \<and> view s' = view s"
  by (cases "put r s"; cases "fst (put r s)") (auto dest: put_done put_refused)

lemma remove_absent: "ok s \<Longrightarrow> view s (nkey n) = None \<Longrightarrow>
    \<exists>e s'. remove n s = (Inl e, s') \<and> view s' = view s"
  by (cases "remove n s"; cases "fst (remove n s)") (auto dest: remove_done remove_refused)

lemma put_remove_restores:
  assumes "ok s" "put r s = (Inr u, s1)" "remove n s1 = (Inr v, s2)" "nkey n = rkey r"
  shows "ok s2 \<and> view s2 = view s"
proof -
  have 1: "ok s1" "view s (rkey r) = None" "view s1 = (view s)(rkey r \<mapsto> rval r)"
    using put_done [OF assms(1,2)] by auto
  then have "ok s2" "view s2 = (view s1)(nkey n := None)"
    using remove_done [OF 1(1) assms(3)] by auto
  with 1 assms(4) show ?thesis by (simp add: fun_upd_idem)
qed

end

section \<open>Lists and maps\<close>

text \<open>The first index of a list whose entry satisfies a predicate, as a
  counting loop with a \<open>break\<close> finds it; the length when there is none.\<close>

fun first_index :: "('a \<Rightarrow> bool) \<Rightarrow> 'a list \<Rightarrow> nat" where
  "first_index P [] = 0"
| "first_index P (x # xs) = (if P x then 0 else Suc (first_index P xs))"

lemma first_index_le: "first_index P xs \<le> length xs"
  by (induction xs) auto

lemma first_index_less_iff: "first_index P xs < length xs \<longleftrightarrow> (\<exists>x\<in>set xs. P x)"
  by (induction xs) auto

lemma first_index_eq_length: "first_index P xs = length xs \<longleftrightarrow> (\<forall>x\<in>set xs. \<not> P x)"
  by (induction xs) auto

lemma first_index_nth: "first_index P xs < length xs \<Longrightarrow> P (xs ! first_index P xs)"
  by (induction xs) auto

lemma first_index_before: "i < first_index P xs \<Longrightarrow> \<not> P (xs ! i)"
proof (induction xs arbitrary: i)
  case (Cons x xs)
  then show ?case by (cases i) (auto split: if_splits)
qed simp

lemma find_filter_other: "find (\<lambda>r. f r = k) (filter (\<lambda>r. f r \<noteq> rid) xs) =
    (if k = rid then None else find (\<lambda>r. f r = k) xs)"
  by (induction xs) auto

lemma find_append: "find P (xs @ ys) = (case find P xs of None \<Rightarrow> find P ys | Some x \<Rightarrow> Some x)"
  by (induction xs) auto

lemma unat_inc: "unat (w :: 'a::len word) + 1 < 2 ^ LENGTH('a) \<Longrightarrow> unat (w + 1) = unat w + 1"
  by (simp add: unat_word_ariths)

text \<open>Owning references: the positions of a slot array that hold something.\<close>

definition owned :: "'a option list \<Rightarrow> 'a set" where
  "owned xs = {a. Some a \<in> set xs}"

lemma owned_nth: "i < length xs \<Longrightarrow> xs ! i = Some a \<Longrightarrow> a \<in> owned xs"
  by (auto simp: owned_def set_conv_nth intro: exI [of _ i])

text \<open>No reference is held by two slots.\<close>

definition slots_distinct :: "'a option list \<Rightarrow> bool" where
  "slots_distinct xs \<longleftrightarrow> (\<forall>i<length xs. \<forall>j<length xs.
     xs ! i \<noteq> None \<longrightarrow> xs ! i = xs ! j \<longrightarrow> i = j)"

lemma slots_distinctD: "slots_distinct xs \<Longrightarrow> i < length xs \<Longrightarrow> j < length xs \<Longrightarrow>
    xs ! i = Some a \<Longrightarrow> xs ! j = Some a \<Longrightarrow> i = j"
  unfolding slots_distinct_def by (metis option.distinct(1))

lemma owned_iff: "a \<in> owned xs \<longleftrightarrow> (\<exists>i<length xs. xs ! i = Some a)"
  by (auto simp: owned_def in_set_conv_nth)

lemma owned_card: "card (owned xs) \<le> length xs"
proof -
  have "owned xs = the ` (set xs - {None})"
    by (force simp: owned_def image_iff)
  then have "card (owned xs) \<le> card (set xs - {None})"
    by (simp add: card_image_le)
  also have "\<dots> \<le> length xs"
    by (meson card_length card_mono finite_set Diff_subset order_trans)
  finally show ?thesis .
qed

lemma owned_set:
  assumes "i < length xs" "xs ! i = None"
  shows "owned (xs[i := Some a]) = insert a (owned xs)"
proof (intro set_eqI iffI)
  fix b assume "b \<in> owned (xs[i := Some a])"
  then show "b \<in> insert a (owned xs)"
    using assms by (auto simp: owned_iff nth_list_update split: if_splits)
next
  fix b assume "b \<in> insert a (owned xs)"
  then consider "b = a" | j where "j < length xs" "xs ! j = Some b" "j \<noteq> i"
    using assms by (metis insertE option.distinct(1) owned_iff)
  then show "b \<in> owned (xs[i := Some a])"
    by cases (use assms in \<open>auto simp: owned_iff intro: exI [of _ i]\<close>)
qed

lemma owned_replace:
  assumes "i < length xs" "xs ! i = Some a" "slots_distinct xs"
  shows "owned (xs[i := Some b]) = insert b (owned xs - {a})"
proof (intro set_eqI iffI)
  fix c assume "c \<in> owned (xs[i := Some b])"
  then obtain j where j: "j < length xs" "xs[i := Some b] ! j = Some c"
    by (auto simp: owned_iff)
  show "c \<in> insert b (owned xs - {a})"
  proof (cases "j = i")
    case True
    with j assms show ?thesis by simp
  next
    case False
    with j have "xs ! j = Some c" by simp
    moreover from this False have "c \<noteq> a"
      using slots_distinctD [OF assms(3) j(1) assms(1) _ assms(2)] by auto
    ultimately show ?thesis using j by (auto simp: owned_iff)
  qed
next
  fix c assume "c \<in> insert b (owned xs - {a})"
  then consider "c = b" | j where "j < length xs" "xs ! j = Some c" "j \<noteq> i"
    using assms by (metis Diff_iff insertE insertI1 option.inject owned_iff)
  then show "c \<in> owned (xs[i := Some b])"
    by cases (use assms in \<open>auto simp: owned_iff intro: exI [of _ i]\<close>)
qed

lemma owned_clear:
  assumes "i < length xs" "xs ! i = Some a" "slots_distinct xs"
  shows "owned (xs[i := None]) = owned xs - {a}"
proof (intro set_eqI iffI)
  fix c assume "c \<in> owned (xs[i := None])"
  then obtain j where j: "j < length xs" "xs[i := None] ! j = Some c"
    by (auto simp: owned_iff)
  show "c \<in> owned xs - {a}"
  proof (cases "j = i")
    case True
    with j assms show ?thesis by simp
  next
    case False
    with j have "xs ! j = Some c" by simp
    moreover from this False have "c \<noteq> a"
      using slots_distinctD [OF assms(3) j(1) assms(1) _ assms(2)] by auto
    ultimately show ?thesis using j by (auto simp: owned_iff)
  qed
next
  fix c assume "c \<in> owned xs - {a}"
  then obtain j where "j < length xs" "xs ! j = Some c" "j \<noteq> i"
    using assms by (metis Diff_iff insertI1 option.inject owned_iff)
  then show "c \<in> owned (xs[i := None])"
    by (auto simp: owned_iff)
qed

lemma slots_distinct_set:
  assumes "slots_distinct xs" "a \<notin> owned xs"
  shows "slots_distinct (xs[i := Some a])"
  unfolding slots_distinct_def
proof (intro allI impI, goal_cases)
  case (1 j k)
  then show ?case
    using assms unfolding slots_distinct_def owned_iff
    by (cases "j = i"; cases "k = i") auto
qed

lemma slots_distinct_clear:
  assumes "slots_distinct xs"
  shows "slots_distinct (xs[i := None])"
  unfolding slots_distinct_def
proof (intro allI impI, goal_cases)
  case (1 j k)
  then show ?case
    using assms unfolding slots_distinct_def
    by (cases "j = i"; cases "k = i") auto
qed

end
