(* ===== verification/Dp_Error.thy ===== *)
theory Dp_Error
  imports Dp_Prelude
begin

text \<open>
  The error codes of \<open>include/dp_error.h\<close> and their texts (\<open>src/dp_error.c\<close>).
  A failing operation of the model returns a value of \<open>dp_err\<close>; \<open>dp_code\<close> is the
  negative integer it is in C, over the library constant \<open>RTE_MAX_ERRNO\<close>.
\<close>

datatype dp_grpc_error =
    DP_GRPC_ERR_BAD_REQUEST
  | DP_GRPC_ERR_NOT_FOUND
  | DP_GRPC_ERR_ALREADY_EXISTS
  | DP_GRPC_ERR_WRONG_TYPE
  | DP_GRPC_ERR_BAD_IPVER
  | DP_GRPC_ERR_NO_VM
  | DP_GRPC_ERR_NO_VNI
  | DP_GRPC_ERR_ITERATOR
  | DP_GRPC_ERR_OUT_OF_MEMORY
  | DP_GRPC_ERR_LIMIT_REACHED
  | DP_GRPC_ERR_ALREADY_ACTIVE
  | DP_GRPC_ERR_NOT_ACTIVE
  | DP_GRPC_ERR_ROLLBACK
  | DP_GRPC_ERR_RTE_RULE_ADD
  | DP_GRPC_ERR_RTE_RULE_DEL
  | DP_GRPC_ERR_ROUTE_EXISTS
  | DP_GRPC_ERR_ROUTE_NOT_FOUND
  | DP_GRPC_ERR_ROUTE_INSERT
  | DP_GRPC_ERR_ROUTE_BAD_PORT
  | DP_GRPC_ERR_ROUTE_RESET
  | DP_GRPC_ERR_DNAT_NO_DATA
  | DP_GRPC_ERR_DNAT_CREATE
  | DP_GRPC_ERR_DNAT_EXISTS
  | DP_GRPC_ERR_SNAT_NO_DATA
  | DP_GRPC_ERR_SNAT_CREATE
  | DP_GRPC_ERR_SNAT_EXISTS
  | DP_GRPC_ERR_VNI_INIT4
  | DP_GRPC_ERR_VNI_INIT6
  | DP_GRPC_ERR_VNI_FREE4
  | DP_GRPC_ERR_VNI_FREE6
  | DP_GRPC_ERR_PORT_START
  | DP_GRPC_ERR_PORT_STOP
  | DP_GRPC_ERR_PORT_METER
  | DP_GRPC_ERR_VNF_INSERT
  | DP_GRPC_ERR_VM_HANDLE
  | DP_GRPC_ERR_VNF_DELETE
  | DP_GRPC_ERR_NO_BACKIP
  | DP_GRPC_ERR_NO_LB
  | DP_GRPC_ERR_BACKIP_ADD
  | DP_GRPC_ERR_BACKIP_DEL
  | DP_GRPC_ERR_NO_DROP_SUPPORT
  | DP_GRPC_ERR_SA_EXISTS
  | DP_GRPC_ERR_SA_NOT_FOUND
  | DP_GRPC_ERR_SA_CREATE
  | DP_GRPC_ERR_SA_ALGO
  | DP_GRPC_ERR_SA_BAD_ADDR
  | DP_GRPC_ERR_IPSEC_DISABLED
  | DP_GRPC_ERR_SA_REPLAY_WINDOW
  | DP_GRPC_ERR_SA_DIRECTION

primrec dp_grpc_number :: "dp_grpc_error \<Rightarrow> int" where
    "dp_grpc_number DP_GRPC_ERR_BAD_REQUEST = 101"
  | "dp_grpc_number DP_GRPC_ERR_NOT_FOUND = 201"
  | "dp_grpc_number DP_GRPC_ERR_ALREADY_EXISTS = 202"
  | "dp_grpc_number DP_GRPC_ERR_WRONG_TYPE = 203"
  | "dp_grpc_number DP_GRPC_ERR_BAD_IPVER = 204"
  | "dp_grpc_number DP_GRPC_ERR_NO_VM = 205"
  | "dp_grpc_number DP_GRPC_ERR_NO_VNI = 206"
  | "dp_grpc_number DP_GRPC_ERR_ITERATOR = 207"
  | "dp_grpc_number DP_GRPC_ERR_OUT_OF_MEMORY = 208"
  | "dp_grpc_number DP_GRPC_ERR_LIMIT_REACHED = 209"
  | "dp_grpc_number DP_GRPC_ERR_ALREADY_ACTIVE = 210"
  | "dp_grpc_number DP_GRPC_ERR_NOT_ACTIVE = 211"
  | "dp_grpc_number DP_GRPC_ERR_ROLLBACK = 212"
  | "dp_grpc_number DP_GRPC_ERR_RTE_RULE_ADD = 213"
  | "dp_grpc_number DP_GRPC_ERR_RTE_RULE_DEL = 214"
  | "dp_grpc_number DP_GRPC_ERR_ROUTE_EXISTS = 301"
  | "dp_grpc_number DP_GRPC_ERR_ROUTE_NOT_FOUND = 302"
  | "dp_grpc_number DP_GRPC_ERR_ROUTE_INSERT = 303"
  | "dp_grpc_number DP_GRPC_ERR_ROUTE_BAD_PORT = 304"
  | "dp_grpc_number DP_GRPC_ERR_ROUTE_RESET = 305"
  | "dp_grpc_number DP_GRPC_ERR_DNAT_NO_DATA = 321"
  | "dp_grpc_number DP_GRPC_ERR_DNAT_CREATE = 322"
  | "dp_grpc_number DP_GRPC_ERR_DNAT_EXISTS = 323"
  | "dp_grpc_number DP_GRPC_ERR_SNAT_NO_DATA = 341"
  | "dp_grpc_number DP_GRPC_ERR_SNAT_CREATE = 342"
  | "dp_grpc_number DP_GRPC_ERR_SNAT_EXISTS = 343"
  | "dp_grpc_number DP_GRPC_ERR_VNI_INIT4 = 361"
  | "dp_grpc_number DP_GRPC_ERR_VNI_INIT6 = 362"
  | "dp_grpc_number DP_GRPC_ERR_VNI_FREE4 = 363"
  | "dp_grpc_number DP_GRPC_ERR_VNI_FREE6 = 364"
  | "dp_grpc_number DP_GRPC_ERR_PORT_START = 381"
  | "dp_grpc_number DP_GRPC_ERR_PORT_STOP = 382"
  | "dp_grpc_number DP_GRPC_ERR_PORT_METER = 383"
  | "dp_grpc_number DP_GRPC_ERR_VNF_INSERT = 401"
  | "dp_grpc_number DP_GRPC_ERR_VM_HANDLE = 402"
  | "dp_grpc_number DP_GRPC_ERR_VNF_DELETE = 403"
  | "dp_grpc_number DP_GRPC_ERR_NO_BACKIP = 421"
  | "dp_grpc_number DP_GRPC_ERR_NO_LB = 422"
  | "dp_grpc_number DP_GRPC_ERR_BACKIP_ADD = 423"
  | "dp_grpc_number DP_GRPC_ERR_BACKIP_DEL = 424"
  | "dp_grpc_number DP_GRPC_ERR_NO_DROP_SUPPORT = 441"
  | "dp_grpc_number DP_GRPC_ERR_SA_EXISTS = 461"
  | "dp_grpc_number DP_GRPC_ERR_SA_NOT_FOUND = 462"
  | "dp_grpc_number DP_GRPC_ERR_SA_CREATE = 463"
  | "dp_grpc_number DP_GRPC_ERR_SA_ALGO = 464"
  | "dp_grpc_number DP_GRPC_ERR_SA_BAD_ADDR = 465"
  | "dp_grpc_number DP_GRPC_ERR_IPSEC_DISABLED = 466"
  | "dp_grpc_number DP_GRPC_ERR_SA_REPLAY_WINDOW = 467"
  | "dp_grpc_number DP_GRPC_ERR_SA_DIRECTION = 468"

primrec dp_grpc_name :: "dp_grpc_error \<Rightarrow> string" where
    "dp_grpc_name DP_GRPC_ERR_BAD_REQUEST = ''BAD_REQUEST''"
  | "dp_grpc_name DP_GRPC_ERR_NOT_FOUND = ''NOT_FOUND''"
  | "dp_grpc_name DP_GRPC_ERR_ALREADY_EXISTS = ''ALREADY_EXISTS''"
  | "dp_grpc_name DP_GRPC_ERR_WRONG_TYPE = ''WRONG_TYPE''"
  | "dp_grpc_name DP_GRPC_ERR_BAD_IPVER = ''BAD_IPVER''"
  | "dp_grpc_name DP_GRPC_ERR_NO_VM = ''NO_VM''"
  | "dp_grpc_name DP_GRPC_ERR_NO_VNI = ''NO_VNI''"
  | "dp_grpc_name DP_GRPC_ERR_ITERATOR = ''ITERATOR''"
  | "dp_grpc_name DP_GRPC_ERR_OUT_OF_MEMORY = ''OUT_OF_MEMORY''"
  | "dp_grpc_name DP_GRPC_ERR_LIMIT_REACHED = ''LIMIT_REACHED''"
  | "dp_grpc_name DP_GRPC_ERR_ALREADY_ACTIVE = ''ALREADY_ACTIVE''"
  | "dp_grpc_name DP_GRPC_ERR_NOT_ACTIVE = ''NOT_ACTIVE''"
  | "dp_grpc_name DP_GRPC_ERR_ROLLBACK = ''ROLLBACK''"
  | "dp_grpc_name DP_GRPC_ERR_RTE_RULE_ADD = ''RTE_RULE_ADD''"
  | "dp_grpc_name DP_GRPC_ERR_RTE_RULE_DEL = ''RTE_RULE_DEL''"
  | "dp_grpc_name DP_GRPC_ERR_ROUTE_EXISTS = ''ROUTE_EXISTS''"
  | "dp_grpc_name DP_GRPC_ERR_ROUTE_NOT_FOUND = ''ROUTE_NOT_FOUND''"
  | "dp_grpc_name DP_GRPC_ERR_ROUTE_INSERT = ''ROUTE_INSERT''"
  | "dp_grpc_name DP_GRPC_ERR_ROUTE_BAD_PORT = ''ROUTE_BAD_PORT''"
  | "dp_grpc_name DP_GRPC_ERR_ROUTE_RESET = ''ROUTE_RESET''"
  | "dp_grpc_name DP_GRPC_ERR_DNAT_NO_DATA = ''DNAT_NO_DATA''"
  | "dp_grpc_name DP_GRPC_ERR_DNAT_CREATE = ''DNAT_CREATE''"
  | "dp_grpc_name DP_GRPC_ERR_DNAT_EXISTS = ''DNAT_EXISTS''"
  | "dp_grpc_name DP_GRPC_ERR_SNAT_NO_DATA = ''SNAT_NO_DATA''"
  | "dp_grpc_name DP_GRPC_ERR_SNAT_CREATE = ''SNAT_CREATE''"
  | "dp_grpc_name DP_GRPC_ERR_SNAT_EXISTS = ''SNAT_EXISTS''"
  | "dp_grpc_name DP_GRPC_ERR_VNI_INIT4 = ''VNI_INIT4''"
  | "dp_grpc_name DP_GRPC_ERR_VNI_INIT6 = ''VNI_INIT6''"
  | "dp_grpc_name DP_GRPC_ERR_VNI_FREE4 = ''VNI_FREE4''"
  | "dp_grpc_name DP_GRPC_ERR_VNI_FREE6 = ''VNI_FREE6''"
  | "dp_grpc_name DP_GRPC_ERR_PORT_START = ''PORT_START''"
  | "dp_grpc_name DP_GRPC_ERR_PORT_STOP = ''PORT_STOP''"
  | "dp_grpc_name DP_GRPC_ERR_PORT_METER = ''PORT_METER''"
  | "dp_grpc_name DP_GRPC_ERR_VNF_INSERT = ''VNF_INSERT''"
  | "dp_grpc_name DP_GRPC_ERR_VM_HANDLE = ''VM_HANDLE''"
  | "dp_grpc_name DP_GRPC_ERR_VNF_DELETE = ''VNF_DELETE''"
  | "dp_grpc_name DP_GRPC_ERR_NO_BACKIP = ''NO_BACKIP''"
  | "dp_grpc_name DP_GRPC_ERR_NO_LB = ''NO_LB''"
  | "dp_grpc_name DP_GRPC_ERR_BACKIP_ADD = ''BACKIP_ADD''"
  | "dp_grpc_name DP_GRPC_ERR_BACKIP_DEL = ''BACKIP_DEL''"
  | "dp_grpc_name DP_GRPC_ERR_NO_DROP_SUPPORT = ''NO_DROP_SUPPORT''"
  | "dp_grpc_name DP_GRPC_ERR_SA_EXISTS = ''SA_EXISTS''"
  | "dp_grpc_name DP_GRPC_ERR_SA_NOT_FOUND = ''SA_NOT_FOUND''"
  | "dp_grpc_name DP_GRPC_ERR_SA_CREATE = ''SA_CREATE''"
  | "dp_grpc_name DP_GRPC_ERR_SA_ALGO = ''SA_ALGO''"
  | "dp_grpc_name DP_GRPC_ERR_SA_BAD_ADDR = ''SA_BAD_ADDR''"
  | "dp_grpc_name DP_GRPC_ERR_IPSEC_DISABLED = ''IPSEC_DISABLED''"
  | "dp_grpc_name DP_GRPC_ERR_SA_REPLAY_WINDOW = ''SA_REPLAY_WINDOW''"
  | "dp_grpc_name DP_GRPC_ERR_SA_DIRECTION = ''SA_DIRECTION''"

definition dp_grpc_errors :: "dp_grpc_error list" where
  "dp_grpc_errors = [
     DP_GRPC_ERR_BAD_REQUEST,
     DP_GRPC_ERR_NOT_FOUND,
     DP_GRPC_ERR_ALREADY_EXISTS,
     DP_GRPC_ERR_WRONG_TYPE,
     DP_GRPC_ERR_BAD_IPVER,
     DP_GRPC_ERR_NO_VM,
     DP_GRPC_ERR_NO_VNI,
     DP_GRPC_ERR_ITERATOR,
     DP_GRPC_ERR_OUT_OF_MEMORY,
     DP_GRPC_ERR_LIMIT_REACHED,
     DP_GRPC_ERR_ALREADY_ACTIVE,
     DP_GRPC_ERR_NOT_ACTIVE,
     DP_GRPC_ERR_ROLLBACK,
     DP_GRPC_ERR_RTE_RULE_ADD,
     DP_GRPC_ERR_RTE_RULE_DEL,
     DP_GRPC_ERR_ROUTE_EXISTS,
     DP_GRPC_ERR_ROUTE_NOT_FOUND,
     DP_GRPC_ERR_ROUTE_INSERT,
     DP_GRPC_ERR_ROUTE_BAD_PORT,
     DP_GRPC_ERR_ROUTE_RESET,
     DP_GRPC_ERR_DNAT_NO_DATA,
     DP_GRPC_ERR_DNAT_CREATE,
     DP_GRPC_ERR_DNAT_EXISTS,
     DP_GRPC_ERR_SNAT_NO_DATA,
     DP_GRPC_ERR_SNAT_CREATE,
     DP_GRPC_ERR_SNAT_EXISTS,
     DP_GRPC_ERR_VNI_INIT4,
     DP_GRPC_ERR_VNI_INIT6,
     DP_GRPC_ERR_VNI_FREE4,
     DP_GRPC_ERR_VNI_FREE6,
     DP_GRPC_ERR_PORT_START,
     DP_GRPC_ERR_PORT_STOP,
     DP_GRPC_ERR_PORT_METER,
     DP_GRPC_ERR_VNF_INSERT,
     DP_GRPC_ERR_VM_HANDLE,
     DP_GRPC_ERR_VNF_DELETE,
     DP_GRPC_ERR_NO_BACKIP,
     DP_GRPC_ERR_NO_LB,
     DP_GRPC_ERR_BACKIP_ADD,
     DP_GRPC_ERR_BACKIP_DEL,
     DP_GRPC_ERR_NO_DROP_SUPPORT,
     DP_GRPC_ERR_SA_EXISTS,
     DP_GRPC_ERR_SA_NOT_FOUND,
     DP_GRPC_ERR_SA_CREATE,
     DP_GRPC_ERR_SA_ALGO,
     DP_GRPC_ERR_SA_BAD_ADDR,
     DP_GRPC_ERR_IPSEC_DISABLED,
     DP_GRPC_ERR_SA_REPLAY_WINDOW,
     DP_GRPC_ERR_SA_DIRECTION]"

text \<open>What a failing call returns: the general error, a negated error number of
  the system or of DPDK, or one of the codes meant for the gRPC client.\<close>

datatype dp_err = DP_ERROR | ERRNO int | GRPC_ERR dp_grpc_error

type_synonym 'a dp_result = "dp_err + 'a"

abbreviation DP_OK :: "unit dp_result" where "DP_OK \<equiv> Inr ()"
abbreviation GRPC_FAIL :: "dp_grpc_error \<Rightarrow> 'a dp_result" where "GRPC_FAIL e \<equiv> Inl (GRPC_ERR e)"

definition DP_FAILED :: "int \<Rightarrow> bool" where
  "DP_FAILED ret \<longleftrightarrow> ret < 0"

definition DP_GRPC_ERRCODES :: "int \<Rightarrow> int" where
  "DP_GRPC_ERRCODES rte_max_errno = - rte_max_errno - 1"

fun dp_code :: "int \<Rightarrow> dp_err \<Rightarrow> int" where
  "dp_code rte_max_errno DP_ERROR = - rte_max_errno"
| "dp_code rte_max_errno (ERRNO n) = - n"
| "dp_code rte_max_errno (GRPC_ERR e) = DP_GRPC_ERRCODES rte_max_errno - dp_grpc_number e"

text \<open>The assertion is the \<open>None\<close> branch.\<close>

definition dp_errcode_to_grpc_errcode :: "int \<Rightarrow> int \<Rightarrow> int option" where
  "dp_errcode_to_grpc_errcode rte_max_errno dp_errcode =
     (if dp_errcode < DP_GRPC_ERRCODES rte_max_errno
      then Some (- (dp_errcode - DP_GRPC_ERRCODES rte_max_errno)) else None)"

text \<open>The table of texts is an array indexed by the number, with holes.\<close>

definition dp_grpc_error_strings :: "int \<Rightarrow> string option" where
  "dp_grpc_error_strings n = map_option dp_grpc_name (find (\<lambda>e. dp_grpc_number e = n) dp_grpc_errors)"

definition dp_grpc_strerror :: "int \<Rightarrow> string" where
  "dp_grpc_strerror grpc_errcode =
     (if grpc_errcode = 0 then ''Success''
      else if grpc_errcode < 0 \<or> grpc_errcode \<ge> 469 then ''Invalid gRPC error code''
      else case dp_grpc_error_strings grpc_errcode of
          None \<Rightarrow> ''Invalid gRPC error code''
        | Some s \<Rightarrow> s)"

definition dp_strerror :: "int \<Rightarrow> (int \<Rightarrow> string) \<Rightarrow> int \<Rightarrow> string" where
  "dp_strerror rte_max_errno rte_strerror err =
     (let error = (if err < 0 then - err else err) in
      if error < rte_max_errno then rte_strerror error
      else if error \<ge> - DP_GRPC_ERRCODES rte_max_errno
        then dp_grpc_strerror (error + DP_GRPC_ERRCODES rte_max_errno)
      else ''General dpservice error'')"

section \<open>Lemmas\<close>

lemma dp_grpc_errors_complete: "e \<in> set dp_grpc_errors"
  by (cases e) (simp_all add: dp_grpc_errors_def)

lemma dp_grpc_number_bounds: "101 \<le> dp_grpc_number e \<and> dp_grpc_number e \<le> 468"
  by (cases e) simp_all

lemma dp_grpc_numbers_distinct: "distinct (map dp_grpc_number dp_grpc_errors)"
  by (simp add: dp_grpc_errors_def)

lemma dp_grpc_number_inject: "dp_grpc_number e = dp_grpc_number e' \<longleftrightarrow> e = e'"
  using dp_grpc_numbers_distinct dp_grpc_errors_complete [of e] dp_grpc_errors_complete [of e']
  by (auto simp: distinct_map dest: inj_onD)

lemma dp_grpc_error_strings_number: "dp_grpc_error_strings (dp_grpc_number e) = Some (dp_grpc_name e)"
proof -
  have "find (\<lambda>x. dp_grpc_number x = dp_grpc_number e) dp_grpc_errors = Some e"
    using dp_grpc_errors_complete [of e]
    by (auto simp: dp_grpc_number_inject find_Some_iff in_set_conv_nth)
      (metis (no_types, lifting) dp_grpc_numbers_distinct distinct_map nat_less_le nth_eq_iff_index_eq order_less_trans)
  then show ?thesis by (simp add: dp_grpc_error_strings_def)
qed

text \<open>An error number of the system stays below the general error.\<close>

definition err_ok :: "int \<Rightarrow> dp_err \<Rightarrow> bool" where
  "err_ok rte_max_errno e \<longleftrightarrow> (case e of ERRNO n \<Rightarrow> 0 < n \<and> n < rte_max_errno | _ \<Rightarrow> True)"

lemma dp_code_negative: "0 < m \<Longrightarrow> err_ok m e \<Longrightarrow> dp_code m e < 0"
proof (cases e)
  case (GRPC_ERR g)
  assume "0 < m"
  with GRPC_ERR show ?thesis
    using dp_grpc_number_bounds [of g] by (simp add: DP_GRPC_ERRCODES_def)
qed (auto simp: err_ok_def)

lemma dp_code_range:
  assumes "0 < m" "err_ok m e"
  shows "case e of DP_ERROR \<Rightarrow> dp_code m e = - m
    | ERRNO n \<Rightarrow> - m < dp_code m e \<and> dp_code m e < 0
    | GRPC_ERR g \<Rightarrow> dp_code m e < - m - 1"
  using assms dp_grpc_number_bounds
  by (cases e) (auto simp: err_ok_def DP_GRPC_ERRCODES_def intro: less_le_trans [of 0 101])

section \<open>Properties\<close>

text \<open>C34: error codes are unambiguous.  Whatever the DPDK constant is, two
  different errors are different negative integers; converting a returned code
  for the gRPC client gives back the number of the error, and refuses (asserts
  on) exactly the codes that are no gRPC error; and the text logged for a code
  is the name of the gRPC error, the library's text, or the general one.\<close>

theorem dp_error_codes_unambiguous:
  assumes "0 < m" "err_ok m e" "err_ok m e'"
  shows "(dp_code m e = dp_code m e' \<longleftrightarrow> e = e')
    \<and> DP_FAILED (dp_code m e)
    \<and> dp_errcode_to_grpc_errcode m (dp_code m e) =
        (case e of GRPC_ERR g \<Rightarrow> Some (dp_grpc_number g) | _ \<Rightarrow> None)
    \<and> dp_strerror m strerror (dp_code m e) =
        (case e of GRPC_ERR g \<Rightarrow> dp_grpc_name g | ERRNO n \<Rightarrow> strerror n
         | DP_ERROR \<Rightarrow> ''General dpservice error'')"
proof (intro conjI)
  show "dp_code m e = dp_code m e' \<longleftrightarrow> e = e'"
    using dp_code_range [OF assms(1,2)] dp_code_range [OF assms(1,3)]
    by (cases e; cases e') (auto simp: dp_grpc_number_inject)
  show "DP_FAILED (dp_code m e)"
    using dp_code_negative [OF assms(1,2)] by (simp add: DP_FAILED_def)
  show "dp_errcode_to_grpc_errcode m (dp_code m e) =
      (case e of GRPC_ERR g \<Rightarrow> Some (dp_grpc_number g) | _ \<Rightarrow> None)"
    using dp_code_range [OF assms(1,2)]
    by (cases e) (auto simp: dp_errcode_to_grpc_errcode_def DP_GRPC_ERRCODES_def)
  show "dp_strerror m strerror (dp_code m e) =
      (case e of GRPC_ERR g \<Rightarrow> dp_grpc_name g | ERRNO n \<Rightarrow> strerror n
       | DP_ERROR \<Rightarrow> ''General dpservice error'')"
  proof (cases e)
    case (GRPC_ERR g)
    then show ?thesis
      using assms dp_grpc_number_bounds [of g]
      by (simp add: dp_strerror_def dp_grpc_strerror_def DP_GRPC_ERRCODES_def
          dp_grpc_error_strings_number)
  qed (use assms in \<open>auto simp: dp_strerror_def DP_GRPC_ERRCODES_def err_ok_def\<close>)
qed

theorem dp_error_codes_unambiguous_witness:
  "dp_strerror 1003 (\<lambda>_. ''x'') (dp_code 1003 (GRPC_ERR DP_GRPC_ERR_SA_EXISTS)) = ''SA_EXISTS''
   \<and> dp_code 1003 (GRPC_ERR DP_GRPC_ERR_SA_EXISTS) \<noteq> dp_code 1003 (ERRNO 2)"
  using dp_error_codes_unambiguous [of 1003 "GRPC_ERR DP_GRPC_ERR_SA_EXISTS" "ERRNO 2" "\<lambda>_. ''x''"]
  by (simp add: err_ok_def)

end
