(* ===== verification/Dp_Ipaddr.thy ===== *)
theory Dp_Ipaddr
  imports Dp_Error
begin

text \<open>
  IP addresses (\<open>include/dp_ipaddr.h\<close>, \<open>src/dp_ipaddr.c\<close>).  The sixteen bytes of
  the union \<open>dp_ipv6\<close> are two 64-bit words holding the network-order value of
  each half; the NAT64 view is the low half of the suffix and the underlay view
  its six fields.  The tagged union \<open>dp_ip_address\<close> is a datatype: its setters
  clear the bytes the IPv4 arm does not use, so equal values are equal bytes.
\<close>

unbundle bit_operations_syntax

record dp_ipv6 =
  ip6_prefix :: uint64
  ip6_suffix :: uint64

type_synonym ipv4 = uint32

datatype dp_ip_address = IPADDR4 ipv4 | IPADDR6 dp_ipv6

definition dp_empty_ipv6 :: dp_ipv6 where
  "dp_empty_ipv6 = \<lparr> ip6_prefix = 0, ip6_suffix = 0 \<rparr>"

definition dp_multicast_ipv6 :: dp_ipv6 where
  "dp_multicast_ipv6 = \<lparr> ip6_prefix = 0xff02000000000000, ip6_suffix = 1 \<rparr>"

definition dp_nat64_prefix :: dp_ipv6 where
  "dp_nat64_prefix = \<lparr> ip6_prefix = 0x0064ff9b00000000, ip6_suffix = 0 \<rparr>"

definition dp_nat64_mask :: dp_ipv6 where
  "dp_nat64_mask = \<lparr> ip6_prefix = 0xffffffffffffffff, ip6_suffix = 0xffffffff00000000 \<rparr>"

definition dp_is_ipv6_zero :: "dp_ipv6 \<Rightarrow> bool" where
  "dp_is_ipv6_zero ipv6 \<longleftrightarrow> ip6_prefix ipv6 = 0 \<and> ip6_suffix ipv6 = 0"

definition dp_ipv6_match :: "dp_ipv6 \<Rightarrow> dp_ipv6 \<Rightarrow> bool" where
  "dp_ipv6_match l r \<longleftrightarrow> ip6_prefix l = ip6_prefix r \<and> ip6_suffix l = ip6_suffix r"

definition dp_masked_ipv6_match :: "dp_ipv6 \<Rightarrow> dp_ipv6 \<Rightarrow> dp_ipv6 \<Rightarrow> bool" where
  "dp_masked_ipv6_match l r msk \<longleftrightarrow>
     ip6_prefix l AND ip6_prefix msk = ip6_prefix r AND ip6_prefix msk
     \<and> ip6_suffix l AND ip6_suffix msk = ip6_suffix r AND ip6_suffix msk"

definition dp_ipv6_popcount :: "dp_ipv6 \<Rightarrow> nat" where
  "dp_ipv6_popcount ipv6 = length (filter (bit (ip6_prefix ipv6)) [0..<64])
     + length (filter (bit (ip6_suffix ipv6)) [0..<64])"

definition dp_is_ipv6_nat64 :: "dp_ipv6 \<Rightarrow> bool" where
  "dp_is_ipv6_nat64 ipv6 = dp_masked_ipv6_match dp_nat64_prefix ipv6 dp_nat64_mask"

text \<open>Storing to the low 32 bits of the suffix keeps its high half.\<close>

definition set_nat64_ipv4 :: "dp_ipv6 \<Rightarrow> ipv4 \<Rightarrow> dp_ipv6" where
  "set_nat64_ipv4 ipv6 v = ipv6\<lparr> ip6_suffix :=
     (ip6_suffix ipv6 AND 0xffffffff00000000) OR ucast v \<rparr>"

definition dp_set_ipv6_nat64 :: "ipv4 \<Rightarrow> dp_ipv6" where
  "dp_set_ipv6_nat64 v = set_nat64_ipv4 dp_nat64_prefix v"

definition dp_get_ipv6_nat64 :: "dp_ipv6 \<Rightarrow> ipv4" where
  "dp_get_ipv6_nat64 ipv6 = ucast (ip6_suffix ipv6)"

definition dp_ipv6_from_ipaddr :: "dp_ip_address \<Rightarrow> dp_ipv6 dp_result" where
  "dp_ipv6_from_ipaddr addr = (case addr of IPADDR4 _ \<Rightarrow> Inl DP_ERROR | IPADDR6 ipv6 \<Rightarrow> Inr ipv6)"

definition dp_set_ipaddr6 :: "dp_ipv6 \<Rightarrow> dp_ip_address" where
  "dp_set_ipaddr6 ipv6 = IPADDR6 ipv6"

definition dp_set_ipaddr4 :: "ipv4 \<Rightarrow> dp_ip_address" where
  "dp_set_ipaddr4 v = IPADDR4 v"

definition dp_set_ipaddr_nat64 :: "ipv4 \<Rightarrow> dp_ip_address" where
  "dp_set_ipaddr_nat64 v = IPADDR6 (set_nat64_ipv4 dp_nat64_prefix v)"

section \<open>Generated underlay addresses\<close>

text \<open>The build options and the configured underlay address the generator
  reads; \<open>rand\<close> is the random byte the C library delivers for the address and
  for the first value of the counter.\<close>

record ul_conf =
  underlay_ip :: dp_ipv6
  enable_underlay_type :: bool
  enable_static_underlay_ip :: bool

definition DP_UNDERLAY_ADDRESS_TYPE :: uint8 where
  "DP_UNDERLAY_ADDRESS_TYPE = 0xd0"

definition ul_suffix :: "uint8 \<Rightarrow> uint8 \<Rightarrow> uint8 \<Rightarrow> uint8 \<Rightarrow> uint32 \<Rightarrow> uint64" where
  "ul_suffix type subtype flags random local =
     push_bit 56 (ucast type) OR push_bit 48 (ucast subtype) OR push_bit 40 (ucast flags)
     OR push_bit 32 (ucast random) OR ucast local"

definition dp_generate_ul_ipv6 ::
  "ul_conf \<Rightarrow> uint8 \<Rightarrow> uint8 \<Rightarrow> uint32 \<Rightarrow> uint8 \<Rightarrow> dp_ipv6 \<times> uint32" where
  "dp_generate_ul_ipv6 conf rand_addr rand_start ul_counter addr_type =
     (let subtype = (if enable_underlay_type conf then addr_type else 0);
          random = (if enable_static_underlay_ip conf then 1 else rand_addr);
          ctr = (if \<not> enable_static_underlay_ip conf \<and> ul_counter = 0
                 then ucast rand_start else ul_counter) + 1
      in (\<lparr> ip6_prefix = ip6_prefix (underlay_ip conf),
            ip6_suffix = ul_suffix DP_UNDERLAY_ADDRESS_TYPE subtype 0 random ctr \<rparr>, ctr))"

section \<open>Lemmas\<close>

lemma dp_ipv6_match_eq [simp]: "dp_ipv6_match l r \<longleftrightarrow> l = r"
  by (cases l; cases r) (simp add: dp_ipv6_match_def)

lemma high_half_mask: "(0xffffffff00000000 :: uint64) = NOT (mask 32)"
  by (simp add: mask_eq_exp_minus_1)

lemma all_ones: "(0xffffffffffffffff :: uint64) = - 1"
  by simp

lemma dp_get_set_nat64 [simp]: "dp_get_ipv6_nat64 (set_nat64_ipv4 ipv6 v) = v"
  by (rule bit_word_eqI)
    (simp add: dp_get_ipv6_nat64_def set_nat64_ipv4_def high_half_mask bit_simps)

lemma nat64_mask_high: "(x :: uint64) AND 0xffffffff00000000 = 0 \<longleftrightarrow> x = ucast (ucast x :: uint32)"
proof -
  have "x AND NOT (mask 32) = 0 \<longleftrightarrow> x = take_bit 32 x"
    by (auto simp: bit_eq_iff bit_simps)
  then show ?thesis
    by (simp add: high_half_mask unsigned_ucast_eq)
qed

lemma dp_is_ipv6_nat64_iff: "dp_is_ipv6_nat64 ipv6 \<longleftrightarrow> (\<exists>v. ipv6 = dp_set_ipv6_nat64 v)"
proof
  assume "dp_is_ipv6_nat64 ipv6"
  then have "ip6_prefix ipv6 = 0x0064ff9b00000000" "ip6_suffix ipv6 AND 0xffffffff00000000 = 0"
    using all_ones
    by (auto simp: dp_is_ipv6_nat64_def dp_masked_ipv6_match_def dp_nat64_prefix_def dp_nat64_mask_def)
  then have "ipv6 = dp_set_ipv6_nat64 (ucast (ip6_suffix ipv6))"
    by (cases ipv6) (simp add: nat64_mask_high dp_set_ipv6_nat64_def set_nat64_ipv4_def dp_nat64_prefix_def)
  then show "\<exists>v. ipv6 = dp_set_ipv6_nat64 v" ..
next
  assume "\<exists>v. ipv6 = dp_set_ipv6_nat64 v"
  then obtain v where v: "ipv6 = dp_set_ipv6_nat64 v" ..
  have "(ucast v :: uint64) AND 0xffffffff00000000 = 0"
    unfolding high_half_mask by (rule bit_word_eqI) (auto simp: bit_simps dest: bit_imp_le_length)
  then show "dp_is_ipv6_nat64 ipv6"
    by (simp add: v dp_is_ipv6_nat64_def dp_masked_ipv6_match_def dp_set_ipv6_nat64_def
        set_nat64_ipv4_def dp_nat64_prefix_def dp_nat64_mask_def)
qed

lemma ul_suffix_local: "ucast (ul_suffix ty sub fl rnd loc) = loc"
  by (rule bit_word_eqI) (auto simp: ul_suffix_def bit_simps)

end
