(* ===== verification/Dp_Types.thy ===== *)
theory Dp_Types
  imports Dp_Ipaddr
begin

text \<open>
  The structures the components share: the per-packet flow data and packet mark
  (\<open>include/dp_mbuf_dyn.h\<close>), flow keys and connection tracking entries
  (\<open>include/dp_flow.h\<close>), firewall rules (\<open>include/dp_firewall.h\<close>) and ports with
  their interfaces (\<open>include/dp_port.h\<close>).

  A union is kept as its bytes: the address unions are sixteen bytes whose first
  four are the IPv4 arm, and the transport union is two 16-bit fields whose
  first one holds the ICMP type and code.  Fields in network byte order hold the
  number they encode.
\<close>

section \<open>Protocol numbers\<close>

abbreviation IPPROTO_ICMP :: uint8 where "IPPROTO_ICMP \<equiv> 1"
abbreviation IPPROTO_IPIP :: uint8 where "IPPROTO_IPIP \<equiv> 4"
abbreviation IPPROTO_TCP :: uint8 where "IPPROTO_TCP \<equiv> 6"
abbreviation IPPROTO_UDP :: uint8 where "IPPROTO_UDP \<equiv> 17"
abbreviation IPPROTO_IPV6 :: uint8 where "IPPROTO_IPV6 \<equiv> 41"
abbreviation IPPROTO_ESP :: uint8 where "IPPROTO_ESP \<equiv> 50"
abbreviation IPPROTO_ICMPV6 :: uint8 where "IPPROTO_ICMPV6 \<equiv> 58"

abbreviation RTE_ETHER_TYPE_IPV4 :: uint16 where "RTE_ETHER_TYPE_IPV4 \<equiv> 0x0800"
abbreviation RTE_ETHER_TYPE_ARP :: uint16 where "RTE_ETHER_TYPE_ARP \<equiv> 0x0806"
abbreviation RTE_ETHER_TYPE_IPV6 :: uint16 where "RTE_ETHER_TYPE_IPV6 \<equiv> 0x86DD"

section \<open>Packets\<close>

datatype dp_flow_type = DP_FLOW_WEST_EAST | DP_FLOW_SOUTH_NORTH

datatype dp_pkt_offload_state = DP_FLOW_NON_OFFLOAD | DP_FLOW_OFFLOAD_INSTALL | DP_FLOW_OFFLOADED

datatype dp_flow_dir = DP_FLOW_DIR_ORG | DP_FLOW_DIR_REPLY

datatype dp_nat_type = DP_NAT_CHG_NONE | DP_NAT_CHG_SRC_IP | DP_NAT_CHG_DST_IP | DP_CHG_UL_DST_IP
  | DP_LB_RECIRC | DP_NAT_64_CHG_SRC_IP | DP_NAT_64_CHG_DST_IP

datatype dp_vnf_type = DP_VNF_TYPE_UNDEFINED | DP_VNF_TYPE_INTERFACE_IP | DP_VNF_TYPE_VIP
  | DP_VNF_TYPE_NAT | DP_VNF_TYPE_LB | DP_VNF_TYPE_LB_ALIAS_PFX | DP_VNF_TYPE_ALIAS_PFX

record dp_flow =
  df_flow_type :: dp_flow_type
  df_nat_type :: dp_nat_type
  df_flow_dir :: dp_flow_dir
  df_offload_state :: dp_pkt_offload_state
  df_vnf_type :: dp_vnf_type
  df_tun_dst_resolved :: bool
  df_l3_type :: uint16
  df_l3_payload_length :: uint32
  df_dst :: dp_ipv6
  df_src :: dp_ipv6
  df_nat_addr :: ipv4
  df_nat_port :: uint16
  df_l4_type :: uint8
  df_l4_dst_port :: uint16
  df_l4_src_port :: uint16
  df_flow_hash :: uint32
  df_ul_src_addr6 :: dp_ipv6
  df_ul_dst_addr6 :: dp_ipv6
  df_tun_l3_type :: uint16
  df_tun_proto_id :: uint8
  df_tun_dst_vni :: uint32
  df_nxt_hop :: uint16
  df_conntrack :: "nat option"
  df_virtsvc :: "nat option"

definition union_ipv4 :: "dp_ipv6 \<Rightarrow> ipv4" where
  "union_ipv4 u = ucast (drop_bit 32 (ip6_prefix u))"

definition union_set_ipv4 :: "ipv4 \<Rightarrow> dp_ipv6 \<Rightarrow> dp_ipv6" where
  "union_set_ipv4 v u = u\<lparr> ip6_prefix := push_bit 32 (ucast v) OR (ip6_prefix u AND 0xffffffff) \<rparr>"

definition df_dst_addr :: "dp_flow \<Rightarrow> ipv4" where
  "df_dst_addr df = union_ipv4 (df_dst df)"

definition df_src_addr :: "dp_flow \<Rightarrow> ipv4" where
  "df_src_addr df = union_ipv4 (df_src df)"

definition df_icmp_type :: "dp_flow \<Rightarrow> uint8" where
  "df_icmp_type df = ucast (drop_bit 8 (df_l4_dst_port df))"

definition df_icmp_code :: "dp_flow \<Rightarrow> uint8" where
  "df_icmp_code df = ucast (df_l4_dst_port df)"

definition df_icmp_identifier :: "dp_flow \<Rightarrow> uint16" where
  "df_icmp_identifier df = df_l4_src_port df"

record dp_pkt_mark =
  mark_id :: uint32
  mark_is_recirc :: bool
  mark_crypto_failed :: bool

text \<open>A cleared flow structure (every enumeration starts at zero).\<close>

definition dp_init_flow_ptr :: dp_flow where
  "dp_init_flow_ptr = \<lparr>
     df_flow_type = DP_FLOW_WEST_EAST, df_nat_type = DP_NAT_CHG_NONE, df_flow_dir = DP_FLOW_DIR_ORG,
     df_offload_state = DP_FLOW_NON_OFFLOAD, df_vnf_type = DP_VNF_TYPE_UNDEFINED,
     df_tun_dst_resolved = False, df_l3_type = 0, df_l3_payload_length = 0,
     df_dst = dp_empty_ipv6, df_src = dp_empty_ipv6, df_nat_addr = 0, df_nat_port = 0,
     df_l4_type = 0, df_l4_dst_port = 0, df_l4_src_port = 0, df_flow_hash = 0,
     df_ul_src_addr6 = dp_empty_ipv6, df_ul_dst_addr6 = dp_empty_ipv6, df_tun_l3_type = 0,
     df_tun_proto_id = 0, df_tun_dst_vni = 0, df_nxt_hop = 0, df_conntrack = None, df_virtsvc = None \<rparr>"

text \<open>The headers the extraction functions read.\<close>

record rte_ipv4_hdr =
  ip4_src_addr :: ipv4
  ip4_dst_addr :: ipv4
  ip4_next_proto_id :: uint8

record rte_ipv6_hdr =
  ip6h_src_addr :: dp_ipv6
  ip6h_dst_addr :: dp_ipv6
  ip6h_proto :: uint8

text \<open>The first four bytes of the transport header: ports, or the ICMP type and
  code; and the identifier of an ICMP header.\<close>

record l4_hdr =
  l4_word0 :: uint16
  l4_word1 :: uint16
  l4_icmp_ident :: uint16

definition dp_extract_ipv4_header :: "rte_ipv4_hdr \<Rightarrow> dp_flow \<Rightarrow> dp_flow" where
  "dp_extract_ipv4_header hdr df = df\<lparr>
     df_src := union_set_ipv4 (ip4_src_addr hdr) (df_src df),
     df_dst := union_set_ipv4 (ip4_dst_addr hdr) (df_dst df),
     df_l4_type := ip4_next_proto_id hdr \<rparr>"

definition dp_extract_ipv6_header :: "rte_ipv6_hdr \<Rightarrow> dp_flow \<Rightarrow> dp_flow" where
  "dp_extract_ipv6_header hdr df = df\<lparr>
     df_dst := ip6h_dst_addr hdr, df_src := ip6h_src_addr hdr, df_l4_type := ip6h_proto hdr \<rparr>"

text \<open>In a TCP or UDP header the source port comes first; the ICMP type and code
  are the first two bytes.\<close>

definition dp_extract_l4_header :: "l4_hdr \<Rightarrow> dp_flow \<Rightarrow> unit dp_result \<times> dp_flow" where
  "dp_extract_l4_header hdr df =
     (if df_l4_type df = IPPROTO_TCP \<or> df_l4_type df = IPPROTO_UDP
      then (DP_OK, df\<lparr> df_l4_dst_port := l4_word1 hdr, df_l4_src_port := l4_word0 hdr \<rparr>)
      else if df_l4_type df = IPPROTO_ICMP \<or> df_l4_type df = IPPROTO_ICMPV6
      then (DP_OK, df\<lparr> df_l4_dst_port := l4_word0 hdr, df_l4_src_port := l4_icmp_ident hdr \<rparr>)
      else (Inl DP_ERROR, df))"

definition dp_extract_underlay_header :: "rte_ipv6_hdr \<Rightarrow> dp_flow \<Rightarrow> dp_flow" where
  "dp_extract_underlay_header hdr df = df\<lparr>
     df_ul_src_addr6 := ip6h_src_addr hdr, df_ul_dst_addr6 := ip6h_dst_addr hdr,
     df_tun_proto_id := ip6h_proto hdr \<rparr>"

section \<open>Connection tracking entries\<close>

datatype dp_flow_nat_type = DP_FLOW_NAT_TYPE_NONE | DP_FLOW_NAT_TYPE_VIP
  | DP_FLOW_NAT_TYPE_NETWORK_LOCAL | DP_FLOW_NAT_TYPE_NETWORK_NEIGH | DP_FLOW_NAT_AS_TARGET
  | DP_FLOW_LB_TYPE_LOCAL_NEIGH_TRAFFIC | DP_FLOW_LB_TYPE_RECIRC | DP_FLOW_LB_TYPE_FORWARD

datatype dp_flow_tcp_state = DP_FLOW_TCP_STATE_NONE | DP_FLOW_TCP_STATE_NEW_SYN
  | DP_FLOW_TCP_STATE_NEW_SYNACK | DP_FLOW_TCP_STATE_ESTABLISHED
  | DP_FLOW_TCP_STATE_FINWAIT | DP_FLOW_TCP_STATE_RST_FIN

datatype dp_fwall_action = DP_FWALL_DROP | DP_FWALL_ACCEPT

record flow_key =
  fk_l3_dst :: dp_ip_address
  fk_proto :: uint8
  fk_port_dst :: uint16
  fk_l3_src :: dp_ip_address
  fk_vnf_type :: dp_vnf_type
  fk_src :: uint16
  fk_vni :: uint32

record flow_nf_info =
  nf_vni :: uint32
  nf_icmp_err_ip_cksum :: uint16
  nf_nat_type :: dp_flow_nat_type
  nf_underlay_dst :: dp_ipv6
  nf_l4_type :: uint8

record flow_value =
  fv_key_org :: flow_key
  fv_key_reply :: flow_key
  fv_age_ctxs :: "nat option list"
  fv_nf_info :: flow_nf_info
  fv_timestamp :: uint64
  fv_timeout_value :: uint32
  fv_created_port_id :: uint16
  fv_flow_flags :: uint8
  fv_fwall_org :: dp_fwall_action
  fv_fwall_reply :: dp_fwall_action
  fv_offload_orig :: dp_pkt_offload_state
  fv_offload_reply :: dp_pkt_offload_state
  fv_offloaded_pf0 :: bool
  fv_offloaded_pf1 :: bool
  fv_ref_count :: uint32
  fv_tcp_state :: dp_flow_tcp_state
  fv_first_syn_dir :: dp_flow_dir
  fv_aged :: bool

definition DP_FLOW_FLAG_SRC_NAT :: uint8 where "DP_FLOW_FLAG_SRC_NAT = 0x01"
definition DP_FLOW_FLAG_DST_NAT :: uint8 where "DP_FLOW_FLAG_DST_NAT = 0x02"
definition DP_FLOW_FLAG_DST_LB :: uint8 where "DP_FLOW_FLAG_DST_LB = 0x04"
definition DP_FLOW_FLAG_FIREWALL :: uint8 where "DP_FLOW_FLAG_FIREWALL = 0x08"
definition DP_FLOW_FLAG_SRC_NAT64 :: uint8 where "DP_FLOW_FLAG_SRC_NAT64 = 0x10"
definition DP_FLOW_FLAG_DEFAULT :: uint8 where "DP_FLOW_FLAG_DEFAULT = 0x20"
definition DP_FLOW_FLAG_DST_NAT_FWD :: uint8 where "DP_FLOW_FLAG_DST_NAT_FWD = 0x40"

definition DP_FLOW_FLAG_NF :: uint8 where
  "DP_FLOW_FLAG_NF = DP_FLOW_FLAG_SRC_NAT64 OR DP_FLOW_FLAG_SRC_NAT OR DP_FLOW_FLAG_DST_NAT
     OR DP_FLOW_FLAG_DST_LB OR DP_FLOW_FLAG_DST_NAT_FWD"

definition has_flag :: "uint8 \<Rightarrow> uint8 \<Rightarrow> bool" where
  "has_flag flags flag \<longleftrightarrow> flags AND flag \<noteq> 0"

section \<open>Firewall rules\<close>

datatype dp_fwall_direction = DP_FWALL_INGRESS | DP_FWALL_EGRESS

text \<open>The filter union: four 32-bit words, the first two of which are the type
  and the code of an ICMP filter.  The mask union is read through the arm its
  rule's address has.\<close>

record dp_filter =
  src_port_lower :: uint32
  src_port_upper :: uint32
  dst_port_lower :: uint32
  dst_port_upper :: uint32

record dp_ip_mask =
  mask_ip6 :: dp_ipv6
  mask_ip4 :: uint32

record dp_fwall_rule =
  rule_id :: string
  rule_src_ip :: dp_ip_address
  rule_dest_ip :: dp_ip_address
  rule_src_mask :: dp_ip_mask
  rule_dest_mask :: dp_ip_mask
  rule_priority :: uint16
  rule_protocol :: uint8
  rule_filter :: dp_filter
  rule_action :: dp_fwall_action
  rule_dir :: dp_fwall_direction

definition filter_icmp_type :: "dp_filter \<Rightarrow> uint32" where
  "filter_icmp_type f = src_port_lower f"

definition filter_icmp_code :: "dp_filter \<Rightarrow> uint32" where
  "filter_icmp_code f = src_port_upper f"

section \<open>Ports\<close>

record dp_iface_cfg =
  cfg_own_ip :: ipv4
  cfg_neigh_ip :: ipv4
  cfg_ip_depth :: uint8
  cfg_own_ipv6 :: dp_ipv6
  cfg_ip6_depth :: uint8
  cfg_pxe_ip :: dp_ip_address
  cfg_pxe_str :: string
  cfg_hostname :: string

record dp_port_iface =
  fwall_head :: "dp_fwall_rule list"
  fwall_rule_count :: uint32
  if_cfg :: dp_iface_cfg
  if_vni :: uint32
  if_encrypt :: bool
  if_id :: string
  if_ul_ipv6 :: dp_ipv6
  if_nat_ip :: ipv4
  if_nat_port_range :: "uint16 \<times> uint16"
  if_ready :: bool
  if_arp_done :: bool
  if_total_flow_rate_cap :: uint64
  if_public_flow_rate_cap :: uint64
  if_hostname_len :: uint32

type_synonym mac = "48 word"

record dp_port =
  is_pf :: bool
  port_id :: uint16
  port_name :: string
  link_status :: bool
  allocated :: bool
  peer_pf_port_id :: uint16
  own_mac :: mac
  neigh_mac :: mac
  iface :: dp_port_iface
  captured :: bool

text \<open>Zeroed memory.\<close>

definition dp_iface_zero :: dp_port_iface where
  "dp_iface_zero = \<lparr> fwall_head = [], fwall_rule_count = 0,
     if_cfg = \<lparr> cfg_own_ip = 0, cfg_neigh_ip = 0, cfg_ip_depth = 0, cfg_own_ipv6 = dp_empty_ipv6, cfg_ip6_depth = 0,
       cfg_pxe_ip = dp_set_ipaddr4 0, cfg_pxe_str = [], cfg_hostname = [] \<rparr>,
     if_vni = 0, if_encrypt = False, if_id = [], if_ul_ipv6 = dp_empty_ipv6, if_nat_ip = 0, if_nat_port_range = (0, 0),
     if_ready = False, if_arp_done = False, if_total_flow_rate_cap = 0, if_public_flow_rate_cap = 0, if_hostname_len = 0 \<rparr>"

definition dp_port_zero :: dp_port where
  "dp_port_zero = \<lparr> is_pf = False, port_id = 0, port_name = [], link_status = False, allocated = False,
     peer_pf_port_id = 0, own_mac = 0, neigh_mac = 0, iface = dp_iface_zero, captured = False \<rparr>"

definition dp_arp_cycle_needed :: "dp_port \<Rightarrow> bool" where
  "dp_arp_cycle_needed port \<longleftrightarrow> if_ready (iface port) \<and> \<not> if_arp_done (iface port)"

definition dp_get_port_ul_ipv6 :: "dp_ipv6 \<Rightarrow> dp_port \<Rightarrow> dp_ipv6" where
  "dp_get_port_ul_ipv6 conf_underlay port =
     (if if_ready (iface port) then if_ul_ipv6 (iface port) else conf_underlay)"

text \<open>The table of ports; an identifier outside it is refused.\<close>

definition dp_get_port_by_id :: "dp_port option list \<Rightarrow> uint16 \<Rightarrow> dp_port option" where
  "dp_get_port_by_id table pid = (if unat pid \<ge> length table then None else table ! unat pid)"

definition dp_get_port_by_pf_index :: "dp_port option list \<Rightarrow> uint16 \<Rightarrow> dp_port option" where
  "dp_get_port_by_pf_index pfs index = (if unat index < length pfs then pfs ! unat index else None)"

section \<open>Lemmas\<close>

lemma low_half_mask: "(0xffffffff :: uint64) = mask 32"
  by (simp add: mask_eq_exp_minus_1)

lemma union_ipv4_set [simp]: "union_ipv4 (union_set_ipv4 v u) = v"
  by (rule bit_word_eqI)
    (auto simp: union_ipv4_def union_set_ipv4_def low_half_mask bit_simps)

lemma extract_ipv4_addrs [simp]:
  "df_src_addr (dp_extract_ipv4_header hdr df) = ip4_src_addr hdr"
  "df_dst_addr (dp_extract_ipv4_header hdr df) = ip4_dst_addr hdr"
  by (simp_all add: df_src_addr_def df_dst_addr_def dp_extract_ipv4_header_def)

end
