(* ===== verification/Dp_Ipsec.thy ===== *)
theory Dp_Ipsec
  imports Dp_Ipaddr
begin

text \<open>
  IPsec Security Associations (\<open>include/dp_ipsec.h\<close>, \<open>src/dp_ipsec.c\<close>).

  The associations are heap objects referenced from the Security Association
  Database (SAD) and from the array of owning slots; their crypto sessions and
  librte_ipsec objects are allocations of their own.  All of it is one state
  record.  librte_ipsec, the SAD, the cryptodev and the allocator are library
  code: the record \<open>ipsec_lib\<close> holds the calls the source makes, and the locale
  \<open>ipsec_library\<close> what their documentation promises.
\<close>

section \<open>Data\<close>

definition DP_IPSEC_ICV_LEN :: nat where "DP_IPSEC_ICV_LEN = 16"
definition DP_IPSEC_IV_LEN :: nat where "DP_IPSEC_IV_LEN = 8"
definition DP_IPSEC_AAD_LEN :: nat where "DP_IPSEC_AAD_LEN = 8"
definition DP_IPSEC_AAD_LEN_ESN :: nat where "DP_IPSEC_AAD_LEN_ESN = 12"
definition DP_IPSEC_MAX_SA :: nat where "DP_IPSEC_MAX_SA = 64"
definition DP_IPSEC_REPLAY_WINDOW_MAX :: uint32 where "DP_IPSEC_REPLAY_WINDOW_MAX = 4096"
definition DP_IPSEC_DEQUEUE_RETRIES :: nat where "DP_IPSEC_DEQUEUE_RETRIES = 32"

datatype dp_ipsec_dir = DP_IPSEC_DIR_INGRESS | DP_IPSEC_DIR_EGRESS

text \<open>The algorithm is an enumeration the source compares with its end, so a
  value past the end is representable.\<close>

definition DP_IPSEC_ALGO_AES_128_GCM :: nat where "DP_IPSEC_ALGO_AES_128_GCM = 0"
definition DP_IPSEC_ALGO_AES_256_GCM :: nat where "DP_IPSEC_ALGO_AES_256_GCM = 1"
definition DP_IPSEC_ALGO_MAX :: nat where "DP_IPSEC_ALGO_MAX = 2"

datatype aead_algorithm = RTE_CRYPTO_AEAD_AES_GCM

record dp_ipsec_algo_spec =
  aead_algo :: aead_algorithm
  key_len :: nat
  salt_len :: nat
  icv_len :: nat

definition dp_ipsec_algos :: "dp_ipsec_algo_spec list" where
  "dp_ipsec_algos = [
     \<lparr> aead_algo = RTE_CRYPTO_AEAD_AES_GCM, key_len = 16, salt_len = 4, icv_len = DP_IPSEC_ICV_LEN \<rparr>,
     \<lparr> aead_algo = RTE_CRYPTO_AEAD_AES_GCM, key_len = 32, salt_len = 4, icv_len = DP_IPSEC_ICV_LEN \<rparr>]"

type_synonym ptr = nat

record rte_ipsec_session =
  ses_sa :: "ptr option"
  ses_crypto :: "ptr option"

record dp_ipsec_sa =
  sa_spi :: uint32
  sa_vni :: uint32
  sa_algo :: nat
  sa_dir :: dp_ipsec_dir
  sa_src :: dp_ipv6
  sa_dst :: dp_ipv6
  sa_key :: "uint8 list"
  sa_salt :: "uint8 list"
  sa_salt_len :: nat
  sa_replay_window :: uint32
  sa_esn :: bool
  sa_session :: "ptr option"
  sa_ipsec_sa :: "ptr option"
  sa_ipsec_session :: rte_ipsec_session

record dp_ipsec_sa_spec =
  spec_spi :: uint32
  spec_vni :: uint32
  spec_dir :: dp_ipsec_dir
  spec_src :: dp_ipv6
  spec_dst :: dp_ipv6

record sad_key =
  key_spi :: uint32
  key_dip :: dp_ipv6
  key_sip :: dp_ipv6

datatype aead_op = RTE_CRYPTO_AEAD_OP_ENCRYPT | RTE_CRYPTO_AEAD_OP_DECRYPT
datatype sa_direction = RTE_SECURITY_IPSEC_SA_DIR_INGRESS | RTE_SECURITY_IPSEC_SA_DIR_EGRESS

record sym_xform =
  xf_op :: aead_op
  xf_algo :: aead_algorithm
  xf_key_data :: "uint8 list"
  xf_key_length :: nat
  xf_iv_length :: nat
  xf_digest_length :: nat
  xf_aad_length :: nat

record ipsec_sa_prm =
  prm_spi :: uint32
  prm_salt :: "uint8 list"
  prm_direction :: sa_direction
  prm_replay_win_sz :: uint32
  prm_esn :: bool
  prm_crypto_xform :: sym_xform

section \<open>State and library\<close>

type_synonym sad = "sad_key \<rightharpoonup> ptr"

record ipsec_state =
  ips_active :: bool
  ips_session_pool :: bool
  ips_op_pool :: bool
  ips_sad :: "sad option"
  ips_sas :: "ptr option list"
  ips_heap :: "ptr \<rightharpoonup> dp_ipsec_sa"
  ips_sessions :: "ptr set"
  ips_rte_sas :: "ptr set"

record ipsec_conf =
  conf_ipsec_enabled :: bool
  conf_underlay_ip :: dp_ipv6

record ipsec_lib =
  rte_eal_hotplug_add :: int
  rte_cryptodev_get_dev_id :: int
  rte_cryptodev_configure :: int
  rte_cryptodev_queue_pair_setup :: int
  rte_cryptodev_sym_session_pool_create :: bool
  rte_crypto_op_pool_create :: bool
  rte_ipsec_sad_create :: bool
  rte_cryptodev_start :: int
  zmalloc_sa :: "(ptr \<rightharpoonup> dp_ipsec_sa) \<Rightarrow> ptr option"
  sym_session_create :: "ptr set \<Rightarrow> sym_xform \<Rightarrow> ptr option"
  rte_ipsec_sa_size :: "ipsec_sa_prm \<Rightarrow> int"
  zmalloc_rte_sa :: "ptr set \<Rightarrow> int \<Rightarrow> ptr option"
  rte_ipsec_sa_init :: "ptr \<Rightarrow> ipsec_sa_prm \<Rightarrow> int \<Rightarrow> int"
  rte_ipsec_session_prepare :: "rte_ipsec_session \<Rightarrow> int"
  rte_ipsec_sad_lookup :: "sad \<Rightarrow> sad_key \<Rightarrow> ptr option"
  rte_ipsec_sad_add :: "sad \<Rightarrow> sad_key \<Rightarrow> ptr \<Rightarrow> int + sad"
  rte_ipsec_sad_del :: "sad \<Rightarrow> sad_key \<Rightarrow> int + sad"

section \<open>Algorithms and transforms\<close>

definition dp_ipsec_get_key_len :: "nat \<Rightarrow> nat dp_result" where
  "dp_ipsec_get_key_len algo =
     (if algo \<ge> DP_IPSEC_ALGO_MAX then Inl DP_ERROR else Inr (key_len (dp_ipsec_algos ! algo)))"

definition dp_ipsec_get_salt_len :: "nat \<Rightarrow> nat dp_result" where
  "dp_ipsec_get_salt_len algo =
     (if algo \<ge> DP_IPSEC_ALGO_MAX then Inl DP_ERROR else Inr (salt_len (dp_ipsec_algos ! algo)))"

definition dp_ipsec_fill_xform :: "dp_ipsec_sa \<Rightarrow> sym_xform" where
  "dp_ipsec_fill_xform sa = (let spec = dp_ipsec_algos ! sa_algo sa in
     \<lparr> xf_op = (if sa_dir sa = DP_IPSEC_DIR_EGRESS then RTE_CRYPTO_AEAD_OP_ENCRYPT
                else RTE_CRYPTO_AEAD_OP_DECRYPT),
       xf_algo = aead_algo spec,
       xf_key_data = sa_key sa,
       xf_key_length = key_len spec,
       xf_iv_length = salt_len spec + DP_IPSEC_IV_LEN,
       xf_digest_length = icv_len spec,
       xf_aad_length = (if sa_esn sa then DP_IPSEC_AAD_LEN_ESN else DP_IPSEC_AAD_LEN) \<rparr>)"

definition ipsec_prm :: "dp_ipsec_sa \<Rightarrow> sym_xform \<Rightarrow> ipsec_sa_prm" where
  "ipsec_prm sa xform =
     \<lparr> prm_spi = sa_spi sa,
       prm_salt = sa_salt sa,
       prm_direction = (if sa_dir sa = DP_IPSEC_DIR_EGRESS then RTE_SECURITY_IPSEC_SA_DIR_EGRESS
                        else RTE_SECURITY_IPSEC_SA_DIR_INGRESS),
       prm_replay_win_sz = sa_replay_window sa,
       prm_esn = sa_esn sa,
       prm_crypto_xform = xform \<rparr>"

section \<open>Building and freeing an association\<close>

definition store_sa :: "ptr \<Rightarrow> dp_ipsec_sa \<Rightarrow> ipsec_state \<Rightarrow> ipsec_state" where
  "store_sa p sa s = s\<lparr> ips_heap := (ips_heap s)(p \<mapsto> sa) \<rparr>"

text \<open>Result, the association with the references it has acquired, and the
  state: a failure leaves behind what was allocated before it.\<close>

definition dp_ipsec_create_ipsec_sa ::
  "ipsec_lib \<Rightarrow> dp_ipsec_sa \<Rightarrow> sym_xform \<Rightarrow> ipsec_state
   \<Rightarrow> unit dp_result \<times> dp_ipsec_sa \<times> ipsec_state" where
  "dp_ipsec_create_ipsec_sa L sa xform s =
     (let prm = ipsec_prm sa xform; size = rte_ipsec_sa_size L prm in
      if DP_FAILED size then (Inl DP_ERROR, sa, s)
      else case zmalloc_rte_sa L (ips_rte_sas s) size of
        None \<Rightarrow> (Inl DP_ERROR, sa\<lparr> sa_ipsec_sa := None \<rparr>, s)
      | Some r \<Rightarrow>
          let sa = sa\<lparr> sa_ipsec_sa := Some r \<rparr>;
              s = s\<lparr> ips_rte_sas := insert r (ips_rte_sas s) \<rparr> in
          if DP_FAILED (rte_ipsec_sa_init L r prm size) then (Inl DP_ERROR, sa, s)
          else
            let ses = \<lparr> ses_sa = Some r, ses_crypto = sa_session sa \<rparr>;
                sa = sa\<lparr> sa_ipsec_session := ses \<rparr> in
            if DP_FAILED (rte_ipsec_session_prepare L ses) then (Inl DP_ERROR, sa, s)
            else (DP_OK, sa, s))"

definition dp_ipsec_free_sa :: "ptr \<Rightarrow> dp_ipsec_sa \<Rightarrow> ipsec_state \<Rightarrow> ipsec_state" where
  "dp_ipsec_free_sa p sa s = s\<lparr>
     ips_rte_sas := ips_rte_sas s - set_option (sa_ipsec_sa sa),
     ips_sessions := ips_sessions s - set_option (sa_session sa),
     ips_heap := (ips_heap s)(p := None) \<rparr>"

section \<open>Start and shutdown\<close>

definition dp_ipsec_create_device :: "ipsec_lib \<Rightarrow> unit dp_result" where
  "dp_ipsec_create_device L =
     (if DP_FAILED (rte_eal_hotplug_add L) then Inl DP_ERROR
      else if DP_FAILED (rte_cryptodev_get_dev_id L) then Inl DP_ERROR
      else if DP_FAILED (rte_cryptodev_configure L) then Inl DP_ERROR
      else if DP_FAILED (rte_cryptodev_queue_pair_setup L) then Inl DP_ERROR
      else DP_OK)"

definition dp_ipsec_create_pools :: "ipsec_lib \<Rightarrow> ipsec_state \<Rightarrow> unit dp_result \<times> ipsec_state" where
  "dp_ipsec_create_pools L s =
     (let s = s\<lparr> ips_session_pool := rte_cryptodev_sym_session_pool_create L \<rparr> in
      if \<not> ips_session_pool s then (Inl DP_ERROR, s)
      else let s = s\<lparr> ips_op_pool := rte_crypto_op_pool_create L \<rparr> in
      if \<not> ips_op_pool s then (Inl DP_ERROR, s) else (DP_OK, s))"

definition dp_ipsec_create_sad :: "ipsec_lib \<Rightarrow> ipsec_state \<Rightarrow> unit dp_result \<times> ipsec_state" where
  "dp_ipsec_create_sad L s =
     (if rte_ipsec_sad_create L then (DP_OK, s\<lparr> ips_sad := Some Map.empty \<rparr>)
      else (Inl DP_ERROR, s\<lparr> ips_sad := None \<rparr>))"

definition dp_ipsec_init ::
  "ipsec_conf \<Rightarrow> ipsec_lib \<Rightarrow> ipsec_state \<Rightarrow> unit dp_result \<times> ipsec_state" where
  "dp_ipsec_init conf L s =
     (if \<not> conf_ipsec_enabled conf then (DP_OK, s)
      else case dp_ipsec_create_device L of
        Inl e \<Rightarrow> (Inl DP_ERROR, s)
      | Inr _ \<Rightarrow> (case dp_ipsec_create_pools L s of
          (Inl e, s) \<Rightarrow> (Inl DP_ERROR, s)
        | (Inr _, s) \<Rightarrow> (case dp_ipsec_create_sad L s of
            (Inl e, s) \<Rightarrow> (Inl DP_ERROR, s)
          | (Inr _, s) \<Rightarrow>
              if DP_FAILED (rte_cryptodev_start L) then (Inl DP_ERROR, s)
              else (DP_OK, s\<lparr> ips_active := True \<rparr>))))"

definition dp_ipsec_is_enabled :: "ipsec_state \<Rightarrow> bool" where
  "dp_ipsec_is_enabled s = ips_active s"

text \<open>One iteration of the loop over the slots; a slot whose reference has no
  object behind it is excluded by the invariant below.\<close>

definition free_slot :: "nat \<Rightarrow> ipsec_state \<Rightarrow> ipsec_state" where
  "free_slot i s = (case ips_sas s ! i of
       None \<Rightarrow> s
     | Some p \<Rightarrow>
         let s = (case ips_heap s p of None \<Rightarrow> s | Some sa \<Rightarrow> dp_ipsec_free_sa p sa s) in
         s\<lparr> ips_sas := (ips_sas s)[i := None] \<rparr>)"

definition dp_ipsec_free :: "ipsec_state \<Rightarrow> ipsec_state" where
  "dp_ipsec_free s =
     (let s = s\<lparr> ips_active := False \<rparr>;
          s = fold free_slot [0..<length (ips_sas s)] s;
          s = s\<lparr> ips_sad := None \<rparr> in
      s\<lparr> ips_op_pool := False, ips_session_pool := False \<rparr>)"

section \<open>Keys and lookups\<close>

definition mask_prefix :: "dp_ipv6 \<Rightarrow> dp_ipv6" where
  "mask_prefix a = \<lparr> ip6_prefix = ip6_prefix a, ip6_suffix = 0 \<rparr>"

definition dp_ipsec_build_key :: "uint32 \<Rightarrow> dp_ipv6 \<Rightarrow> dp_ipv6 \<Rightarrow> sad_key" where
  "dp_ipsec_build_key lookup_spi src dst =
     \<lparr> key_spi = lookup_spi, key_dip = mask_prefix dst, key_sip = mask_prefix src \<rparr>"

text \<open>Without a database the library call changes nothing and every result
  stays the null pointer it was initialised with.\<close>

definition dp_ipsec_lookup_sa :: "ipsec_lib \<Rightarrow> ipsec_state \<Rightarrow> sad_key list \<Rightarrow> ptr option list" where
  "dp_ipsec_lookup_sa L s keys = (case ips_sad s of
       None \<Rightarrow> map (\<lambda>_. None) keys
     | Some T \<Rightarrow> map (rte_ipsec_sad_lookup L T) keys)"

definition dp_ipsec_get_lookup_spi :: "dp_ipsec_sa_spec \<Rightarrow> uint32" where
  "dp_ipsec_get_lookup_spi spec =
     (if spec_dir spec = DP_IPSEC_DIR_EGRESS then spec_vni spec else spec_spi spec)"

definition dp_ipsec_lookup_one :: "ipsec_lib \<Rightarrow> ipsec_state \<Rightarrow> dp_ipsec_sa_spec \<Rightarrow> ptr option" where
  "dp_ipsec_lookup_one L s spec =
     hd (dp_ipsec_lookup_sa L s
       [dp_ipsec_build_key (dp_ipsec_get_lookup_spi spec) (spec_src spec) (spec_dst spec)])"

text \<open>The reference together with the association it points at.\<close>

definition dp_ipsec_find_sa ::
  "ipsec_lib \<Rightarrow> ipsec_state \<Rightarrow> dp_ipsec_sa_spec \<Rightarrow> (ptr \<times> dp_ipsec_sa) option" where
  "dp_ipsec_find_sa L s spec = (case dp_ipsec_lookup_one L s spec of
       None \<Rightarrow> None
     | Some p \<Rightarrow> (case ips_heap s p of
         None \<Rightarrow> None
       | Some sa \<Rightarrow>
           if sa_dir sa \<noteq> spec_dir spec \<or> sa_vni sa \<noteq> spec_vni spec \<or> sa_spi sa \<noteq> spec_spi spec
           then None else Some (p, sa)))"

definition dp_ipsec_is_local_side_valid :: "ipsec_conf \<Rightarrow> dp_ipsec_sa \<Rightarrow> bool" where
  "dp_ipsec_is_local_side_valid conf request =
     (let loc = (if sa_dir request = DP_IPSEC_DIR_EGRESS then sa_src request else sa_dst request) in
      ip6_prefix loc = ip6_prefix (conf_underlay_ip conf))"

definition dp_ipsec_is_replay_window_valid :: "dp_ipsec_sa \<Rightarrow> bool" where
  "dp_ipsec_is_replay_window_valid request =
     (if sa_dir request = DP_IPSEC_DIR_EGRESS then sa_replay_window request = 0
      else sa_replay_window request \<le> DP_IPSEC_REPLAY_WINDOW_MAX)"

section \<open>Lifecycle\<close>

definition dp_ipsec_build_sa ::
  "ipsec_lib \<Rightarrow> dp_ipsec_sa \<Rightarrow> uint32 \<Rightarrow> ipsec_state
   \<Rightarrow> (ptr \<times> dp_ipsec_sa) dp_result \<times> ipsec_state" where
  "dp_ipsec_build_sa L request lookup_spi s = (case zmalloc_sa L (ips_heap s) of
       None \<Rightarrow> (GRPC_FAIL DP_GRPC_ERR_OUT_OF_MEMORY, s)
     | Some p \<Rightarrow>
         let sa = request\<lparr> sa_salt_len := salt_len (dp_ipsec_algos ! sa_algo request),
                           sa_ipsec_sa := None, sa_session := None \<rparr>;
             xform = dp_ipsec_fill_xform sa;
             s = store_sa p sa s in
         case sym_session_create L (ips_sessions s) xform of
           None \<Rightarrow> (GRPC_FAIL DP_GRPC_ERR_SA_CREATE, dp_ipsec_free_sa p sa s)
         | Some x \<Rightarrow>
             let sa = sa\<lparr> sa_session := Some x \<rparr>;
                 s = s\<lparr> ips_sessions := insert x (ips_sessions s) \<rparr> in
             (case dp_ipsec_create_ipsec_sa L sa xform s of
               (Inl e, sa, s) \<Rightarrow> (GRPC_FAIL DP_GRPC_ERR_SA_CREATE, dp_ipsec_free_sa p sa s)
             | (Inr _, sa, s) \<Rightarrow>
                 let key = dp_ipsec_build_key lookup_spi (sa_src sa) (sa_dst sa);
                     sa = sa\<lparr> sa_src := key_sip key, sa_dst := key_dip key \<rparr> in
                 (Inr (p, sa), store_sa p sa s)))"

definition dp_ipsec_get_slot :: "ipsec_state \<Rightarrow> ptr \<Rightarrow> nat" where
  "dp_ipsec_get_slot s p = first_index (\<lambda>x. x = Some p) (ips_sas s)"

definition sa_spec :: "dp_ipsec_sa \<Rightarrow> dp_ipsec_sa_spec" where
  "sa_spec request = \<lparr> spec_spi = sa_spi request, spec_vni = sa_vni request,
     spec_dir = sa_dir request, spec_src = sa_src request, spec_dst = sa_dst request \<rparr>"

definition dp_ipsec_create_sa ::
  "ipsec_conf \<Rightarrow> ipsec_lib \<Rightarrow> dp_ipsec_sa \<Rightarrow> ipsec_state \<Rightarrow> unit dp_result \<times> ipsec_state" where
  "dp_ipsec_create_sa conf L request s = (case ips_sad s of
       None \<Rightarrow> (GRPC_FAIL DP_GRPC_ERR_IPSEC_DISABLED, s)
     | Some T \<Rightarrow>
         let spec = sa_spec request;
             slot = first_index (\<lambda>x. x = None) (ips_sas s) in
         if sa_algo request \<ge> DP_IPSEC_ALGO_MAX then (GRPC_FAIL DP_GRPC_ERR_SA_ALGO, s)
         else if \<not> dp_ipsec_is_local_side_valid conf request then (GRPC_FAIL DP_GRPC_ERR_SA_BAD_ADDR, s)
         else if \<not> dp_ipsec_is_replay_window_valid request then (GRPC_FAIL DP_GRPC_ERR_SA_REPLAY_WINDOW, s)
         else if dp_ipsec_lookup_one L s spec \<noteq> None then (GRPC_FAIL DP_GRPC_ERR_SA_EXISTS, s)
         else if slot = length (ips_sas s) then (GRPC_FAIL DP_GRPC_ERR_LIMIT_REACHED, s)
         else (case dp_ipsec_build_sa L request (dp_ipsec_get_lookup_spi spec) s of
             (Inl e, s) \<Rightarrow> (Inl e, s)
           | (Inr (p, sa), s) \<Rightarrow>
               let key = dp_ipsec_build_key (dp_ipsec_get_lookup_spi spec) (sa_src sa) (sa_dst sa) in
               (case rte_ipsec_sad_add L T key p of
                 Inl e \<Rightarrow> (GRPC_FAIL DP_GRPC_ERR_SA_CREATE, dp_ipsec_free_sa p sa s)
               | Inr T' \<Rightarrow> (DP_OK, s\<lparr> ips_sad := Some T', ips_sas := (ips_sas s)[slot := Some p] \<rparr>))))"

definition dp_ipsec_update_sa ::
  "ipsec_conf \<Rightarrow> ipsec_lib \<Rightarrow> dp_ipsec_sa_spec \<Rightarrow> dp_ipsec_sa \<Rightarrow> ipsec_state
   \<Rightarrow> unit dp_result \<times> ipsec_state" where
  "dp_ipsec_update_sa conf L spec request s = (case ips_sad s of
       None \<Rightarrow> (GRPC_FAIL DP_GRPC_ERR_IPSEC_DISABLED, s)
     | Some T \<Rightarrow>
         if spec_dir spec \<noteq> DP_IPSEC_DIR_EGRESS then (GRPC_FAIL DP_GRPC_ERR_SA_DIRECTION, s)
         else if sa_algo request \<ge> DP_IPSEC_ALGO_MAX then (GRPC_FAIL DP_GRPC_ERR_SA_ALGO, s)
         else if \<not> dp_ipsec_is_local_side_valid conf request then (GRPC_FAIL DP_GRPC_ERR_SA_BAD_ADDR, s)
         else if \<not> dp_ipsec_is_replay_window_valid request then (GRPC_FAIL DP_GRPC_ERR_SA_REPLAY_WINDOW, s)
         else (case dp_ipsec_find_sa L s spec of
           None \<Rightarrow> (GRPC_FAIL DP_GRPC_ERR_SA_NOT_FOUND, s)
         | Some (old_p, old_sa) \<Rightarrow>
             let slot = dp_ipsec_get_slot s old_p in
             if slot = length (ips_sas s) then (GRPC_FAIL DP_GRPC_ERR_SA_NOT_FOUND, s)
             else (case dp_ipsec_build_sa L request (dp_ipsec_get_lookup_spi spec) s of
               (Inl e, s) \<Rightarrow> (Inl e, s)
             | (Inr (p, sa), s) \<Rightarrow>
                 let key = dp_ipsec_build_key (dp_ipsec_get_lookup_spi spec) (sa_src sa) (sa_dst sa) in
                 (case rte_ipsec_sad_add L T key p of
                   Inl e \<Rightarrow> (GRPC_FAIL DP_GRPC_ERR_SA_CREATE, dp_ipsec_free_sa p sa s)
                 | Inr T' \<Rightarrow>
                     let s = s\<lparr> ips_sad := Some T', ips_sas := (ips_sas s)[slot := Some p] \<rparr> in
                     (DP_OK, dp_ipsec_free_sa old_p old_sa s)))))"

definition dp_ipsec_delete_sa ::
  "ipsec_lib \<Rightarrow> dp_ipsec_sa_spec \<Rightarrow> ipsec_state \<Rightarrow> unit dp_result \<times> ipsec_state" where
  "dp_ipsec_delete_sa L spec s = (case ips_sad s of
       None \<Rightarrow> (GRPC_FAIL DP_GRPC_ERR_IPSEC_DISABLED, s)
     | Some T \<Rightarrow> (case dp_ipsec_find_sa L s spec of
         None \<Rightarrow> (GRPC_FAIL DP_GRPC_ERR_SA_NOT_FOUND, s)
       | Some (p, sa) \<Rightarrow>
           let key = dp_ipsec_build_key (dp_ipsec_get_lookup_spi spec) (spec_src spec) (spec_dst spec) in
           (case rte_ipsec_sad_del L T key of
             Inl e \<Rightarrow> (GRPC_FAIL DP_GRPC_ERR_SA_NOT_FOUND, s)
           | Inr T' \<Rightarrow>
               let s = s\<lparr> ips_sad := Some T' \<rparr>;
                   slot = dp_ipsec_get_slot s p;
                   s = (if slot < length (ips_sas s)
                        then s\<lparr> ips_sas := (ips_sas s)[slot := None] \<rparr> else s) in
               (DP_OK, dp_ipsec_free_sa p sa s))))"

definition dp_ipsec_get_sa ::
  "ipsec_lib \<Rightarrow> ipsec_state \<Rightarrow> dp_ipsec_sa_spec \<Rightarrow> dp_ipsec_sa dp_result" where
  "dp_ipsec_get_sa L s spec = (case ips_sad s of
       None \<Rightarrow> GRPC_FAIL DP_GRPC_ERR_IPSEC_DISABLED
     | Some T \<Rightarrow> (case dp_ipsec_find_sa L s spec of
         None \<Rightarrow> GRPC_FAIL DP_GRPC_ERR_SA_NOT_FOUND
       | Some (p, sa) \<Rightarrow> Inr sa))"

section \<open>The state the operations keep\<close>

text \<open>The association a request becomes, once its session and its librte_ipsec object are known.\<close>

definition built_sa :: "dp_ipsec_sa \<Rightarrow> ptr \<Rightarrow> ptr \<Rightarrow> dp_ipsec_sa" where
  "built_sa request x r = request\<lparr>
     sa_salt_len := salt_len (dp_ipsec_algos ! sa_algo request),
     sa_session := Some x, sa_ipsec_sa := Some r,
     sa_ipsec_session := \<lparr> ses_sa = Some r, ses_crypto = Some x \<rparr>,
     sa_src := mask_prefix (sa_src request), sa_dst := mask_prefix (sa_dst request) \<rparr>"

definition with_built :: "ptr \<Rightarrow> ptr \<Rightarrow> ptr \<Rightarrow> dp_ipsec_sa \<Rightarrow> ipsec_state \<Rightarrow> ipsec_state" where
  "with_built p x r request s = s\<lparr>
     ips_sessions := insert x (ips_sessions s),
     ips_rte_sas := insert r (ips_rte_sas s),
     ips_heap := (ips_heap s)(p \<mapsto> built_sa request x r) \<rparr>"

text \<open>The key an association is filed under.\<close>

definition sa_lookup_key :: "dp_ipsec_sa \<Rightarrow> sad_key" where
  "sa_lookup_key sa = dp_ipsec_build_key (dp_ipsec_get_lookup_spi (sa_spec sa)) (sa_src sa) (sa_dst sa)"

text \<open>What every association of the database satisfies.\<close>

definition sa_wf :: "ipsec_conf \<Rightarrow> dp_ipsec_sa \<Rightarrow> bool" where
  "sa_wf conf sa \<longleftrightarrow> sa_algo sa < DP_IPSEC_ALGO_MAX
     \<and> dp_ipsec_is_local_side_valid conf sa \<and> dp_ipsec_is_replay_window_valid sa
     \<and> sa_src sa = mask_prefix (sa_src sa) \<and> sa_dst sa = mask_prefix (sa_dst sa)
     \<and> sa_salt_len sa = salt_len (dp_ipsec_algos ! sa_algo sa)
     \<and> sa_session sa \<noteq> None \<and> sa_ipsec_sa sa \<noteq> None
     \<and> sa_ipsec_session sa = \<lparr> ses_sa = sa_ipsec_sa sa, ses_crypto = sa_session sa \<rparr>"

text \<open>Every allocation of a kind belongs to exactly one association, and nothing else is allocated.\<close>

definition owns :: "(dp_ipsec_sa \<Rightarrow> ptr option) \<Rightarrow> (ptr \<rightharpoonup> dp_ipsec_sa) \<Rightarrow> ptr set \<Rightarrow> bool" where
  "owns f H X \<longleftrightarrow> X = {x. \<exists>p sa. H p = Some sa \<and> f sa = Some x}
     \<and> (\<forall>p q sa sb x. H p = Some sa \<longrightarrow> H q = Some sb \<longrightarrow> f sa = Some x \<longrightarrow> f sb = Some x \<longrightarrow> p = q)"

text \<open>The database points at exactly the associations there are, each under its own key.\<close>

definition filed :: "(ptr \<rightharpoonup> dp_ipsec_sa) \<Rightarrow> sad \<Rightarrow> bool" where
  "filed H T \<longleftrightarrow> (\<forall>k p. T k = Some p \<longleftrightarrow> (\<exists>sa. H p = Some sa \<and> sa_lookup_key sa = k))"

definition ipsec_inv :: "ipsec_conf \<Rightarrow> ipsec_state \<Rightarrow> bool" where
  "ipsec_inv conf s \<longleftrightarrow>
     length (ips_sas s) = DP_IPSEC_MAX_SA \<and> slots_distinct (ips_sas s)
     \<and> dom (ips_heap s) = owned (ips_sas s)
     \<and> (\<forall>sa\<in>ran (ips_heap s). sa_wf conf sa)
     \<and> owns sa_session (ips_heap s) (ips_sessions s)
     \<and> owns sa_ipsec_sa (ips_heap s) (ips_rte_sas s)
     \<and> filed (ips_heap s) (case ips_sad s of None \<Rightarrow> Map.empty | Some T \<Rightarrow> T)"

definition ipsec_initial :: "ipsec_state \<Rightarrow> bool" where
  "ipsec_initial s \<longleftrightarrow> \<not> ips_active s \<and> ips_sad s = None \<and> ips_sas s = replicate DP_IPSEC_MAX_SA None
     \<and> ips_heap s = Map.empty \<and> ips_sessions s = {} \<and> ips_rte_sas s = {}"

text \<open>The part of the invariant that does not mention the database.\<close>

definition ipsec_own :: "ipsec_state \<Rightarrow> bool" where
  "ipsec_own s \<longleftrightarrow> slots_distinct (ips_sas s) \<and> dom (ips_heap s) = owned (ips_sas s)
     \<and> owns sa_session (ips_heap s) (ips_sessions s) \<and> owns sa_ipsec_sa (ips_heap s) (ips_rte_sas s)"

text \<open>What the lookups and the refinement speak about: the database as a map from
  keys to associations, without the library handles.\<close>

definition sa_public :: "dp_ipsec_sa \<Rightarrow> dp_ipsec_sa" where
  "sa_public sa = sa\<lparr> sa_session := None, sa_ipsec_sa := None,
     sa_ipsec_session := \<lparr> ses_sa = None, ses_crypto = None \<rparr> \<rparr>"

definition sa_stored :: "dp_ipsec_sa \<Rightarrow> dp_ipsec_sa" where
  "sa_stored request = sa_public (built_sa request 0 0)"

definition sa_view :: "ipsec_state \<Rightarrow> sad_key \<rightharpoonup> dp_ipsec_sa" where
  "sa_view s k = (case ips_sad s of None \<Rightarrow> None | Some T \<Rightarrow>
     (case T k of None \<Rightarrow> None | Some p \<Rightarrow> map_option sa_public (ips_heap s p)))"

definition spec_key :: "dp_ipsec_sa_spec \<Rightarrow> sad_key" where
  "spec_key spec = dp_ipsec_build_key (dp_ipsec_get_lookup_spi spec) (spec_src spec) (spec_dst spec)"

text \<open>A library with a bounded number of objects that keeps the contract.\<close>

definition ref_ipsec_lib :: "nat \<Rightarrow> ipsec_lib" where
  "ref_ipsec_lib n = \<lparr>
     rte_eal_hotplug_add = 0, rte_cryptodev_get_dev_id = 0, rte_cryptodev_configure = 0,
     rte_cryptodev_queue_pair_setup = 0, rte_cryptodev_sym_session_pool_create = True,
     rte_crypto_op_pool_create = True, rte_ipsec_sad_create = True, rte_cryptodev_start = 0,
     zmalloc_sa = (\<lambda>H. find (\<lambda>p. H p = None) [0..<n]),
     sym_session_create = (\<lambda>X xform. find (\<lambda>x. x \<notin> X) [0..<n]),
     rte_ipsec_sa_size = (\<lambda>prm. 256),
     zmalloc_rte_sa = (\<lambda>R sz. find (\<lambda>r. r \<notin> R) [0..<n]),
     rte_ipsec_sa_init = (\<lambda>r prm sz. 256), rte_ipsec_session_prepare = (\<lambda>ses. 0),
     rte_ipsec_sad_lookup = (\<lambda>T k. T k),
     rte_ipsec_sad_add = (\<lambda>T k p. Inr (T(k \<mapsto> p))),
     rte_ipsec_sad_del = (\<lambda>T k. if T k = None then Inl (- ENOENT) else Inr (T(k := None))) \<rparr>"

section \<open>The contract of the libraries\<close>

text \<open>Allocators return what is not in use; the database is an exact-match table
  for the rules the source adds, whose addition replaces an existing entry and
  leaves the table alone when it fails.\<close>

locale ipsec_library =
  fixes L :: ipsec_lib
  assumes zmalloc_sa_fresh: "zmalloc_sa L H = Some p \<Longrightarrow> H p = None"
    and session_fresh: "sym_session_create L X xf = Some x \<Longrightarrow> x \<notin> X"
    and zmalloc_rte_sa_fresh: "zmalloc_rte_sa L R sz = Some r \<Longrightarrow> r \<notin> R"
    and sad_lookup: "rte_ipsec_sad_lookup L T k = T k"
    and sad_add: "rte_ipsec_sad_add L T k p = Inr T' \<Longrightarrow> T' = T(k \<mapsto> p)"
    and sad_del: "rte_ipsec_sad_del L T k = (if T k = None then Inl (- ENOENT) else Inr (T(k := None)))"

interpretation ref: ipsec_library "ref_ipsec_lib n"
  by unfold_locales (auto simp: ref_ipsec_lib_def find_Some_iff split: if_splits)

section \<open>Lemmas\<close>

lemma with_built_simps [simp]:
  "ips_sas (with_built p x r request s) = ips_sas s"
  "ips_sad (with_built p x r request s) = ips_sad s"
  by (simp_all add: with_built_def)

context ipsec_library
begin

lemma create_ipsec_sa_fails:
  assumes "dp_ipsec_create_ipsec_sa L sa xform s = (Inl e, sa', s')" "sa_ipsec_sa sa = None"
  shows "dp_ipsec_free_sa p sa' s' = dp_ipsec_free_sa p sa s"
proof -
  have freed: "insert r X - {r} = X" if "r \<notin> X" for r :: ptr and X
    using that by auto
  from assms show ?thesis
    unfolding dp_ipsec_create_ipsec_sa_def Let_def
    by (auto simp: dp_ipsec_free_sa_def freed dest!: zmalloc_rte_sa_fresh
        split: if_splits option.splits)
qed

lemma create_ipsec_sa_succeeds:
  assumes "dp_ipsec_create_ipsec_sa L sa xform s = (Inr u, sa', s')"
  obtains r where "r \<notin> ips_rte_sas s"
    "sa' = sa\<lparr> sa_ipsec_sa := Some r,
               sa_ipsec_session := \<lparr> ses_sa = Some r, ses_crypto = sa_session sa \<rparr> \<rparr>"
    "s' = s\<lparr> ips_rte_sas := insert r (ips_rte_sas s) \<rparr>"
  using assms unfolding dp_ipsec_create_ipsec_sa_def Let_def
  by (auto dest!: zmalloc_rte_sa_fresh split: if_splits option.splits)

lemma build_sa_fails:
  assumes "dp_ipsec_build_sa L request spi s = (Inl e, s')"
  shows "s' = s \<and> e \<in> {GRPC_ERR DP_GRPC_ERR_OUT_OF_MEMORY, GRPC_ERR DP_GRPC_ERR_SA_CREATE}"
proof (cases "zmalloc_sa L (ips_heap s)")
  case None
  with assms show ?thesis by (simp add: dp_ipsec_build_sa_def)
next
  case (Some p)
  then have fresh: "(ips_heap s)(p := None) = ips_heap s"
    using zmalloc_sa_fresh [of "ips_heap s" p] by auto
  let ?sa = "request\<lparr> sa_salt_len := salt_len (dp_ipsec_algos ! sa_algo request),
                           sa_ipsec_sa := None, sa_session := None \<rparr>"
  let ?xf = "dp_ipsec_fill_xform ?sa"
  show ?thesis
  proof (cases "sym_session_create L (ips_sessions s) ?xf")
    case None
    with assms Some show ?thesis
      by (auto simp: dp_ipsec_build_sa_def Let_def store_sa_def dp_ipsec_free_sa_def fresh)
  next
    case (Some x)
    then have "insert x (ips_sessions s) - {x} = ips_sessions s"
      using session_fresh [of "ips_sessions s" ?xf x] by auto
    moreover obtain res sa s1 where c: "dp_ipsec_create_ipsec_sa L (?sa\<lparr> sa_session := Some x \<rparr>) ?xf
        ((store_sa p ?sa s)\<lparr> ips_sessions := insert x (ips_sessions s) \<rparr>) = (res, sa, s1)"
      by (metis prod_cases3)
    ultimately have "res = Inl e1 \<Longrightarrow> dp_ipsec_free_sa p sa s1 = s" for e1
      using create_ipsec_sa_fails [of "?sa\<lparr> sa_session := Some x \<rparr>" ?xf _ e1 sa s1 p]
      by (simp add: dp_ipsec_free_sa_def store_sa_def fresh)
    with assms c Some \<open>zmalloc_sa L (ips_heap s) = Some p\<close> show ?thesis
      by (cases res) (auto simp: dp_ipsec_build_sa_def Let_def store_sa_def)
  qed
qed

lemma build_sa_succeeds:
  assumes "dp_ipsec_build_sa L request spi s = (Inr q, s')"
  obtains p x r where "q = (p, built_sa request x r)"
      "ips_heap s p = None" "x \<notin> ips_sessions s" "r \<notin> ips_rte_sas s"
      "s' = with_built p x r request s"
proof -
  let ?sa = "request\<lparr> sa_salt_len := salt_len (dp_ipsec_algos ! sa_algo request),
                           sa_ipsec_sa := None, sa_session := None \<rparr>"
  let ?xf = "dp_ipsec_fill_xform ?sa"
  from assms obtain p where p: "zmalloc_sa L (ips_heap s) = Some p"
    by (auto simp: dp_ipsec_build_sa_def split: option.splits)
  from assms p obtain x where x: "sym_session_create L (ips_sessions s) ?xf = Some x"
    by (auto simp: dp_ipsec_build_sa_def Let_def store_sa_def split: option.splits)
  from assms p x obtain sa u s1 where sa:
    "dp_ipsec_create_ipsec_sa L (?sa\<lparr> sa_session := Some x \<rparr>) ?xf
      ((store_sa p ?sa s)\<lparr> ips_sessions := insert x (ips_sessions s) \<rparr>) = (Inr u, sa, s1)"
    and q: "q = (p, sa\<lparr> sa_src := mask_prefix (sa_src sa), sa_dst := mask_prefix (sa_dst sa) \<rparr>)"
    and s': "s' = store_sa p (snd q) s1"
    by (auto simp: dp_ipsec_build_sa_def Let_def store_sa_def dp_ipsec_build_key_def
        split: prod.splits sum.splits)
  from sa obtain r where "r \<notin> ips_rte_sas s"
    "sa = ?sa\<lparr> sa_session := Some x, sa_ipsec_sa := Some r,
               sa_ipsec_session := \<lparr> ses_sa = Some r, ses_crypto = Some x \<rparr> \<rparr>"
    "s1 = (store_sa p ?sa s)\<lparr> ips_sessions := insert x (ips_sessions s),
            ips_rte_sas := insert r (ips_rte_sas s) \<rparr>"
    by (rule create_ipsec_sa_succeeds) (simp add: store_sa_def)
  with q s' show thesis
    using zmalloc_sa_fresh [OF p] session_fresh [OF x]
    by (intro that [of p x r]) (simp_all add: built_sa_def store_sa_def with_built_def)
qed

end

lemma owns_add:
  assumes "owns f H X" "H p = None" "x \<notin> X" "f sa = Some x"
  shows "owns f (H(p \<mapsto> sa)) (insert x X)"
  unfolding owns_def
proof (intro conjI allI impI set_eqI)
  fix y
  show "y \<in> insert x X \<longleftrightarrow> y \<in> {x. \<exists>q sb. (H(p \<mapsto> sa)) q = Some sb \<and> f sb = Some x}"
    using assms unfolding owns_def by (auto split: if_splits) (metis option.distinct(1))
next
  fix q r sb sc y
  assume "(H(p \<mapsto> sa)) q = Some sb" "(H(p \<mapsto> sa)) r = Some sc" "f sb = Some y" "f sc = Some y"
  with assms show "q = r"
    unfolding owns_def by (cases "q = p"; cases "r = p") auto
qed

lemma owns_del:
  assumes "owns f H X" "H p = Some sa"
  shows "owns f (H(p := None)) (X - set_option (f sa))"
  unfolding owns_def
proof (intro conjI allI impI set_eqI)
  fix y
  show "y \<in> X - set_option (f sa) \<longleftrightarrow> y \<in> {x. \<exists>q sb. (H(p := None)) q = Some sb \<and> f sb = Some x}"
    using assms unfolding owns_def by (auto split: if_splits) (metis option.inject)
next
  fix q r sb sc y
  assume "(H(p := None)) q = Some sb" "(H(p := None)) r = Some sc" "f sb = Some y" "f sc = Some y"
  with assms show "q = r"
    unfolding owns_def by (auto split: if_splits)
qed

lemma filed_add:
  assumes "filed H T" "H p = None" "sa_lookup_key sa = k" "T k = None"
  shows "filed (H(p \<mapsto> sa)) (T(k \<mapsto> p))"
  using assms unfolding filed_def by (auto split: if_splits) (metis option.distinct(1))

lemma filed_del:
  assumes "filed H T" "H p = Some sa" "sa_lookup_key sa = k"
  shows "filed (H(p := None)) (T(k := None))"
  using assms unfolding filed_def by (auto split: if_splits) (metis option.inject)

lemma filedD: "filed H T \<Longrightarrow> T k = Some p \<Longrightarrow> \<exists>sa. H p = Some sa \<and> sa_lookup_key sa = k"
  by (simp add: filed_def)


lemma mask_prefix_idem [simp]: "mask_prefix (mask_prefix a) = mask_prefix a"
  by (simp add: mask_prefix_def)

lemma build_key_masked [simp]:
  "dp_ipsec_build_key i (mask_prefix a) b = dp_ipsec_build_key i a b"
  "dp_ipsec_build_key i a (mask_prefix b) = dp_ipsec_build_key i a b"
  by (simp_all add: dp_ipsec_build_key_def)

lemma build_key_eq_iff: "dp_ipsec_build_key i a b = dp_ipsec_build_key j c d \<longleftrightarrow>
    i = j \<and> ip6_prefix a = ip6_prefix c \<and> ip6_prefix b = ip6_prefix d"
  by (auto simp: dp_ipsec_build_key_def mask_prefix_def)

text \<open>Everything the identity, the validity and the filing of an association
  depend on is taken over from the request.\<close>

lemma built_sa_simps [simp]:
  "sa_spi (built_sa request x r) = sa_spi request"
  "sa_vni (built_sa request x r) = sa_vni request"
  "sa_dir (built_sa request x r) = sa_dir request"
  "sa_algo (built_sa request x r) = sa_algo request"
  "sa_src (built_sa request x r) = mask_prefix (sa_src request)"
  "sa_dst (built_sa request x r) = mask_prefix (sa_dst request)"
  "sa_session (built_sa request x r) = Some x"
  "sa_ipsec_sa (built_sa request x r) = Some r"
  "sa_replay_window (built_sa request x r) = sa_replay_window request"
  by (simp_all add: built_sa_def)

lemma built_sa_lookup_key [simp]: "sa_lookup_key (built_sa request x r) = sa_lookup_key request"
  by (simp add: sa_lookup_key_def sa_spec_def dp_ipsec_get_lookup_spi_def)

lemma built_sa_wf:
  assumes "sa_algo request < DP_IPSEC_ALGO_MAX" "dp_ipsec_is_local_side_valid conf request"
    "dp_ipsec_is_replay_window_valid request"
  shows "sa_wf conf (built_sa request x r)"
  using assms
  by (simp add: sa_wf_def dp_ipsec_is_local_side_valid_def dp_ipsec_is_replay_window_valid_def
      mask_prefix_def built_sa_def split: if_splits)

lemma free_built:
  assumes "ips_heap s p = None" "x \<notin> ips_sessions s" "r \<notin> ips_rte_sas s"
  shows "dp_ipsec_free_sa p (built_sa request x r) (with_built p x r request s) = s"
  using assms by (simp add: dp_ipsec_free_sa_def with_built_def fun_upd_idem)

context ipsec_library
begin

lemma lookup_one_eq: "dp_ipsec_lookup_one L s spec =
    (case ips_sad s of None \<Rightarrow> None | Some T \<Rightarrow>
      T (dp_ipsec_build_key (dp_ipsec_get_lookup_spi spec) (spec_src spec) (spec_dst spec)))"
  by (simp add: dp_ipsec_lookup_one_def dp_ipsec_lookup_sa_def sad_lookup split: option.splits)

lemma create_sa_fails:
  assumes "dp_ipsec_create_sa conf L request s = (Inl e, s')"
  shows "s' = s"
proof (cases "ips_sad s")
  case (Some T)
  obtain res s1 where b: "dp_ipsec_build_sa L request (dp_ipsec_get_lookup_spi (sa_spec request)) s = (res, s1)"
    by fastforce
  show ?thesis
  proof (cases res)
    case (Inl e1)
    with b have "s1 = s" using build_sa_fails by blast
    with assms Some Inl b show ?thesis
      by (auto simp: dp_ipsec_create_sa_def Let_def split: if_splits)
  next
    case (Inr q)
    obtain p x r where q: "q = (p, built_sa request x r)"
      "ips_heap s p = None" "x \<notin> ips_sessions s" "r \<notin> ips_rte_sas s"
      "s1 = with_built p x r request s"
      using b [unfolded Inr] by (rule build_sa_succeeds)
    with assms Some Inr b free_built [OF q(2-4)] show ?thesis
      by (auto simp: dp_ipsec_create_sa_def Let_def split: if_splits sum.splits)
  qed
qed (use assms in \<open>simp add: dp_ipsec_create_sa_def\<close>)

lemma create_sa_succeeds:
  assumes "dp_ipsec_create_sa conf L request s = (Inr u, s')"
  obtains T p x r slot where
    "ips_sad s = Some T" "T (sa_lookup_key request) = None"
    "sa_algo request < DP_IPSEC_ALGO_MAX" "dp_ipsec_is_local_side_valid conf request"
    "dp_ipsec_is_replay_window_valid request"
    "slot < length (ips_sas s)" "ips_sas s ! slot = None"
    "ips_heap s p = None" "x \<notin> ips_sessions s" "r \<notin> ips_rte_sas s"
    "s' = (with_built p x r request s)\<lparr> ips_sad := Some (T(sa_lookup_key request \<mapsto> p)),
            ips_sas := (ips_sas s)[slot := Some p] \<rparr>"
proof -
  from assms obtain T where T: "ips_sad s = Some T"
    by (auto simp: dp_ipsec_create_sa_def split: option.splits)
  let ?spec = "sa_spec request"
  let ?slot = "first_index (\<lambda>x. x = None) (ips_sas s)"
  have guards: "sa_algo request < DP_IPSEC_ALGO_MAX" "dp_ipsec_is_local_side_valid conf request"
    "dp_ipsec_is_replay_window_valid request" "dp_ipsec_lookup_one L s ?spec = None"
    "?slot \<noteq> length (ips_sas s)"
    using assms T by (auto simp: dp_ipsec_create_sa_def Let_def split: if_splits)
  then have slot: "?slot < length (ips_sas s)"
    using first_index_le [of "\<lambda>x. x = None" "ips_sas s"] by simp
  obtain q s1 where b: "dp_ipsec_build_sa L request (dp_ipsec_get_lookup_spi ?spec) s = (Inr q, s1)"
    using assms T guards by (auto simp: dp_ipsec_create_sa_def Let_def split: prod.splits sum.splits)
  obtain p x r where q: "q = (p, built_sa request x r)"
      "ips_heap s p = None" "x \<notin> ips_sessions s" "r \<notin> ips_rte_sas s"
      "s1 = with_built p x r request s"
    using b by (rule build_sa_succeeds)
  have "T (sa_lookup_key request) = None"
    using guards T by (simp add: lookup_one_eq sa_lookup_key_def sa_spec_def)
  moreover have "dp_ipsec_build_key (dp_ipsec_get_lookup_spi ?spec) (sa_src (built_sa request x r))
      (sa_dst (built_sa request x r)) = sa_lookup_key request"
    by (simp add: sa_lookup_key_def)
  moreover have "ips_sas s ! ?slot = None" using first_index_nth [OF slot] by simp
  moreover have "s' = s1\<lparr> ips_sad := Some (T(sa_lookup_key request \<mapsto> p)),
      ips_sas := (ips_sas s)[?slot := Some p] \<rparr>"
    using assms T guards b q(1,5) calculation(2)
    by (auto simp: dp_ipsec_create_sa_def Let_def dest!: sad_add split: sum.splits)
  ultimately show thesis
    using T guards slot q by (intro that [of T ?slot p x r]) auto
qed

lemma update_sa_fails:
  assumes "dp_ipsec_update_sa conf L spec request s = (Inl e, s')"
  shows "s' = s"
proof (cases "ips_sad s")
  case (Some T)
  obtain res s1 where b: "dp_ipsec_build_sa L request (dp_ipsec_get_lookup_spi spec) s = (res, s1)"
    by fastforce
  show ?thesis
  proof (cases res)
    case (Inl e1)
    with b have "s1 = s" using build_sa_fails by blast
    with assms Some Inl b show ?thesis
      by (auto simp: dp_ipsec_update_sa_def Let_def split: if_splits option.splits)
  next
    case (Inr q)
    obtain p x r where q: "q = (p, built_sa request x r)"
      "ips_heap s p = None" "x \<notin> ips_sessions s" "r \<notin> ips_rte_sas s"
      "s1 = with_built p x r request s"
      using b [unfolded Inr] by (rule build_sa_succeeds)
    with assms Some Inr b free_built [OF q(2-4)] show ?thesis
      by (auto simp: dp_ipsec_update_sa_def Let_def split: if_splits sum.splits option.splits)
  qed
qed (use assms in \<open>simp add: dp_ipsec_update_sa_def\<close>)

lemma find_sa_Some:
  "dp_ipsec_find_sa L s spec = Some (p, sa) \<longleftrightarrow>
    (\<exists>T. ips_sad s = Some T \<and>
      T (dp_ipsec_build_key (dp_ipsec_get_lookup_spi spec) (spec_src spec) (spec_dst spec)) = Some p) \<and>
    ips_heap s p = Some sa \<and> sa_dir sa = spec_dir spec \<and> sa_vni sa = spec_vni spec
    \<and> sa_spi sa = spec_spi spec"
  by (auto simp: dp_ipsec_find_sa_def lookup_one_eq split: option.splits if_splits)


lemma update_sa_succeeds:
  assumes "dp_ipsec_update_sa conf L spec request s = (Inr u, s')"
  obtains T old old_sa p x r slot k where
    "k = dp_ipsec_build_key (spec_vni spec) (sa_src request) (sa_dst request)"
    "ips_sad s = Some T" "spec_dir spec = DP_IPSEC_DIR_EGRESS"
    "dp_ipsec_find_sa L s spec = Some (old, old_sa)"
    "sa_algo request < DP_IPSEC_ALGO_MAX" "dp_ipsec_is_local_side_valid conf request"
    "dp_ipsec_is_replay_window_valid request"
    "slot < length (ips_sas s)" "ips_sas s ! slot = Some old"
    "ips_heap s p = None" "x \<notin> ips_sessions s" "r \<notin> ips_rte_sas s"
    "s' = dp_ipsec_free_sa old old_sa ((with_built p x r request s)\<lparr>
            ips_sad := Some (T(k \<mapsto> p)), ips_sas := (ips_sas s)[slot := Some p] \<rparr>)"
proof -
  from assms obtain T where T: "ips_sad s = Some T"
    by (auto simp: dp_ipsec_update_sa_def split: option.splits)
  from assms T obtain old old_sa where old: "dp_ipsec_find_sa L s spec = Some (old, old_sa)"
    by (auto simp: dp_ipsec_update_sa_def split: if_splits option.splits)
  let ?slot = "dp_ipsec_get_slot s old"
  have guards: "spec_dir spec = DP_IPSEC_DIR_EGRESS" "sa_algo request < DP_IPSEC_ALGO_MAX"
    "dp_ipsec_is_local_side_valid conf request" "dp_ipsec_is_replay_window_valid request"
    "?slot \<noteq> length (ips_sas s)"
    using assms T old by (auto simp: dp_ipsec_update_sa_def Let_def split: if_splits)
  then have slot: "?slot < length (ips_sas s)" and held: "ips_sas s ! ?slot = Some old"
    using first_index_le [of "\<lambda>x. x = Some old" "ips_sas s"]
      first_index_nth [of "\<lambda>x. x = Some old" "ips_sas s"]
    by (auto simp: dp_ipsec_get_slot_def)
  obtain q s1 where b: "dp_ipsec_build_sa L request (dp_ipsec_get_lookup_spi spec) s = (Inr q, s1)"
    using assms T old guards
    by (auto simp: dp_ipsec_update_sa_def Let_def split: prod.splits sum.splits)
  obtain p x r where q: "q = (p, built_sa request x r)"
      "ips_heap s p = None" "x \<notin> ips_sessions s" "r \<notin> ips_rte_sas s"
      "s1 = with_built p x r request s"
    using b by (rule build_sa_succeeds)
  let ?k = "dp_ipsec_build_key (spec_vni spec) (sa_src request) (sa_dst request)"
  have "dp_ipsec_build_key (dp_ipsec_get_lookup_spi spec) (sa_src (built_sa request x r))
      (sa_dst (built_sa request x r)) = ?k"
    using guards by (simp add: dp_ipsec_get_lookup_spi_def)
  then have "s' = dp_ipsec_free_sa old old_sa (s1\<lparr> ips_sad := Some (T(?k \<mapsto> p)),
      ips_sas := (ips_sas s)[?slot := Some p] \<rparr>)"
    using assms T old guards b q(1,5)
    by (auto simp: dp_ipsec_update_sa_def Let_def dest!: sad_add split: sum.splits)
  then show thesis
    using T guards slot held old q by (intro that [of ?k T old old_sa ?slot p x r]) auto
qed

lemma delete_sa_fails:
  assumes "dp_ipsec_delete_sa L spec s = (Inl e, s')"
  shows "s' = s"
  using assms by (auto simp: dp_ipsec_delete_sa_def Let_def split: option.splits sum.splits)

lemma delete_sa_succeeds:
  assumes "dp_ipsec_delete_sa L spec s = (Inr u, s')"
  obtains T p sa slot k where
    "k = dp_ipsec_build_key (dp_ipsec_get_lookup_spi spec) (spec_src spec) (spec_dst spec)"
    "ips_sad s = Some T" "dp_ipsec_find_sa L s spec = Some (p, sa)" "slot = dp_ipsec_get_slot s p"
    "s' = dp_ipsec_free_sa p sa (s\<lparr> ips_sad := Some (T(k := None)),
            ips_sas := (ips_sas s)[slot := None] \<rparr>)"
proof -
  from assms obtain T where T: "ips_sad s = Some T"
    by (auto simp: dp_ipsec_delete_sa_def split: option.splits)
  from assms T obtain p sa where f: "dp_ipsec_find_sa L s spec = Some (p, sa)"
    by (auto simp: dp_ipsec_delete_sa_def split: option.splits)
  show thesis
  proof (rule that)
    show "s' = dp_ipsec_free_sa p sa (s\<lparr> ips_sad := Some (T(dp_ipsec_build_key
        (dp_ipsec_get_lookup_spi spec) (spec_src spec) (spec_dst spec) := None)),
        ips_sas := (ips_sas s)[dp_ipsec_get_slot s p := None] \<rparr>)"
      using assms T f
      by (auto simp: dp_ipsec_delete_sa_def Let_def sad_del dp_ipsec_get_slot_def
          list_update_beyond split: if_splits)
  qed (use T f in auto)
qed

end

lemma filed_replace:
  assumes "filed H T" "T k = Some q" "H q = Some sb" "H p = None" "sa_lookup_key sa = k"
  shows "filed (H(p \<mapsto> sa, q := None)) (T(k \<mapsto> p))"
proof -
  have "filed (H(q := None)) (T(k := None))"
    using assms filed_del [of H T q sb k] by (auto simp: filed_def)
  then have "filed (H(q := None, p \<mapsto> sa)) (T(k := None, k \<mapsto> p))"
    using assms by (intro filed_add) auto
  moreover have "H(q := None, p \<mapsto> sa) = H(p \<mapsto> sa, q := None)"
    using assms by (intro fun_upd_twist) auto
  ultimately show ?thesis by simp
qed

lemma owns_replace:
  assumes "owns f H X" "H q = Some sb" "H p = None" "x \<notin> X" "f sa = Some x"
  shows "owns f (H(p \<mapsto> sa, q := None)) (insert x X - set_option (f sb))"
proof -
  have "q \<noteq> p" using assms by auto
  then have "(H(p \<mapsto> sa)) q = Some sb" using assms by simp
  then show ?thesis by (rule owns_del [OF owns_add [OF assms(1,3-5)]])
qed

context ipsec_library
begin

lemma create_sa_inv:
  assumes inv: "ipsec_inv conf s" and c: "dp_ipsec_create_sa conf L request s = (res, s')"
  shows "ipsec_inv conf s'"
proof (cases res)
  case (Inl e)
  with c inv show ?thesis using create_sa_fails by blast
next
  case (Inr u)
  from c [unfolded Inr] show ?thesis
  proof (rule create_sa_succeeds)
    fix T p x r slot
    assume *: "ips_sad s = Some T" "T (sa_lookup_key request) = None"
      "sa_algo request < DP_IPSEC_ALGO_MAX" "dp_ipsec_is_local_side_valid conf request"
      "dp_ipsec_is_replay_window_valid request"
      "slot < length (ips_sas s)" "ips_sas s ! slot = None"
      "ips_heap s p = None" "x \<notin> ips_sessions s" "r \<notin> ips_rte_sas s"
      "s' = (with_built p x r request s)\<lparr> ips_sad := Some (T(sa_lookup_key request \<mapsto> p)),
            ips_sas := (ips_sas s)[slot := Some p] \<rparr>"
    moreover have "p \<notin> owned (ips_sas s)" using inv *(8) by (auto simp: ipsec_inv_def)
    ultimately show ?thesis
      using inv built_sa_wf [OF *(3-5)]
      by (auto simp: ipsec_inv_def with_built_def owned_set ran_map_upd
          intro!: slots_distinct_set owns_add filed_add)
  qed
qed

lemma update_sa_inv:
  assumes inv: "ipsec_inv conf s" and c: "dp_ipsec_update_sa conf L spec request s = (res, s')"
    and same: "sa_dir request = spec_dir spec" "sa_vni request = spec_vni spec"
      "ip6_prefix (sa_src request) = ip6_prefix (spec_src spec)"
      "ip6_prefix (sa_dst request) = ip6_prefix (spec_dst spec)"
  shows "ipsec_inv conf s'"
proof (cases res)
  case (Inl e)
  with c inv show ?thesis using update_sa_fails by blast
next
  case (Inr u)
  from c [unfolded Inr] show ?thesis
  proof (rule update_sa_succeeds)
    fix T old old_sa p x r slot k
    assume *: "k = dp_ipsec_build_key (spec_vni spec) (sa_src request) (sa_dst request)"
      "ips_sad s = Some T" "spec_dir spec = DP_IPSEC_DIR_EGRESS"
      "dp_ipsec_find_sa L s spec = Some (old, old_sa)"
      "sa_algo request < DP_IPSEC_ALGO_MAX" "dp_ipsec_is_local_side_valid conf request"
      "dp_ipsec_is_replay_window_valid request"
      "slot < length (ips_sas s)" "ips_sas s ! slot = Some old"
      "ips_heap s p = None" "x \<notin> ips_sessions s" "r \<notin> ips_rte_sas s"
      "s' = dp_ipsec_free_sa old old_sa ((with_built p x r request s)\<lparr>
            ips_sad := Some (T(k \<mapsto> p)), ips_sas := (ips_sas s)[slot := Some p] \<rparr>)"
    have k: "k = sa_lookup_key request"
      using *(1,3) same by (simp add: sa_lookup_key_def sa_spec_def dp_ipsec_get_lookup_spi_def)
    have old: "T k = Some old" "ips_heap s old = Some old_sa"
      using *(1-4) same
      by (auto simp: find_sa_Some dp_ipsec_get_lookup_spi_def build_key_eq_iff
          dp_ipsec_build_key_def mask_prefix_def)
    have p: "p \<notin> owned (ips_sas s)" "p \<noteq> old" using inv *(10) old by (auto simp: ipsec_inv_def)
    have dom: "dom (ips_heap s') = insert p (owned (ips_sas s) - {old})"
      using inv p unfolding *(13)
      by (auto simp: ipsec_inv_def dp_ipsec_free_sa_def with_built_def)
    have ran: "ran (ips_heap s') \<subseteq> insert (built_sa request x r) (ran (ips_heap s))"
      unfolding *(13) by (auto simp: dp_ipsec_free_sa_def with_built_def ran_def split: if_splits)
    have "filed (ips_heap s') (T(k \<mapsto> p))"
      using inv *(2,10) old k unfolding *(13)
      by (auto simp: ipsec_inv_def dp_ipsec_free_sa_def with_built_def intro!: filed_replace)
    moreover have "owns sa_session (ips_heap s') (ips_sessions s')"
      "owns sa_ipsec_sa (ips_heap s') (ips_rte_sas s')"
      using inv *(10-12) old unfolding *(13)
      by (auto simp: ipsec_inv_def dp_ipsec_free_sa_def with_built_def intro!: owns_replace)
    moreover have "ips_sas s' = (ips_sas s)[slot := Some p]" "ips_sad s' = Some (T(k \<mapsto> p))"
      unfolding *(13) by (simp_all add: dp_ipsec_free_sa_def)
    ultimately show ?thesis
      using inv dom ran p *(8,9) built_sa_wf [OF *(5-7)]
      by (auto simp: ipsec_inv_def owned_replace intro!: slots_distinct_set)
  qed
qed

lemma delete_sa_inv:
  assumes inv: "ipsec_inv conf s" and c: "dp_ipsec_delete_sa L spec s = (res, s')"
  shows "ipsec_inv conf s'"
proof (cases res)
  case (Inl e)
  with c inv show ?thesis using delete_sa_fails by blast
next
  case (Inr u)
  from c [unfolded Inr] show ?thesis
  proof (rule delete_sa_succeeds)
    fix T p sa slot k
    assume *: "k = dp_ipsec_build_key (dp_ipsec_get_lookup_spi spec) (spec_src spec) (spec_dst spec)"
      "ips_sad s = Some T" "dp_ipsec_find_sa L s spec = Some (p, sa)" "slot = dp_ipsec_get_slot s p"
      "s' = dp_ipsec_free_sa p sa (s\<lparr> ips_sad := Some (T(k := None)),
            ips_sas := (ips_sas s)[slot := None] \<rparr>)"
    have p: "T k = Some p" "ips_heap s p = Some sa"
      using *(1-3) by (auto simp: find_sa_Some)
    then have key: "sa_lookup_key sa = k"
      using inv *(2) by (auto simp: ipsec_inv_def filed_def)
    have "p \<in> owned (ips_sas s)" using inv p by (auto simp: ipsec_inv_def)
    then have slot: "slot < length (ips_sas s)" "ips_sas s ! slot = Some p"
      using first_index_less_iff [of "\<lambda>x. x = Some p" "ips_sas s"]
        first_index_nth [of "\<lambda>x. x = Some p" "ips_sas s"]
      by (auto simp: *(4) dp_ipsec_get_slot_def owned_def)
    have ran: "ran (ips_heap s') \<subseteq> ran (ips_heap s)"
      unfolding *(5) by (auto simp: dp_ipsec_free_sa_def ran_def split: if_splits)
    have "filed (ips_heap s') (T(k := None))"
      using inv *(2) p key unfolding *(5)
      by (auto simp: ipsec_inv_def dp_ipsec_free_sa_def intro!: filed_del)
    moreover have "owns sa_session (ips_heap s') (ips_sessions s')"
      "owns sa_ipsec_sa (ips_heap s') (ips_rte_sas s')"
      using inv p unfolding *(5)
      by (auto simp: ipsec_inv_def dp_ipsec_free_sa_def intro!: owns_del)
    moreover have "dom (ips_heap s') = owned (ips_sas s) - {p}"
      "ips_sas s' = (ips_sas s)[slot := None]" "ips_sad s' = Some (T(k := None))"
      using inv unfolding *(5) by (auto simp: dp_ipsec_free_sa_def ipsec_inv_def)
    ultimately show ?thesis
      using inv ran slot
      by (auto simp: ipsec_inv_def owned_clear intro!: slots_distinct_clear)
  qed
qed

end

lemma ipsec_initial_inv: "ipsec_initial s \<Longrightarrow> ipsec_inv conf s"
  by (auto simp: ipsec_initial_def ipsec_inv_def slots_distinct_def owned_def owns_def filed_def)

lemma free_slot_own:
  assumes "ipsec_own s" "i < length (ips_sas s)"
  shows "ipsec_own (free_slot i s)" "ips_sas (free_slot i s) = (ips_sas s)[i := None]"
    "ips_sad (free_slot i s) = ips_sad s"
proof -
  consider "ips_sas s ! i = None" | p sa where "ips_sas s ! i = Some p" "ips_heap s p = Some sa"
  proof (cases "ips_sas s ! i")
    case (Some p)
    then have "p \<in> dom (ips_heap s)" using assms owned_nth by (auto simp: ipsec_own_def)
    with Some that show thesis by auto
  qed (use that in auto)
  then have "ipsec_own (free_slot i s) \<and> ips_sas (free_slot i s) = (ips_sas s)[i := None]
    \<and> ips_sad (free_slot i s) = ips_sad s"
  proof cases
    case 1
    then show ?thesis using assms list_update_id [of "ips_sas s" i] by (simp add: free_slot_def)
  next
    case 2
    then show ?thesis using assms
      by (auto simp: free_slot_def dp_ipsec_free_sa_def ipsec_own_def owned_clear
          intro!: slots_distinct_clear owns_del)
  qed
  then show "ipsec_own (free_slot i s)" "ips_sas (free_slot i s) = (ips_sas s)[i := None]"
    "ips_sad (free_slot i s) = ips_sad s"
    by auto
qed

lemma free_slots_own:
  assumes "ipsec_own s" "n \<le> length (ips_sas s)"
  shows "ipsec_own (fold free_slot [0..<n] s)
    \<and> ips_sas (fold free_slot [0..<n] s) = replicate n None @ drop n (ips_sas s)"
  using assms(2)
proof (induction n)
  case (Suc n)
  let ?s = "fold free_slot [0..<n] s"
  from Suc have IH: "ipsec_own ?s" "ips_sas ?s = replicate n None @ drop n (ips_sas s)"
    by auto
  with Suc.prems have "n < length (ips_sas ?s)" by simp
  note step = free_slot_own [OF IH(1) this]
  have "(replicate n None @ drop n (ips_sas s))[n := None] =
      replicate (Suc n) None @ drop (Suc n) (ips_sas s)"
    using Suc.prems by (simp add: list_update_append Cons_nth_drop_Suc [symmetric] replicate_append_same [symmetric])
  then show ?case using step IH by simp
qed (use assms in simp)

lemma ipsec_free_clears:
  assumes "ipsec_inv conf s"
  shows "ips_heap (dp_ipsec_free s) = Map.empty \<and> ips_sessions (dp_ipsec_free s) = {}
    \<and> ips_rte_sas (dp_ipsec_free s) = {} \<and> ips_sas (dp_ipsec_free s) = replicate DP_IPSEC_MAX_SA None
    \<and> ips_sad (dp_ipsec_free s) = None \<and> \<not> ips_active (dp_ipsec_free s)"
proof -
  let ?s = "s\<lparr> ips_active := False \<rparr>"
  let ?t = "fold free_slot [0..<length (ips_sas ?s)] ?s"
  have act: "ips_active (fold free_slot is u) = ips_active u" for "is" u
    by (induction "is" arbitrary: u)
      (auto simp: free_slot_def dp_ipsec_free_sa_def split: option.splits)
  have "ipsec_own ?s" using assms by (auto simp: ipsec_inv_def ipsec_own_def)
  then have "ipsec_own ?t \<and> ips_sas ?t = replicate (length (ips_sas ?s)) None"
    using free_slots_own [of ?s "length (ips_sas ?s)"] by simp
  then have "owned (ips_sas ?t) = {}" "ipsec_own ?t"
    by (simp_all add: owned_def)
  then have "ips_heap ?t = Map.empty" by (simp add: ipsec_own_def)
  with \<open>ipsec_own ?t\<close> have "ips_sessions ?t = {}" "ips_rte_sas ?t = {}"
    by (simp_all add: ipsec_own_def owns_def)
  with \<open>ips_heap ?t = Map.empty\<close> \<open>ipsec_own ?t \<and> _\<close> show ?thesis
    using assms act [of _ ?s] by (simp add: dp_ipsec_free_def Let_def ipsec_inv_def)
qed

lemma ipsec_free_inv: "ipsec_inv conf s \<Longrightarrow> ipsec_inv conf (dp_ipsec_free s)"
  using ipsec_free_clears [of conf s]
  by (intro ipsec_initial_inv) (simp add: ipsec_initial_def)

lemma ipsec_init_inv:
  assumes "ipsec_initial s" "dp_ipsec_init conf L s = (res, s')"
  shows "ipsec_inv conf s'"
proof -
  have "ipsec_inv conf s" using assms(1) by (rule ipsec_initial_inv)
  moreover have "ips_sas s' = ips_sas s \<and> ips_heap s' = ips_heap s \<and> ips_sessions s' = ips_sessions s
    \<and> ips_rte_sas s' = ips_rte_sas s \<and> (ips_sad s' = ips_sad s \<or> ips_sad s' = Some Map.empty \<or> ips_sad s' = None)"
    using assms(2)
    by (auto simp: dp_ipsec_init_def dp_ipsec_create_pools_def
        dp_ipsec_create_sad_def Let_def split: if_splits sum.splits)
  moreover have "ips_sad s = None" using assms(1) by (auto simp: ipsec_initial_def)
  ultimately show ?thesis by (auto simp: ipsec_inv_def)
qed

lemma sa_public_built [simp]: "sa_public (built_sa request x r) = sa_stored request"
  by (simp add: sa_stored_def sa_public_def built_sa_def)

lemma filed_inj: "filed H T \<Longrightarrow> T k = Some p \<Longrightarrow> T k' = Some p \<Longrightarrow> k = k'"
  by (auto simp: filed_def)

lemma view_add:
  assumes "filed H T" "H p = None"
  shows "sa_view (s\<lparr> ips_heap := H(p \<mapsto> sa), ips_sad := Some (T(k \<mapsto> p)) \<rparr>) =
    (sa_view (s\<lparr> ips_heap := H, ips_sad := Some T \<rparr>))(k \<mapsto> sa_public sa)"
proof (rule ext)
  fix k'
  show "sa_view (s\<lparr> ips_heap := H(p \<mapsto> sa), ips_sad := Some (T(k \<mapsto> p)) \<rparr>) k' =
    ((sa_view (s\<lparr> ips_heap := H, ips_sad := Some T \<rparr>))(k \<mapsto> sa_public sa)) k'"
    using assms filedD [OF assms(1), of k' p]
    by (cases "T k'") (auto simp: sa_view_def split: option.splits)
qed

lemma view_del:
  assumes "filed H T" "T k = Some p"
  shows "sa_view (s\<lparr> ips_heap := H(p := None), ips_sad := Some (T(k := None)) \<rparr>) =
    (sa_view (s\<lparr> ips_heap := H, ips_sad := Some T \<rparr>))(k := None)"
proof (rule ext)
  fix k'
  show "sa_view (s\<lparr> ips_heap := H(p := None), ips_sad := Some (T(k := None)) \<rparr>) k' =
    ((sa_view (s\<lparr> ips_heap := H, ips_sad := Some T \<rparr>))(k := None)) k'"
    using assms filed_inj [OF assms, of k']
    by (cases "T k'") (auto simp: sa_view_def split: option.splits)
qed

lemma view_replace:
  assumes "filed H T" "T k = Some q" "H p = None"
  shows "sa_view (s\<lparr> ips_heap := H(p \<mapsto> sa, q := None), ips_sad := Some (T(k \<mapsto> p)) \<rparr>) =
    (sa_view (s\<lparr> ips_heap := H, ips_sad := Some T \<rparr>))(k \<mapsto> sa_public sa)"
proof (rule ext)
  fix k'
  have "p \<noteq> q" using assms by (auto simp: filed_def)
  then show "sa_view (s\<lparr> ips_heap := H(p \<mapsto> sa, q := None), ips_sad := Some (T(k \<mapsto> p)) \<rparr>) k' =
    ((sa_view (s\<lparr> ips_heap := H, ips_sad := Some T \<rparr>))(k \<mapsto> sa_public sa)) k'"
    using assms filed_inj [OF assms(1,2), of k'] filedD [OF assms(1), of k' p]
    by (cases "T k'") (auto simp: sa_view_def split: option.splits)
qed

lemma sa_view_cong: "ips_heap s = ips_heap t \<Longrightarrow> ips_sad s = ips_sad t \<Longrightarrow> sa_view s = sa_view t"
  by (rule ext) (simp add: sa_view_def split: option.split)

lemma sa_view_state: "sa_view (s\<lparr> ips_heap := ips_heap s, ips_sad := ips_sad s \<rparr>) = sa_view s"
  by (rule sa_view_cong) simp_all

context ipsec_library
begin

lemma create_sa_view:
  assumes inv: "ipsec_inv conf s" and c: "dp_ipsec_create_sa conf L request s = (Inr u, s')"
  shows "sa_view s (sa_lookup_key request) = None
    \<and> sa_view s' = (sa_view s)(sa_lookup_key request \<mapsto> sa_stored request)"
  using c
proof (rule create_sa_succeeds)
  fix T p x r slot
  assume *: "ips_sad s = Some T" "T (sa_lookup_key request) = None" "ips_heap s p = None"
    "s' = (with_built p x r request s)\<lparr> ips_sad := Some (T(sa_lookup_key request \<mapsto> p)),
          ips_sas := (ips_sas s)[slot := Some p] \<rparr>"
  have "sa_view s' = sa_view (s\<lparr> ips_heap := (ips_heap s)(p \<mapsto> built_sa request x r),
      ips_sad := Some (T(sa_lookup_key request \<mapsto> p)) \<rparr>)"
    unfolding *(4) by (rule sa_view_cong) (simp_all add: with_built_def)
  also have "\<dots> = (sa_view s)(sa_lookup_key request \<mapsto> sa_stored request)"
    using inv * sa_view_state [of s] by (subst view_add) (auto simp: ipsec_inv_def)
  finally show ?thesis using * by (simp add: sa_view_def)
qed

lemma update_sa_view:
  assumes inv: "ipsec_inv conf s" and c: "dp_ipsec_update_sa conf L spec request s = (Inr u, s')"
    and same: "ip6_prefix (sa_src request) = ip6_prefix (spec_src spec)"
      "ip6_prefix (sa_dst request) = ip6_prefix (spec_dst spec)"
  shows "(\<exists>old. sa_view s (spec_key spec) = Some old \<and> sa_dir old = spec_dir spec
      \<and> sa_vni old = spec_vni spec \<and> sa_spi old = spec_spi spec)
    \<and> sa_view s' = (sa_view s)(spec_key spec \<mapsto> sa_stored request)"
  using c
proof (rule update_sa_succeeds)
  fix T old old_sa p x r slot k
  assume *: "k = dp_ipsec_build_key (spec_vni spec) (sa_src request) (sa_dst request)"
    "ips_sad s = Some T" "spec_dir spec = DP_IPSEC_DIR_EGRESS"
    "dp_ipsec_find_sa L s spec = Some (old, old_sa)" "ips_heap s p = None"
    "s' = dp_ipsec_free_sa old old_sa ((with_built p x r request s)\<lparr>
          ips_sad := Some (T(k \<mapsto> p)), ips_sas := (ips_sas s)[slot := Some p] \<rparr>)"
  have k: "k = spec_key spec"
    using *(1,3) same by (simp add: spec_key_def dp_ipsec_get_lookup_spi_def build_key_eq_iff)
  have old: "T k = Some old" "ips_heap s old = Some old_sa" "sa_dir old_sa = spec_dir spec"
    "sa_vni old_sa = spec_vni spec" "sa_spi old_sa = spec_spi spec"
    using *(2,4) k by (auto simp: find_sa_Some spec_key_def)
  have "sa_view s' = sa_view (s\<lparr> ips_heap := (ips_heap s)(p \<mapsto> built_sa request x r, old := None),
      ips_sad := Some (T(k \<mapsto> p)) \<rparr>)"
    unfolding *(6) by (rule sa_view_cong) (simp_all add: with_built_def dp_ipsec_free_sa_def)
  also have "\<dots> = (sa_view s)(k \<mapsto> sa_stored request)"
    using inv * old sa_view_state [of s] by (subst view_replace) (auto simp: ipsec_inv_def)
  finally show ?thesis using * k old by (simp add: sa_view_def sa_public_def)
qed

lemma delete_sa_view:
  assumes inv: "ipsec_inv conf s" and c: "dp_ipsec_delete_sa L spec s = (Inr u, s')"
  shows "(\<exists>old. sa_view s (spec_key spec) = Some old \<and> sa_dir old = spec_dir spec
      \<and> sa_vni old = spec_vni spec \<and> sa_spi old = spec_spi spec)
    \<and> sa_view s' = (sa_view s)(spec_key spec := None)"
  using c
proof (rule delete_sa_succeeds)
  fix T p sa slot k
  assume *: "k = dp_ipsec_build_key (dp_ipsec_get_lookup_spi spec) (spec_src spec) (spec_dst spec)"
    "ips_sad s = Some T" "dp_ipsec_find_sa L s spec = Some (p, sa)"
    "s' = dp_ipsec_free_sa p sa (s\<lparr> ips_sad := Some (T(k := None)),
          ips_sas := (ips_sas s)[slot := None] \<rparr>)"
  have k: "k = spec_key spec" using *(1) by (simp add: spec_key_def)
  have p: "T k = Some p" "ips_heap s p = Some sa" "sa_dir sa = spec_dir spec"
    "sa_vni sa = spec_vni spec" "sa_spi sa = spec_spi spec"
    using *(1-3) by (auto simp: find_sa_Some)
  have "sa_view s' = sa_view (s\<lparr> ips_heap := (ips_heap s)(p := None), ips_sad := Some (T(k := None)) \<rparr>)"
    unfolding *(4) by (rule sa_view_cong) (simp_all add: dp_ipsec_free_sa_def)
  also have "\<dots> = (sa_view s)(k := None)"
    using inv * p sa_view_state [of s] by (subst view_del) (auto simp: ipsec_inv_def)
  finally show ?thesis using * k p by (simp add: sa_view_def sa_public_def)
qed

lemma get_sa_view:
  assumes "ipsec_inv conf s"
  shows "(\<exists>sa. dp_ipsec_get_sa L s spec = Inr sa \<and> sa_public sa = v) \<longleftrightarrow>
    sa_view s (spec_key spec) = Some v \<and> sa_dir v = spec_dir spec \<and> sa_vni v = spec_vni spec
    \<and> sa_spi v = spec_spi spec"
  by (auto simp: dp_ipsec_get_sa_def dp_ipsec_find_sa_def lookup_one_eq sa_view_def spec_key_def
      sa_public_def split: option.splits)

end

sublocale ipsec_library \<subseteq> sadv: keyed_store "ipsec_inv conf" sa_view "dp_ipsec_create_sa conf L"
  "dp_ipsec_delete_sa L" sa_lookup_key sa_stored spec_key for conf
proof
  show "ipsec_inv conf s' \<and> sa_view s (sa_lookup_key request) = None
    \<and> sa_view s' = (sa_view s)(sa_lookup_key request \<mapsto> sa_stored request)"
    if "ipsec_inv conf s" "dp_ipsec_create_sa conf L request s = (Inr u, s')" for s s' request u
    using that create_sa_view create_sa_inv by blast
  show "ipsec_inv conf s' \<and> sa_view s' = sa_view s"
    if "ipsec_inv conf s" "dp_ipsec_create_sa conf L request s = (Inl e, s')" for s s' request e
    using that create_sa_fails by blast
  show "ipsec_inv conf s' \<and> sa_view s (spec_key spec) \<noteq> None
    \<and> sa_view s' = (sa_view s)(spec_key spec := None)"
    if "ipsec_inv conf s" "dp_ipsec_delete_sa L spec s = (Inr u, s')" for s s' spec u
    using that delete_sa_view [OF that] delete_sa_inv by blast
  show "ipsec_inv conf s' \<and> sa_view s' = sa_view s"
    if "ipsec_inv conf s" "dp_ipsec_delete_sa L spec s = (Inl e, s')" for s s' spec e
    using that delete_sa_fails by blast
qed

context ipsec_library
begin

lemma lookup_found:
  assumes "ipsec_inv conf s" "dp_ipsec_lookup_sa L s [k] = [Some p]"
  obtains sa where "ips_heap s p = Some sa" "sa_wf conf sa" "sa_lookup_key sa = k"
proof -
  from assms obtain T where T: "ips_sad s = Some T" "T k = Some p"
    by (auto simp: dp_ipsec_lookup_sa_def sad_lookup split: option.splits)
  with assms(1) obtain sa where "ips_heap s p = Some sa" "sa_lookup_key sa = k"
    by (auto simp: ipsec_inv_def filed_def)
  moreover from this assms(1) have "sa_wf conf sa"
    by (auto simp: ipsec_inv_def intro: ranI)
  ultimately show thesis using that by blast
qed

lemma slot_of_found:
  assumes "ipsec_inv conf s" "dp_ipsec_find_sa L s spec = Some (p, sa)"
  shows "dp_ipsec_get_slot s p < length (ips_sas s)"
proof -
  have "p \<in> owned (ips_sas s)"
    using assms by (auto simp: find_sa_Some ipsec_inv_def)
  then show ?thesis
    by (auto simp: dp_ipsec_get_slot_def first_index_less_iff owned_def)
qed

end

lemma wf_key_local:
  assumes "sa_wf conf sa" "sa_lookup_key sa = dp_ipsec_build_key i src dst"
  shows "if sa_dir sa = DP_IPSEC_DIR_EGRESS
    then ip6_prefix src = ip6_prefix (conf_underlay_ip conf) \<and> sa_vni sa = i
    else ip6_prefix dst = ip6_prefix (conf_underlay_ip conf) \<and> sa_spi sa = i"
  using assms
  by (auto simp: sa_wf_def dp_ipsec_is_local_side_valid_def sa_lookup_key_def build_key_eq_iff
      dp_ipsec_get_lookup_spi_def sa_spec_def split: if_splits)

context ipsec_library
begin

lemma delete_sa_result: "sa_view s (spec_key spec) = Some v \<Longrightarrow> fst (dp_ipsec_delete_sa L spec s) =
    (if sa_dir v = spec_dir spec \<and> sa_vni v = spec_vni spec \<and> sa_spi v = spec_spi spec
     then DP_OK else GRPC_FAIL DP_GRPC_ERR_SA_NOT_FOUND)"
  by (auto simp: dp_ipsec_delete_sa_def dp_ipsec_find_sa_def lookup_one_eq sa_view_def spec_key_def
      sa_public_def sad_del Let_def split: option.splits)

lemma create_delete_view:
  "ipsec_inv conf s \<Longrightarrow> dp_ipsec_create_sa conf L request s = (Inr u, s1) \<Longrightarrow>
   dp_ipsec_delete_sa L spec s1 = (Inr v, s2) \<Longrightarrow> spec_key spec = sa_lookup_key request \<Longrightarrow>
   sa_view s2 = sa_view s"
  using sadv.put_remove_restores by blast

lemma create_existing:
  "ipsec_inv conf s \<Longrightarrow> sa_view s (sa_lookup_key request) \<noteq> None \<Longrightarrow>
   \<exists>e. dp_ipsec_create_sa conf L request s = (Inl e, s)"
  using sadv.put_taken create_sa_fails by metis

end

end
