(* ===== verification/Dp_Grpc_Sa.thy ===== *)
theory Dp_Grpc_Sa
  imports Dp_Ipsec
begin

text \<open>
  The gRPC handlers of Security Associations (\<open>src/grpc/dp_grpc_impl.c\<close>), the
  transition system they form together with start and shutdown, and the
  properties of the database.
\<close>

section \<open>Requests and handlers\<close>

record dpgrpc_ipsec_sa_id =
  id_spi :: uint32
  id_vni :: uint32
  id_dir :: dp_ipsec_dir
  id_src :: dp_ipv6
  id_dst :: dp_ipv6

record dpgrpc_ipsec_sa =
  req_id :: dpgrpc_ipsec_sa_id
  req_algo :: nat
  req_key :: "uint8 list"
  req_salt :: "uint8 list"
  req_replay_window :: uint32
  req_esn :: bool

record dpgrpc_ipsec_sa_update =
  upd_sa :: dpgrpc_ipsec_sa
  upd_new_spi :: uint32

definition id_spec :: "dpgrpc_ipsec_sa_id \<Rightarrow> dp_ipsec_sa_spec" where
  "id_spec request = \<lparr> spec_spi = id_spi request, spec_vni = id_vni request,
     spec_dir = id_dir request, spec_src = id_src request, spec_dst = id_dst request \<rparr>"

text \<open>The members an initialiser does not name are zero.\<close>

definition request_sa :: "uint32 \<Rightarrow> dpgrpc_ipsec_sa \<Rightarrow> dp_ipsec_sa" where
  "request_sa spi request = \<lparr>
     sa_spi = spi, sa_vni = id_vni (req_id request), sa_algo = req_algo request,
     sa_dir = id_dir (req_id request), sa_src = id_src (req_id request), sa_dst = id_dst (req_id request),
     sa_key = req_key request, sa_salt = req_salt request, sa_salt_len = 0,
     sa_replay_window = req_replay_window request, sa_esn = req_esn request,
     sa_session = None, sa_ipsec_sa = None,
     sa_ipsec_session = \<lparr> ses_sa = None, ses_crypto = None \<rparr> \<rparr>"

definition dp_process_create_security_association ::
  "ipsec_conf \<Rightarrow> ipsec_lib \<Rightarrow> dpgrpc_ipsec_sa \<Rightarrow> ipsec_state \<Rightarrow> unit dp_result \<times> ipsec_state" where
  "dp_process_create_security_association conf L request s =
     dp_ipsec_create_sa conf L (request_sa (id_spi (req_id request)) request) s"

definition dp_process_delete_security_association ::
  "ipsec_lib \<Rightarrow> dpgrpc_ipsec_sa_id \<Rightarrow> ipsec_state \<Rightarrow> unit dp_result \<times> ipsec_state" where
  "dp_process_delete_security_association L request s = dp_ipsec_delete_sa L (id_spec request) s"

definition dp_process_update_security_association ::
  "ipsec_conf \<Rightarrow> ipsec_lib \<Rightarrow> dpgrpc_ipsec_sa_update \<Rightarrow> ipsec_state \<Rightarrow> unit dp_result \<times> ipsec_state" where
  "dp_process_update_security_association conf L request s =
     dp_ipsec_update_sa conf L (id_spec (req_id (upd_sa request)))
       (request_sa (upd_new_spi request) (upd_sa request)) s"

definition dp_process_get_security_association ::
  "ipsec_lib \<Rightarrow> dpgrpc_ipsec_sa_id \<Rightarrow> ipsec_state \<Rightarrow> dpgrpc_ipsec_sa dp_result" where
  "dp_process_get_security_association L request s =
     (case dp_ipsec_get_sa L s (id_spec request) of
       Inl e \<Rightarrow> Inl e
     | Inr sa \<Rightarrow> Inr \<lparr>
         req_id = \<lparr> id_spi = sa_spi sa, id_vni = sa_vni sa, id_dir = sa_dir sa,
                    id_src = sa_src sa, id_dst = sa_dst sa \<rparr>,
         req_algo = sa_algo sa, req_key = sa_key sa, req_salt = sa_salt sa,
         req_replay_window = sa_replay_window sa, req_esn = sa_esn sa \<rparr>)"

section \<open>The transition system\<close>

text \<open>A service that has been started, successfully or not, and the requests it
  then serves; each of them may meet any library that keeps its contract.\<close>

definition ipsec_started :: "ipsec_conf \<Rightarrow> ipsec_state \<Rightarrow> bool" where
  "ipsec_started conf s \<longleftrightarrow> (\<exists>s0 L. ipsec_initial s0 \<and> snd (dp_ipsec_init conf L s0) = s)"

inductive ipsec_step :: "ipsec_conf \<Rightarrow> ipsec_state \<Rightarrow> ipsec_state \<Rightarrow> bool" for conf where
  create: "ipsec_library L \<Longrightarrow>
    ipsec_step conf s (snd (dp_process_create_security_association conf L request s))"
| update: "ipsec_library L \<Longrightarrow>
    ipsec_step conf s (snd (dp_process_update_security_association conf L upd s))"
| delete: "ipsec_library L \<Longrightarrow>
    ipsec_step conf s (snd (dp_process_delete_security_association L name s))"
| shutdown: "ipsec_step conf s (dp_ipsec_free s)"

lemma create_handler_inv: "ipsec_library L \<Longrightarrow> ipsec_inv conf s \<Longrightarrow>
    ipsec_inv conf (snd (dp_process_create_security_association conf L request s))"
  unfolding dp_process_create_security_association_def
  using ipsec_library.create_sa_inv prod.collapse by metis

lemma update_handler_inv: "ipsec_library L \<Longrightarrow> ipsec_inv conf s \<Longrightarrow>
    ipsec_inv conf (snd (dp_process_update_security_association conf L upd s))"
  unfolding dp_process_update_security_association_def
  by (rule ipsec_library.update_sa_inv [OF _ _ prod.collapse [symmetric]])
    (auto simp: request_sa_def id_spec_def)

lemma delete_handler_inv: "ipsec_library L \<Longrightarrow> ipsec_inv conf s \<Longrightarrow>
    ipsec_inv conf (snd (dp_process_delete_security_association L name s))"
  unfolding dp_process_delete_security_association_def
  using ipsec_library.delete_sa_inv prod.collapse by metis

interpretation sadb: transition_system "ipsec_started conf" "ipsec_step conf" "ipsec_inv conf"
proof
  show "ipsec_inv conf s" if "ipsec_started conf s" for s
    using that ipsec_init_inv prod.collapse unfolding ipsec_started_def by metis
  show "ipsec_inv conf s'" if "ipsec_step conf s s'" "ipsec_inv conf s" for s s'
    using that by cases
      (auto intro: create_handler_inv update_handler_inv delete_handler_inv ipsec_free_inv)
qed

section \<open>Properties\<close>

text \<open>C1: the Security Association Database never corrupts.  In every state the
  service can reach, whatever the libraries refuse on the way, the database and
  the owning slots hold the same associations, each filed under the key its
  direction implies, each valid, and every crypto session and librte_ipsec
  object belongs to exactly one of them: nothing dangles and nothing leaks.\<close>

theorem sadb_reachable_inv:
  assumes "ipsec_started conf s0" "(ipsec_step conf)\<^sup>*\<^sup>* s0 s"
  shows "ipsec_inv conf s"
  using assms by (rule sadb.inv_reachable)

text \<open>A concrete configuration, start state and request.\<close>

definition ex_conf :: ipsec_conf where
  "ex_conf = \<lparr> conf_ipsec_enabled = True, conf_underlay_ip = \<lparr> ip6_prefix = 0xfc00, ip6_suffix = 1 \<rparr> \<rparr>"

definition ex_initial :: ipsec_state where
  "ex_initial = \<lparr> ips_active = False, ips_session_pool = False, ips_op_pool = False, ips_sad = None,
     ips_sas = replicate DP_IPSEC_MAX_SA None, ips_heap = Map.empty, ips_sessions = {}, ips_rte_sas = {} \<rparr>"

definition ex_start :: ipsec_state where
  "ex_start = snd (dp_ipsec_init ex_conf (ref_ipsec_lib 4) ex_initial)"

definition ex_request :: dpgrpc_ipsec_sa where
  "ex_request = \<lparr> req_id = \<lparr> id_spi = 7, id_vni = 100, id_dir = DP_IPSEC_DIR_EGRESS,
       id_src = \<lparr> ip6_prefix = 0xfc00, ip6_suffix = 5 \<rparr>, id_dst = \<lparr> ip6_prefix = 0xfc01, ip6_suffix = 9 \<rparr> \<rparr>,
     req_algo = 1, req_key = replicate 32 3, req_salt = replicate 4 1,
     req_replay_window = 0, req_esn = True \<rparr>"

lemma ex_started: "ipsec_started ex_conf ex_start"
  unfolding ipsec_started_def ex_start_def
  by (intro exI [of _ ex_initial] exI [of _ "ref_ipsec_lib 4"])
    (simp add: ipsec_initial_def ex_initial_def)

lemmas ex_create_simps = ex_start_def ex_initial_def ex_conf_def ex_request_def ref_ipsec_lib_def
  dp_ipsec_init_def dp_ipsec_create_device_def dp_ipsec_create_pools_def dp_ipsec_create_sad_def
  DP_FAILED_def dp_process_create_security_association_def dp_ipsec_create_sa_def request_sa_def
  sa_spec_def DP_IPSEC_ALGO_MAX_def dp_ipsec_is_local_side_valid_def
  dp_ipsec_is_replay_window_valid_def dp_ipsec_lookup_one_def dp_ipsec_lookup_sa_def
  dp_ipsec_build_sa_def store_sa_def dp_ipsec_create_ipsec_sa_def
  dp_ipsec_get_lookup_spi_def DP_IPSEC_MAX_SA_def

lemma ex_created:
  "fst (dp_process_create_security_association ex_conf (ref_ipsec_lib 4) ex_request ex_start) = DP_OK"
  by (simp add: ex_create_simps Let_def numeral_eq_Suc upt_rec)

theorem sadb_reachable_inv_witness:
  "ipsec_inv ex_conf (snd (dp_process_create_security_association ex_conf (ref_ipsec_lib 4) ex_request ex_start))"
  by (rule sadb_reachable_inv [OF ex_started r_into_rtranclp])
    (rule ipsec_step.create [OF ref.ipsec_library_axioms])

text \<open>C2: the database refines a finite map.  Seen through its abstraction, a
  successful creation adds the association under a key that was free, a
  successful update replaces the association its name matches in full, a
  successful deletion removes it, and a query returns exactly the entry the
  whole name matches; a refused request of any kind leaves the map as it was.\<close>

theorem sadb_refines_map:
  assumes "ipsec_library L" "ipsec_inv conf s"
  shows "(case dp_process_create_security_association conf L request s of (res, s') \<Rightarrow>
      let sa = request_sa (id_spi (req_id request)) request; k = sa_lookup_key sa in
      if res = DP_OK then sa_view s k = None \<and> sa_view s' = (sa_view s)(k \<mapsto> sa_stored sa)
      else sa_view s' = sa_view s)
    \<and> (case dp_process_update_security_association conf L upd s of (res, s') \<Rightarrow>
      let name = id_spec (req_id (upd_sa upd)); k = spec_key name in
      if res = DP_OK then (\<exists>old. sa_view s k = Some old \<and> sa_dir old = spec_dir name
          \<and> sa_vni old = spec_vni name \<and> sa_spi old = spec_spi name)
        \<and> sa_view s' = (sa_view s)(k \<mapsto> sa_stored (request_sa (upd_new_spi upd) (upd_sa upd)))
      else sa_view s' = sa_view s)
    \<and> (case dp_process_delete_security_association L name s of (res, s') \<Rightarrow>
      if res = DP_OK then sa_view s (spec_key (id_spec name)) \<noteq> None
        \<and> sa_view s' = (sa_view s)(spec_key (id_spec name) := None)
      else sa_view s' = sa_view s)
    \<and> ((\<exists>sa. dp_ipsec_get_sa L s spec = Inr sa \<and> sa_public sa = v) \<longleftrightarrow>
      sa_view s (spec_key spec) = Some v \<and> sa_dir v = spec_dir spec \<and> sa_vni v = spec_vni spec
        \<and> sa_spi v = spec_spi spec)"
    (is "?create \<and> ?update \<and> ?delete \<and> ?get")
proof (intro conjI)
  let ?sa = "request_sa (id_spi (req_id request)) request"
  obtain res s' where c: "dp_ipsec_create_sa conf L ?sa s = (res, s')" by fastforce
  then show ?create
    using ipsec_library.create_sa_view [OF assms, of ?sa] ipsec_library.create_sa_fails [OF assms(1), of conf ?sa s]
    by (cases res) (auto simp: dp_process_create_security_association_def Let_def)
  let ?spec = "id_spec (req_id (upd_sa upd))"
  let ?up = "request_sa (upd_new_spi upd) (upd_sa upd)"
  obtain res s' where u: "dp_ipsec_update_sa conf L ?spec ?up s = (res, s')" by fastforce
  moreover have "ip6_prefix (sa_src ?up) = ip6_prefix (spec_src ?spec)"
    "ip6_prefix (sa_dst ?up) = ip6_prefix (spec_dst ?spec)"
    by (simp_all add: request_sa_def id_spec_def)
  ultimately show ?update
    using ipsec_library.update_sa_view [OF assms, of ?spec ?up]
      ipsec_library.update_sa_fails [OF assms(1), of conf ?spec ?up s]
    by (cases res) (auto simp: dp_process_update_security_association_def Let_def)
  obtain res s' where d: "dp_ipsec_delete_sa L (id_spec name) s = (res, s')" by fastforce
  then show ?delete
    using ipsec_library.delete_sa_view [OF assms, of "id_spec name"]
      ipsec_library.delete_sa_fails [OF assms(1), of "id_spec name" s]
    by (cases res) (auto simp: dp_process_delete_security_association_def)
  show ?get by (rule ipsec_library.get_sa_view [OF assms])
qed

lemma ex_request_spi: "id_spi (req_id ex_request) = 7"
  by (simp add: ex_request_def)

lemma ex_start_inv: "ipsec_inv ex_conf ex_start"
  by (rule sadb.inv_initial [OF ex_started])

theorem sadb_refines_map_witness:
  "sa_view (snd (dp_process_create_security_association ex_conf (ref_ipsec_lib 4) ex_request ex_start))
     (sa_lookup_key (request_sa 7 ex_request)) = Some (sa_stored (request_sa 7 ex_request))"
  using sadb_refines_map [OF ref.ipsec_library_axioms [of 4] ex_start_inv,
      where request = ex_request, THEN conjunct1] ex_created ex_request_spi
  by (auto simp: Let_def split: prod.splits)

text \<open>C6: requests are all or nothing.  When creating, updating or deleting an
  association fails at any point, with whatever error of whatever library call,
  the state is the very state before the request: nothing is published, the
  replaced association keeps its slot and its session, and everything allocated
  on the way has been released.\<close>

theorem sa_requests_all_or_nothing:
  assumes "ipsec_library L"
  shows "(fst (dp_process_create_security_association conf L request s) = Inl e \<longrightarrow>
        snd (dp_process_create_security_association conf L request s) = s)
    \<and> (fst (dp_process_update_security_association conf L upd s) = Inl e \<longrightarrow>
        snd (dp_process_update_security_association conf L upd s) = s)
    \<and> (fst (dp_process_delete_security_association L name s) = Inl e \<longrightarrow>
        snd (dp_process_delete_security_association L name s) = s)"
  unfolding dp_process_create_security_association_def dp_process_update_security_association_def
    dp_process_delete_security_association_def
  using ipsec_library.create_sa_fails [OF assms] ipsec_library.update_sa_fails [OF assms]
    ipsec_library.delete_sa_fails [OF assms] prod.collapse
  by metis

text \<open>A library whose database refuses every addition.\<close>

definition ex_full_lib :: ipsec_lib where
  "ex_full_lib = (ref_ipsec_lib 4)\<lparr> rte_ipsec_sad_add := \<lambda>T k p. Inl (- ENOSPC) \<rparr>"

interpretation full: ipsec_library ex_full_lib
  by unfold_locales (auto simp: ex_full_lib_def ref_ipsec_lib_def find_Some_iff split: if_splits)

theorem sa_requests_all_or_nothing_witness:
  "fst (dp_process_create_security_association ex_conf ex_full_lib ex_request ex_start)
     = GRPC_FAIL DP_GRPC_ERR_SA_CREATE
   \<and> snd (dp_process_create_security_association ex_conf ex_full_lib ex_request ex_start) = ex_start"
proof -
  have "fst (dp_process_create_security_association ex_conf ex_full_lib ex_request ex_start)
     = GRPC_FAIL DP_GRPC_ERR_SA_CREATE"
    by (simp add: ex_create_simps ex_full_lib_def Let_def numeral_eq_Suc upt_rec)
  then show ?thesis
    using sa_requests_all_or_nothing [OF full.ipsec_library_axioms, of ex_conf ex_request ex_start]
    by blast
qed

text \<open>C5: a packet only ever meets an association of its own direction.  With
  the peer outside this host's underlay prefix, a key built the way the decap
  node builds it (SPI, source, local destination) can only find an inbound
  association with that SPI, and a key built the way the encap node builds it
  (VNI, local source, peer) only an outbound association of that VNI; the zeroed
  key of a truncated packet finds nothing as long as the underlay prefix is not
  zero.\<close>

theorem sad_lookup_direction:
  assumes "ipsec_library L" "ipsec_inv conf s"
    and found: "dp_ipsec_lookup_sa L s [dp_ipsec_build_key i src dst] = [Some p]"
  shows "\<exists>sa. ips_heap s p = Some sa
    \<and> (ip6_prefix src \<noteq> ip6_prefix (conf_underlay_ip conf) \<longrightarrow>
        sa_dir sa = DP_IPSEC_DIR_INGRESS \<and> sa_spi sa = i)
    \<and> (ip6_prefix dst \<noteq> ip6_prefix (conf_underlay_ip conf) \<longrightarrow>
        sa_dir sa = DP_IPSEC_DIR_EGRESS \<and> sa_vni sa = i)
    \<and> (ip6_prefix (conf_underlay_ip conf) \<noteq> 0 \<longrightarrow>
        dp_ipsec_build_key i src dst \<noteq> \<lparr> key_spi = 0, key_dip = dp_empty_ipv6, key_sip = dp_empty_ipv6 \<rparr>)"
proof -
  obtain sa where sa: "ips_heap s p = Some sa" "sa_wf conf sa"
    "sa_lookup_key sa = dp_ipsec_build_key i src dst"
    using ipsec_library.lookup_found [OF assms] .
  with wf_key_local [OF sa(2,3)] show ?thesis
    by (cases "sa_dir sa")
      (auto simp: dp_ipsec_build_key_def mask_prefix_def dp_empty_ipv6_def)
qed

definition ex_one :: ipsec_state where
  "ex_one = snd (dp_process_create_security_association ex_conf (ref_ipsec_lib 4) ex_request ex_start)"

lemma ex_one_inv: "ipsec_inv ex_conf ex_one"
  unfolding ex_one_def by (rule create_handler_inv [OF ref.ipsec_library_axioms ex_start_inv])

lemma ex_one_found:
  "dp_ipsec_lookup_sa (ref_ipsec_lib 4) ex_one [dp_ipsec_build_key 100
     \<lparr> ip6_prefix = 0xfc00, ip6_suffix = 77 \<rparr> \<lparr> ip6_prefix = 0xfc01, ip6_suffix = 3 \<rparr>] = [Some 0]"
  by (simp add: ex_one_def ex_create_simps Let_def numeral_eq_Suc upt_rec
      dp_ipsec_build_key_def mask_prefix_def)

theorem sad_lookup_direction_witness:
  "\<exists>sa. ips_heap ex_one 0 = Some sa \<and> sa_dir sa = DP_IPSEC_DIR_EGRESS \<and> sa_vni sa = 100"
  using sad_lookup_direction [OF ref.ipsec_library_axioms ex_one_inv ex_one_found]
  by (auto simp: ex_conf_def)

text \<open>C7: what was provisioned is what is reported.  After a successful creation
  the query by the same name returns the request, with the addresses cut to the
  prefix that is matched; deleting it under any name that differs in SPI, VNI or
  direction is refused, and deleting it by its name leaves the database as it
  was before the creation.\<close>

theorem sa_create_get_delete:
  assumes L: "ipsec_library L" and inv: "ipsec_inv conf s"
    and created: "dp_process_create_security_association conf L request s = (DP_OK, s1)"
  shows "dp_process_get_security_association L (req_id request) s1 =
      Inr (request\<lparr> req_id := (req_id request)\<lparr> id_src := mask_prefix (id_src (req_id request)),
                                              id_dst := mask_prefix (id_dst (req_id request)) \<rparr> \<rparr>)
    \<and> (spec_key (id_spec name) = spec_key (id_spec (req_id request)) \<longrightarrow>
        (id_spi name, id_vni name, id_dir name) \<noteq>
          (id_spi (req_id request), id_vni (req_id request), id_dir (req_id request)) \<longrightarrow>
        fst (dp_process_delete_security_association L name s1) = GRPC_FAIL DP_GRPC_ERR_SA_NOT_FOUND)
    \<and> (\<exists>s2. dp_process_delete_security_association L (req_id request) s1 = (DP_OK, s2)
        \<and> sa_view s2 = sa_view s)"
proof (intro conjI impI)
  let ?sa = "request_sa (id_spi (req_id request)) request"
  let ?spec = "id_spec (req_id request)"
  have key: "sa_lookup_key ?sa = spec_key ?spec"
    by (simp add: sa_lookup_key_def spec_key_def request_sa_def id_spec_def sa_spec_def)
  have c: "dp_ipsec_create_sa conf L ?sa s = (Inr (), s1)"
    using created by (simp add: dp_process_create_security_association_def)
  have inv1: "ipsec_inv conf s1" by (rule ipsec_library.create_sa_inv [OF L inv c])
  have view: "sa_view s1 (spec_key ?spec) = Some (sa_stored ?sa)"
    using ipsec_library.create_sa_view [OF L inv c] key by simp
  have stored: "sa_dir (sa_stored ?sa) = id_dir (req_id request)"
    "sa_vni (sa_stored ?sa) = id_vni (req_id request)" "sa_spi (sa_stored ?sa) = id_spi (req_id request)"
    by (simp_all add: sa_stored_def sa_public_def built_sa_def request_sa_def)
  then obtain sa' where sa': "dp_ipsec_get_sa L s1 ?spec = Inr sa'" "sa_public sa' = sa_stored ?sa"
    using view ipsec_library.get_sa_view [OF L inv1, of ?spec "sa_stored ?sa"]
    by (auto simp: id_spec_def)
  then show "dp_process_get_security_association L (req_id request) s1 =
      Inr (request\<lparr> req_id := (req_id request)\<lparr> id_src := mask_prefix (id_src (req_id request)),
                                              id_dst := mask_prefix (id_dst (req_id request)) \<rparr> \<rparr>)"
    by (cases sa')
      (simp add: dp_process_get_security_association_def sa_stored_def sa_public_def built_sa_def request_sa_def)
  show "fst (dp_process_delete_security_association L name s1) = GRPC_FAIL DP_GRPC_ERR_SA_NOT_FOUND"
    if "spec_key (id_spec name) = spec_key ?spec"
      "(id_spi name, id_vni name, id_dir name) \<noteq>
          (id_spi (req_id request), id_vni (req_id request), id_dir (req_id request))"
    using ipsec_library.delete_sa_result [OF L, of s1 "id_spec name"] view stored that
    by (auto simp: dp_process_delete_security_association_def id_spec_def)
  have "fst (dp_ipsec_delete_sa L ?spec s1) = DP_OK"
    using ipsec_library.delete_sa_result [OF L, of s1 ?spec] view stored
    by (auto simp: id_spec_def)
  then obtain s2 where d: "dp_ipsec_delete_sa L ?spec s1 = (Inr (), s2)"
    by (cases "dp_ipsec_delete_sa L ?spec s1") auto
  then have "sa_view s2 = sa_view s"
    using ipsec_library.create_delete_view [OF L inv c d] key by simp
  with d show "\<exists>s2. dp_process_delete_security_association L (req_id request) s1 = (DP_OK, s2)
        \<and> sa_view s2 = sa_view s"
    by (auto simp: dp_process_delete_security_association_def)
qed

theorem sa_create_get_delete_witness:
  "dp_process_get_security_association (ref_ipsec_lib 4) (req_id ex_request) ex_one =
     Inr (ex_request\<lparr> req_id := (req_id ex_request)\<lparr>
       id_src := \<lparr> ip6_prefix = 0xfc00, ip6_suffix = 0 \<rparr>,
       id_dst := \<lparr> ip6_prefix = 0xfc01, ip6_suffix = 0 \<rparr> \<rparr> \<rparr>)"
proof -
  have created: "dp_process_create_security_association ex_conf (ref_ipsec_lib 4) ex_request ex_start
      = (DP_OK, ex_one)"
    using ex_created unfolding ex_one_def by (metis prod.collapse)
  show ?thesis
    using sa_create_get_delete [OF ref.ipsec_library_axioms ex_start_inv created, THEN conjunct1]
    by (simp add: ex_request_def mask_prefix_def)
qed


definition ex_update :: dpgrpc_ipsec_sa_update where
  "ex_update = \<lparr> upd_sa = ex_request, upd_new_spi = 8 \<rparr>"

lemmas ex_one_simps = ex_one_def ex_create_simps Let_def numeral_eq_Suc upt_rec
  dp_ipsec_build_key_def mask_prefix_def

lemma ex_one_sad: "\<exists>T. ips_sad ex_one = Some T"
  by (simp add: ex_one_simps)

lemma ex_one_get: "\<exists>old. dp_ipsec_get_sa (ref_ipsec_lib 4) ex_one (id_spec (req_id ex_request)) = Inr old"
  by (simp add: dp_ipsec_get_sa_def dp_ipsec_find_sa_def id_spec_def ex_one_simps)

lemma ex_one_build: "\<exists>p sa. fst (dp_ipsec_build_sa (ref_ipsec_lib 4) (request_sa 8 ex_request) 100 ex_one) = Inr (p, sa)"
  by (simp add: ex_one_simps)


end
