(* ===== verification/Dp_Firewall.thy ===== *)
theory Dp_Firewall
  imports Dp_Types
begin

text \<open>
  The firewall (\<open>include/dp_firewall.h\<close>, \<open>src/dp_firewall.c\<close>), its gRPC handlers
  and its graph node.  The rules of an interface are a tail queue, hence a list;
  whether an allocation succeeds is an argument.
\<close>

definition DP_FWALL_MATCH_ANY :: uint32 where "DP_FWALL_MATCH_ANY = 0xFFFFFFFF"
definition DP_FWALL_MATCH_ANY_PROTOCOL :: uint8 where "DP_FWALL_MATCH_ANY_PROTOCOL = 0"

section \<open>Rules of an interface\<close>

definition set_fwall :: "dp_fwall_rule list \<Rightarrow> uint32 \<Rightarrow> dp_port \<Rightarrow> dp_port" where
  "set_fwall rules count port =
     port\<lparr> iface := (iface port)\<lparr> fwall_head := rules, fwall_rule_count := count \<rparr> \<rparr>"

definition dp_init_firewall_rules :: "dp_port \<Rightarrow> dp_port" where
  "dp_init_firewall_rules port = set_fwall [] 0 port"

definition dp_add_firewall_rule :: "bool \<Rightarrow> dp_fwall_rule \<Rightarrow> dp_port \<Rightarrow> unit dp_result \<times> dp_port" where
  "dp_add_firewall_rule zmalloc new_rule port =
     (if \<not> zmalloc then (Inl DP_ERROR, port)
      else (DP_OK, set_fwall (fwall_head (iface port) @ [new_rule]) (fwall_rule_count (iface port) + 1) port))"

text \<open>Removal of the first rule with the identifier.\<close>

fun remove_rule :: "string \<Rightarrow> dp_fwall_rule list \<Rightarrow> dp_fwall_rule list option" where
  "remove_rule rid [] = None"
| "remove_rule rid (rule # rules) =
     (if rule_id rule = rid then Some rules else map_option (Cons rule) (remove_rule rid rules))"

definition dp_delete_firewall_rule :: "string \<Rightarrow> dp_port \<Rightarrow> unit dp_result \<times> dp_port" where
  "dp_delete_firewall_rule rid port = (case remove_rule rid (fwall_head (iface port)) of
       None \<Rightarrow> (Inl DP_ERROR, port)
     | Some rules \<Rightarrow> (DP_OK, set_fwall rules (fwall_rule_count (iface port) - 1) port))"

definition dp_get_firewall_rule :: "string \<Rightarrow> dp_port \<Rightarrow> dp_fwall_rule option" where
  "dp_get_firewall_rule rid port = find (\<lambda>rule. rule_id rule = rid) (fwall_head (iface port))"

text \<open>The replies of a listing; \<open>room n\<close> says whether a reply can be added after
  \<open>n\<close> others.\<close>

fun list_rules :: "(nat \<Rightarrow> bool) \<Rightarrow> nat \<Rightarrow> dp_fwall_rule list
    \<Rightarrow> unit dp_result \<times> dp_fwall_rule list" where
  "list_rules room n [] = (DP_OK, [])"
| "list_rules room n (rule # rules) =
     (if \<not> room n then (GRPC_FAIL DP_GRPC_ERR_OUT_OF_MEMORY, [])
      else let (res, replies) = list_rules room (Suc n) rules in (res, rule # replies))"

definition dp_list_firewall_rules ::
  "(nat \<Rightarrow> bool) \<Rightarrow> dp_port \<Rightarrow> unit dp_result \<times> dp_fwall_rule list" where
  "dp_list_firewall_rules room port = list_rules room 0 (fwall_head (iface port))"

definition dp_del_all_firewall_rules :: "dp_port \<Rightarrow> dp_port" where
  "dp_del_all_firewall_rules port = set_fwall [] 0 port"

section \<open>Matching\<close>

definition port_in_range :: "uint16 \<Rightarrow> uint32 \<Rightarrow> uint32 \<Rightarrow> bool" where
  "port_in_range p lower upper \<longleftrightarrow> lower = DP_FWALL_MATCH_ANY
     \<or> (lower \<le> ucast p \<and> ucast p \<le> upper)"

definition dp_is_rule_matching :: "dp_fwall_rule \<Rightarrow> dp_flow \<Rightarrow> bool" where
  "dp_is_rule_matching rule df =
     (let any_protocol = (rule_protocol rule = DP_FWALL_MATCH_ANY_PROTOCOL);
          icmp = (df_l4_type df = IPPROTO_ICMP \<or> df_l4_type df = IPPROTO_ICMPV6);
          protocol = (if icmp \<and> df_l3_type df = RTE_ETHER_TYPE_IPV6 then IPPROTO_ICMP else df_l4_type df);
          filter = rule_filter rule in
      if df_l4_type df = IPPROTO_TCP \<and> rule_protocol rule \<noteq> IPPROTO_TCP \<and> \<not> any_protocol then False
      else if df_l4_type df = IPPROTO_UDP \<and> rule_protocol rule \<noteq> IPPROTO_UDP \<and> \<not> any_protocol then False
      else if icmp \<and> rule_protocol rule \<noteq> IPPROTO_ICMP \<and> \<not> any_protocol then False
      else if icmp
        \<and> (filter_icmp_type filter = DP_FWALL_MATCH_ANY \<or> ucast (df_icmp_type df) = filter_icmp_type filter)
        \<and> (filter_icmp_code filter = DP_FWALL_MATCH_ANY \<or> ucast (df_icmp_code df) = filter_icmp_code filter)
        \<and> (any_protocol \<or> rule_protocol rule = protocol)
      then True
      else if df_l4_type df \<noteq> IPPROTO_TCP \<and> df_l4_type df \<noteq> IPPROTO_UDP \<and> \<not> icmp then False
      else
        (if df_l3_type df = RTE_ETHER_TYPE_IPV4 then
           (case (rule_src_ip rule, rule_dest_ip rule) of
             (IPADDR4 src, IPADDR4 dest) \<Rightarrow>
               df_src_addr df AND mask_ip4 (rule_src_mask rule) = src AND mask_ip4 (rule_src_mask rule)
               \<and> df_dst_addr df AND mask_ip4 (rule_dest_mask rule) = dest AND mask_ip4 (rule_dest_mask rule)
           | _ \<Rightarrow> False)
         else if df_l3_type df = RTE_ETHER_TYPE_IPV6 then
           (case (dp_ipv6_from_ipaddr (rule_src_ip rule), dp_ipv6_from_ipaddr (rule_dest_ip rule)) of
             (Inr r_src_ip6, Inr r_dest_ip6) \<Rightarrow>
               dp_masked_ipv6_match (df_src df) r_src_ip6 (mask_ip6 (rule_src_mask rule))
               \<and> dp_masked_ipv6_match (df_dst df) r_dest_ip6 (mask_ip6 (rule_dest_mask rule))
           | _ \<Rightarrow> False)
         else False)
        \<and> port_in_range (df_l4_src_port df) (src_port_lower filter) (src_port_upper filter)
        \<and> port_in_range (df_l4_dst_port df) (dst_port_lower filter) (dst_port_upper filter)
        \<and> (any_protocol \<or> rule_protocol rule = protocol))"

text \<open>The counter of egress rules is a pointer the caller may pass as null:
  \<open>None\<close> as the argument.  \<open>None\<close> as the result is the dereference of it.\<close>

fun dp_is_matched_in_fwall_list ::
  "dp_flow \<Rightarrow> dp_fwall_rule list \<Rightarrow> dp_fwall_direction \<Rightarrow> uint32 option
   \<Rightarrow> (dp_fwall_rule option \<times> uint32 option) option" where
  "dp_is_matched_in_fwall_list df [] dir egress_rule_count = Some (None, egress_rule_count)"
| "dp_is_matched_in_fwall_list df (rule # rules) dir egress_rule_count =
     (if rule_dir rule = DP_FWALL_EGRESS \<and> egress_rule_count = None then None
      else let count = (if rule_dir rule = DP_FWALL_EGRESS
                        then map_option (\<lambda>c. c + 1) egress_rule_count else egress_rule_count) in
        if dir = rule_dir rule \<and> dp_is_rule_matching rule df then Some (Some rule, count)
        else dp_is_matched_in_fwall_list df rules dir count)"

definition dp_get_egress_action :: "dp_flow \<Rightarrow> dp_fwall_rule list \<Rightarrow> dp_fwall_action option" where
  "dp_get_egress_action df rules =
     (case dp_is_matched_in_fwall_list df rules DP_FWALL_EGRESS (Some 0) of
        None \<Rightarrow> None
      | Some (Some rule, _) \<Rightarrow> Some (rule_action rule)
      | Some (None, count) \<Rightarrow> Some (if count = Some 0 then DP_FWALL_ACCEPT else DP_FWALL_DROP))"

definition dp_get_firewall_action :: "dp_flow \<Rightarrow> dp_port \<Rightarrow> dp_port \<Rightarrow> dp_fwall_action option" where
  "dp_get_firewall_action df in_port out_port =
     (if is_pf out_port then dp_get_egress_action df (fwall_head (iface in_port))
      else case (if is_pf in_port then Some DP_FWALL_ACCEPT
                 else dp_get_egress_action df (fwall_head (iface in_port))) of
        None \<Rightarrow> None
      | Some DP_FWALL_DROP \<Rightarrow> Some DP_FWALL_DROP
      | Some DP_FWALL_ACCEPT \<Rightarrow>
          (case dp_is_matched_in_fwall_list df (fwall_head (iface out_port)) DP_FWALL_INGRESS None of
             None \<Rightarrow> None
           | Some (None, _) \<Rightarrow> Some DP_FWALL_DROP
           | Some (Some rule, _) \<Rightarrow> Some (if rule_action rule \<noteq> DP_FWALL_ACCEPT
               then DP_FWALL_DROP else DP_FWALL_ACCEPT)))"

section \<open>Requests\<close>

text \<open>The port is the one the interface identifier resolves to, if any.\<close>

definition dp_process_create_fwrule ::
  "bool \<Rightarrow> dp_fwall_rule \<Rightarrow> dp_port option \<Rightarrow> unit dp_result \<times> dp_port option" where
  "dp_process_create_fwrule zmalloc rule p = (case p of
       None \<Rightarrow> (GRPC_FAIL DP_GRPC_ERR_NO_VM, p)
     | Some port \<Rightarrow>
         if dp_get_firewall_rule (rule_id rule) port \<noteq> None then (GRPC_FAIL DP_GRPC_ERR_ALREADY_EXISTS, p)
         else if rule_action rule = DP_FWALL_DROP then (GRPC_FAIL DP_GRPC_ERR_NO_DROP_SUPPORT, p)
         else (case dp_add_firewall_rule zmalloc rule port of
             (Inl _, port) \<Rightarrow> (GRPC_FAIL DP_GRPC_ERR_OUT_OF_MEMORY, Some port)
           | (Inr _, port) \<Rightarrow> (DP_OK, Some port)))"

definition dp_process_get_fwrule :: "string \<Rightarrow> dp_port option \<Rightarrow> dp_fwall_rule dp_result" where
  "dp_process_get_fwrule rid p = (case p of
       None \<Rightarrow> GRPC_FAIL DP_GRPC_ERR_NO_VM
     | Some port \<Rightarrow> (case dp_get_firewall_rule rid port of
         None \<Rightarrow> GRPC_FAIL DP_GRPC_ERR_NOT_FOUND
       | Some rule \<Rightarrow> Inr rule))"

definition dp_process_delete_fwrule :: "string \<Rightarrow> dp_port option \<Rightarrow> unit dp_result \<times> dp_port option" where
  "dp_process_delete_fwrule rid p = (case p of
       None \<Rightarrow> (GRPC_FAIL DP_GRPC_ERR_NO_VM, p)
     | Some port \<Rightarrow> (case dp_delete_firewall_rule rid port of
         (Inl _, port) \<Rightarrow> (GRPC_FAIL DP_GRPC_ERR_NOT_FOUND, Some port)
       | (Inr _, port) \<Rightarrow> (DP_OK, Some port)))"

section \<open>Lemmas\<close>

definition fw_ok :: "dp_port option \<Rightarrow> bool" where
  "fw_ok p \<longleftrightarrow> (case p of None \<Rightarrow> True | Some port \<Rightarrow>
     let rules = fwall_head (iface port) in
     distinct (map rule_id rules) \<and> fwall_rule_count (iface port) = of_nat (length rules)
     \<and> (\<forall>rule\<in>set rules. rule_action rule = DP_FWALL_ACCEPT))"

definition fw_view :: "dp_port option \<Rightarrow> string \<rightharpoonup> dp_fwall_rule" where
  "fw_view p rid = (case p of None \<Rightarrow> None | Some port \<Rightarrow> dp_get_firewall_rule rid port)"

lemma set_fwall_simps [simp]:
  "fwall_head (iface (set_fwall rules count port)) = rules"
  "fwall_rule_count (iface (set_fwall rules count port)) = count"
  by (simp_all add: set_fwall_def)

lemma not_accept [simp]: "action \<noteq> DP_FWALL_ACCEPT \<longleftrightarrow> action = DP_FWALL_DROP"
  by (cases action) auto

lemma not_drop [simp]: "action \<noteq> DP_FWALL_DROP \<longleftrightarrow> action = DP_FWALL_ACCEPT"
  by (cases action) auto

lemma remove_rule_None: "remove_rule rid rules = None \<longleftrightarrow> rid \<notin> rule_id ` set rules"
  by (induction rules) auto

lemma remove_rule_Some:
  "remove_rule rid rules = Some rules' \<Longrightarrow> distinct (map rule_id rules) \<Longrightarrow>
   rid \<in> rule_id ` set rules \<and> rules' = filter (\<lambda>r. rule_id r \<noteq> rid) rules
   \<and> length rules = Suc (length rules')"
proof (induction rules arbitrary: rules')
  case (Cons rule rules)
  show ?case
  proof (cases "rule_id rule = rid")
    case True
    then have "\<forall>r\<in>set rules. rule_id r \<noteq> rid"
      using Cons.prems(2) by (metis distinct.simps(2) image_eqI list.simps(9) set_map)
    then have "filter (\<lambda>r. rule_id r \<noteq> rid) rules = rules" by (simp add: filter_id_conv)
    with True Cons.prems show ?thesis by auto
  next
    case False
    with Cons show ?thesis by auto
  qed
qed simp

interpretation fw: keyed_store fw_ok fw_view "dp_process_create_fwrule zmalloc"
  dp_process_delete_fwrule rule_id "\<lambda>rule. rule" "\<lambda>rid. rid" for zmalloc
proof
  fix p rule u p'
  assume ok: "fw_ok p" and c: "dp_process_create_fwrule zmalloc rule p = (Inr u, p')"
  then obtain port where port: "p = Some port" "dp_get_firewall_rule (rule_id rule) port = None"
    "rule_action rule = DP_FWALL_ACCEPT"
    "p' = Some (set_fwall (fwall_head (iface port) @ [rule]) (fwall_rule_count (iface port) + 1) port)"
    by (auto simp: dp_process_create_fwrule_def dp_add_firewall_rule_def
        split: option.splits if_splits)
  then have "rule_id rule \<notin> rule_id ` set (fwall_head (iface port))"
    by (auto simp: dp_get_firewall_rule_def find_None_iff)
  then have "fw_ok p'" using ok port(1,3,4) by (auto simp: fw_ok_def Let_def)
  moreover have "fw_view p' = (fw_view p)(rule_id rule \<mapsto> rule)"
    using port by (auto simp: fw_view_def dp_get_firewall_rule_def find_append fun_eq_iff
        split: option.splits)
  ultimately show "fw_ok p' \<and> fw_view p (rule_id rule) = None \<and> fw_view p' = (fw_view p)(rule_id rule \<mapsto> rule)"
    using port by (simp add: fw_view_def)
next
  fix p rule e p'
  assume "fw_ok p" "dp_process_create_fwrule zmalloc rule p = (Inl e, p')"
  then show "fw_ok p' \<and> fw_view p' = fw_view p"
    by (auto simp: dp_process_create_fwrule_def dp_add_firewall_rule_def
        split: option.splits if_splits)
next
  fix p rid u p'
  assume ok: "fw_ok p" and "dp_process_delete_fwrule rid p = (Inr u, p')"
  then obtain port rules where port: "p = Some port"
    "remove_rule rid (fwall_head (iface port)) = Some rules"
    "p' = Some (set_fwall rules (fwall_rule_count (iface port) - 1) port)"
    by (auto simp: dp_process_delete_fwrule_def dp_delete_firewall_rule_def split: option.splits)
  then have r: "rid \<in> rule_id ` set (fwall_head (iface port))"
    "rules = filter (\<lambda>r. rule_id r \<noteq> rid) (fwall_head (iface port))"
    "length (fwall_head (iface port)) = Suc (length rules)"
    using ok remove_rule_Some [OF port(2)] by (auto simp: fw_ok_def Let_def)
  then have "fw_ok p'" using ok port by (auto simp: fw_ok_def Let_def distinct_map_filter)
  moreover have "fw_view p' = (fw_view p)(rid := None)"
    using port r by (auto simp: fw_view_def dp_get_firewall_rule_def find_filter_other fun_eq_iff)
  moreover have "fw_view p rid \<noteq> None"
    using port r by (auto simp: fw_view_def dp_get_firewall_rule_def find_None_iff)
  ultimately show "fw_ok p' \<and> fw_view p rid \<noteq> None \<and> fw_view p' = (fw_view p)(rid := None)"
    by blast
next
  fix p rid e p'
  assume "fw_ok p" "dp_process_delete_fwrule rid p = (Inl e, p')"
  then show "fw_ok p' \<and> fw_view p' = fw_view p"
    by (auto simp: dp_process_delete_fwrule_def dp_delete_firewall_rule_def split: option.splits)
qed

text \<open>What the rules mean: the first rule of the direction that matches decides.\<close>

definition first_match :: "dp_flow \<Rightarrow> dp_fwall_direction \<Rightarrow> dp_fwall_rule list \<Rightarrow> dp_fwall_rule option" where
  "first_match df dir rules = find (\<lambda>rule. rule_dir rule = dir \<and> dp_is_rule_matching rule df) rules"

definition egress_verdict :: "dp_flow \<Rightarrow> dp_fwall_rule list \<Rightarrow> dp_fwall_action" where
  "egress_verdict df rules = (case first_match df DP_FWALL_EGRESS rules of
       Some rule \<Rightarrow> rule_action rule
     | None \<Rightarrow> if \<exists>rule\<in>set rules. rule_dir rule = DP_FWALL_EGRESS then DP_FWALL_DROP else DP_FWALL_ACCEPT)"

definition ingress_verdict :: "dp_flow \<Rightarrow> dp_fwall_rule list \<Rightarrow> dp_fwall_action" where
  "ingress_verdict df rules = (case first_match df DP_FWALL_INGRESS rules of
       Some rule \<Rightarrow> rule_action rule | None \<Rightarrow> DP_FWALL_DROP)"

text \<open>An egress rule stands before the first matching ingress rule.\<close>

fun egress_first :: "dp_flow \<Rightarrow> dp_fwall_rule list \<Rightarrow> bool" where
  "egress_first df [] = False"
| "egress_first df (rule # rules) = (rule_dir rule = DP_FWALL_EGRESS
     \<or> \<not> dp_is_rule_matching rule df \<and> egress_first df rules)"

lemma matched_with_counter:
  assumes "unat c + length rules < 2 ^ 32"
  shows "\<exists>c'. dp_is_matched_in_fwall_list df rules DP_FWALL_EGRESS (Some c) =
      Some (first_match df DP_FWALL_EGRESS rules, Some c')
    \<and> (first_match df DP_FWALL_EGRESS rules = None \<longrightarrow>
        (c' = 0 \<longleftrightarrow> c = 0 \<and> (\<forall>rule\<in>set rules. rule_dir rule \<noteq> DP_FWALL_EGRESS)))"
  using assms
proof (induction rules arbitrary: c)
  case (Cons rule rules)
  have inc: "unat (c + 1) = unat c + 1"
    using Cons.prems by (intro unat_inc) simp
  then have "c + 1 \<noteq> 0" by (metis add_is_0 unat_0 zero_neq_one)
  moreover have "unat (c + 1) + length rules < 2 ^ 32" "unat c + length rules < 2 ^ 32"
    using Cons.prems inc by simp_all
  ultimately show ?case
    using Cons.IH [of "c + 1"] Cons.IH [of c]
    by (cases "rule_dir rule") (auto simp: first_match_def)
qed (auto simp: first_match_def)

lemma egress_action_eq:
  "length rules < 2 ^ 32 \<Longrightarrow> dp_get_egress_action df rules = Some (egress_verdict df rules)"
  using matched_with_counter [of 0 rules df]
  by (auto simp: dp_get_egress_action_def egress_verdict_def split: option.splits)

lemma matched_without_counter:
  "dp_is_matched_in_fwall_list df rules DP_FWALL_INGRESS None =
     (if egress_first df rules then None else Some (first_match df DP_FWALL_INGRESS rules, None))"
proof (induction rules)
  case (Cons rule rules)
  then show ?case by (cases "rule_dir rule") (auto simp: first_match_def)
qed (simp add: first_match_def)

section \<open>Properties\<close>

text \<open>C8: the firewall decides by first match, except that it can crash.  For
  traffic leaving through a physical port the verdict is that of the first
  matching egress rule of the sender, or the default (accept without egress
  rules, drop with some).  For traffic to an interface, a sender that may not
  send is dropped, and otherwise the first matching ingress rule of the receiver
  decides, with drop as the default; but if an egress rule of the receiver stands
  before that rule, the null counter is dereferenced.\<close>

theorem firewall_first_match:
  assumes "length (fwall_head (iface in_port)) < 2 ^ 32"
  shows "dp_get_firewall_action df in_port out_port =
    (let sender = (if is_pf in_port then DP_FWALL_ACCEPT else egress_verdict df (fwall_head (iface in_port)));
         receiver = fwall_head (iface out_port) in
     if is_pf out_port then Some (egress_verdict df (fwall_head (iface in_port)))
     else if sender = DP_FWALL_DROP then Some DP_FWALL_DROP
     else if egress_first df receiver then None
     else Some (ingress_verdict df receiver))"
  using assms
  by (auto simp: dp_get_firewall_action_def egress_action_eq matched_without_counter
      ingress_verdict_def Let_def split: option.splits dp_fwall_action.splits)

text \<open>Concrete ports, rules and packets.\<close>

definition ex_iface :: "dp_fwall_rule list \<Rightarrow> dp_port_iface" where
  "ex_iface rules = \<lparr> fwall_head = rules, fwall_rule_count = of_nat (length rules),
     if_cfg = \<lparr> cfg_own_ip = 0x0a000001, cfg_neigh_ip = 0, cfg_ip_depth = 32, cfg_own_ipv6 = dp_empty_ipv6,
       cfg_ip6_depth = 128, cfg_pxe_ip = IPADDR4 0, cfg_pxe_str = [], cfg_hostname = [] \<rparr>,
     if_vni = 100, if_encrypt = False, if_id = ''vm1'', if_ul_ipv6 = dp_empty_ipv6, if_nat_ip = 0,
     if_nat_port_range = (0, 0), if_ready = True, if_arp_done = True, if_total_flow_rate_cap = 0,
     if_public_flow_rate_cap = 0, if_hostname_len = 0 \<rparr>"

definition ex_port :: "bool \<Rightarrow> dp_fwall_rule list \<Rightarrow> dp_port" where
  "ex_port pf rules = \<lparr> is_pf = pf, port_id = 1, port_name = [], link_status = True, allocated = True,
     peer_pf_port_id = 0, own_mac = 1, neigh_mac = 2, iface = ex_iface rules, captured = False \<rparr>"

definition ex_rule :: "uint8 \<Rightarrow> uint32 \<Rightarrow> uint32 \<Rightarrow> dp_fwall_direction \<Rightarrow> dp_fwall_rule" where
  "ex_rule proto w0 w1 dir = \<lparr> rule_id = ''r1'', rule_src_ip = IPADDR4 0x0a000005, rule_dest_ip = IPADDR4 0x0a000001,
     rule_src_mask = \<lparr> mask_ip6 = dp_empty_ipv6, mask_ip4 = 0xffffffff \<rparr>,
     rule_dest_mask = \<lparr> mask_ip6 = dp_empty_ipv6, mask_ip4 = 0xffffffff \<rparr>,
     rule_priority = 0, rule_protocol = proto,
     rule_filter = \<lparr> src_port_lower = w0, src_port_upper = w1, dst_port_lower = 0, dst_port_upper = 0 \<rparr>,
     rule_action = DP_FWALL_ACCEPT, rule_dir = dir \<rparr>"

definition ex_icmp :: "ipv4 \<Rightarrow> uint16 \<Rightarrow> uint16 \<Rightarrow> dp_flow" where
  "ex_icmp src type_code ident = (dp_extract_ipv4_header
     \<lparr> ip4_src_addr = src, ip4_dst_addr = 0x0a000001, ip4_next_proto_id = IPPROTO_ICMP \<rparr> dp_init_flow_ptr)
     \<lparr> df_l3_type := RTE_ETHER_TYPE_IPV4, df_l4_dst_port := type_code, df_l4_src_port := ident \<rparr>"

theorem firewall_first_match_witness:
  "dp_get_firewall_action (ex_icmp 0x0a000005 0x0800 1) (ex_port True [])
     (ex_port False [ex_rule IPPROTO_ICMP 8 0 DP_FWALL_EGRESS, ex_rule IPPROTO_ICMP 8 0 DP_FWALL_INGRESS]) = None
   \<and> dp_get_firewall_action (ex_icmp 0x0a000005 0x0800 1) (ex_port True [])
     (ex_port False [ex_rule IPPROTO_ICMP 8 0 DP_FWALL_INGRESS]) = Some DP_FWALL_ACCEPT"
  using firewall_first_match [of "ex_port True []"]
  by (simp add: ex_port_def ex_iface_def ex_rule_def ex_icmp_def dp_extract_ipv4_header_def
      ingress_verdict_def first_match_def dp_is_rule_matching_def filter_icmp_type_def
      filter_icmp_code_def df_icmp_type_def df_icmp_code_def DP_FWALL_MATCH_ANY_def Let_def)

text \<open>the ICMP arm of the matcher.  An ICMP packet whose type and code pass
  the filter matches the rule whatever its addresses are, because the address
  check is never reached; and a packet whose type the filter excludes can still
  match, because the comparison then goes on with the identifier in place of a
  source port and the type and code of the filter in place of a port range.  For
  TCP and UDP a match is the conjunction of protocol, both address prefixes and
  both port ranges.\<close>

theorem rule_matching_arms:
  assumes "df_l3_type df = RTE_ETHER_TYPE_IPV4" "rule_src_ip rule = IPADDR4 src" "rule_dest_ip rule = IPADDR4 dest"
  shows "(df_l4_type df = IPPROTO_ICMP \<longrightarrow>
      rule_protocol rule = IPPROTO_ICMP \<or> rule_protocol rule = DP_FWALL_MATCH_ANY_PROTOCOL \<longrightarrow>
      filter_icmp_type (rule_filter rule) \<in> {DP_FWALL_MATCH_ANY, ucast (df_icmp_type df)} \<longrightarrow>
      filter_icmp_code (rule_filter rule) \<in> {DP_FWALL_MATCH_ANY, ucast (df_icmp_code df)} \<longrightarrow>
      dp_is_rule_matching rule (df\<lparr> df_src := any_src, df_dst := any_dst \<rparr>))
    \<and> (df_l4_type df = IPPROTO_TCP \<or> df_l4_type df = IPPROTO_UDP \<longrightarrow>
      (dp_is_rule_matching rule df \<longleftrightarrow>
        rule_protocol rule \<in> {df_l4_type df, DP_FWALL_MATCH_ANY_PROTOCOL}
        \<and> df_src_addr df AND mask_ip4 (rule_src_mask rule) = src AND mask_ip4 (rule_src_mask rule)
        \<and> df_dst_addr df AND mask_ip4 (rule_dest_mask rule) = dest AND mask_ip4 (rule_dest_mask rule)
        \<and> port_in_range (df_l4_src_port df) (src_port_lower (rule_filter rule)) (src_port_upper (rule_filter rule))
        \<and> port_in_range (df_l4_dst_port df) (dst_port_lower (rule_filter rule)) (dst_port_upper (rule_filter rule))))
    \<and> dp_is_rule_matching (ex_rule IPPROTO_ICMP 8 DP_FWALL_MATCH_ANY DP_FWALL_INGRESS) (ex_icmp 0x0a000005 0 9)"
proof (intro conjI impI)
  show "dp_is_rule_matching rule (df\<lparr> df_src := any_src, df_dst := any_dst \<rparr>)"
    if "df_l4_type df = IPPROTO_ICMP"
      "rule_protocol rule = IPPROTO_ICMP \<or> rule_protocol rule = DP_FWALL_MATCH_ANY_PROTOCOL"
      "filter_icmp_type (rule_filter rule) \<in> {DP_FWALL_MATCH_ANY, ucast (df_icmp_type df)}"
      "filter_icmp_code (rule_filter rule) \<in> {DP_FWALL_MATCH_ANY, ucast (df_icmp_code df)}"
    using assms that
    by (auto simp: dp_is_rule_matching_def Let_def df_icmp_type_def df_icmp_code_def)
  show "dp_is_rule_matching rule df \<longleftrightarrow>
        rule_protocol rule \<in> {df_l4_type df, DP_FWALL_MATCH_ANY_PROTOCOL}
        \<and> df_src_addr df AND mask_ip4 (rule_src_mask rule) = src AND mask_ip4 (rule_src_mask rule)
        \<and> df_dst_addr df AND mask_ip4 (rule_dest_mask rule) = dest AND mask_ip4 (rule_dest_mask rule)
        \<and> port_in_range (df_l4_src_port df) (src_port_lower (rule_filter rule)) (src_port_upper (rule_filter rule))
        \<and> port_in_range (df_l4_dst_port df) (dst_port_lower (rule_filter rule)) (dst_port_upper (rule_filter rule))"
    if "df_l4_type df = IPPROTO_TCP \<or> df_l4_type df = IPPROTO_UDP"
    using assms that by (auto simp: dp_is_rule_matching_def Let_def)
  show "dp_is_rule_matching (ex_rule IPPROTO_ICMP 8 DP_FWALL_MATCH_ANY DP_FWALL_INGRESS) (ex_icmp 0x0a000005 0 9)"
    by (simp add: dp_is_rule_matching_def Let_def ex_rule_def ex_icmp_def dp_extract_ipv4_header_def
        filter_icmp_type_def filter_icmp_code_def df_icmp_type_def df_icmp_code_def DP_FWALL_MATCH_ANY_def
        df_src_addr_def df_dst_addr_def port_in_range_def)
qed

theorem rule_matching_arms_witness:
  "dp_is_rule_matching (ex_rule IPPROTO_ICMP 8 0 DP_FWALL_INGRESS)
     ((ex_icmp 0x0a000005 0x0800 1)\<lparr> df_src := dp_empty_ipv6, df_dst := dp_empty_ipv6 \<rparr>)"
  using rule_matching_arms [of "ex_icmp 0x0a000005 0x0800 1" "ex_rule IPPROTO_ICMP 8 0 DP_FWALL_INGRESS"]
  by (simp add: ex_rule_def ex_icmp_def dp_extract_ipv4_header_def filter_icmp_type_def
      filter_icmp_code_def df_icmp_type_def df_icmp_code_def)

text \<open>C32: the rules of an interface are a map from identifiers to accepting
  rules.  A created rule is returned by its identifier, creating another with
  the same identifier is refused, deleting it brings back the rules as they
  were, and neither touches any other rule; the counter is the number of rules.\<close>

theorem fwrule_store:
  assumes ok: "fw_ok p" and created: "dp_process_create_fwrule zmalloc rule p = (DP_OK, p1)"
  shows "fw_ok p1
    \<and> dp_process_get_fwrule (rule_id rule) p1 = Inr rule
    \<and> (rule_id other = rule_id rule \<longrightarrow>
        fst (dp_process_create_fwrule zmalloc' other p1) = GRPC_FAIL DP_GRPC_ERR_ALREADY_EXISTS)
    \<and> (rid \<noteq> rule_id rule \<longrightarrow> dp_process_get_fwrule rid p1 = dp_process_get_fwrule rid p)
    \<and> (\<exists>p2. dp_process_delete_fwrule (rule_id rule) p1 = (DP_OK, p2) \<and> fw_view p2 = fw_view p)"
proof -
  note c = fw.put_done [OF ok created]
  obtain port where p: "p = Some port"
    using created by (cases p) (auto simp: dp_process_create_fwrule_def)
  obtain port1 where p1: "p1 = Some port1"
    using created by (auto simp: p dp_process_create_fwrule_def split: if_splits prod.splits sum.splits)
  have "fw_view p1 (rule_id rule) = Some rule" using c by simp
  then have got: "dp_get_firewall_rule (rule_id rule) port1 = Some rule"
    by (simp add: p1 fw_view_def)
  obtain res p2 where d: "dp_process_delete_fwrule (rule_id rule) p1 = (res, p2)" by fastforce
  have "remove_rule (rule_id rule) (fwall_head (iface port1)) \<noteq> None"
    using got unfolding remove_rule_None dp_get_firewall_rule_def find_Some_iff by (metis image_eqI nth_mem)
  with d have res: "res = DP_OK"
    by (auto simp: p1 dp_process_delete_fwrule_def dp_delete_firewall_rule_def)
  then have restored: "fw_view p2 = fw_view p"
    using fw.put_remove_restores [OF ok created, of "rule_id rule" "()" p2] d by simp
  have "rid \<noteq> rule_id rule \<Longrightarrow> fw_view p1 rid = fw_view p rid" using c by simp
  then have others: "rid \<noteq> rule_id rule \<Longrightarrow> dp_get_firewall_rule rid port1 = dp_get_firewall_rule rid port"
    by (simp add: p p1 fw_view_def)
  show ?thesis
  proof (intro conjI impI)
    show "fw_ok p1" using c by blast
    show "\<exists>p2. dp_process_delete_fwrule (rule_id rule) p1 = (DP_OK, p2) \<and> fw_view p2 = fw_view p"
      using d res restored by blast
  qed (use got others in \<open>simp_all add: p p1 dp_process_get_fwrule_def dp_process_create_fwrule_def\<close>)
qed

theorem fwrule_store_witness:
  "dp_process_get_fwrule ''r1'' (snd (dp_process_create_fwrule True
     (ex_rule IPPROTO_ICMP 8 0 DP_FWALL_INGRESS) (Some (ex_port False [])))) =
   Inr (ex_rule IPPROTO_ICMP 8 0 DP_FWALL_INGRESS)"
  using fwrule_store [of "Some (ex_port False [])" True "ex_rule IPPROTO_ICMP 8 0 DP_FWALL_INGRESS"
      "snd (dp_process_create_fwrule True (ex_rule IPPROTO_ICMP 8 0 DP_FWALL_INGRESS) (Some (ex_port False [])))"]
  by (simp add: fw_ok_def ex_port_def ex_iface_def ex_rule_def dp_process_create_fwrule_def
      dp_add_firewall_rule_def dp_get_firewall_rule_def)

end
