(* ===== verification/Dp_Maglev.thy ===== *)
theory Dp_Maglev
  imports Dp_Types
begin

text \<open>
  Maglev consistent hashing for load balancers (\<open>src/dp_maglev.c\<close>,
  \<open>include/dp_lb.h\<close>).  The arrays of \<open>lb_value\<close> are lists of their fixed length,
  and the loops recursions over their index; the two allocations of a table
  computation are arguments.  The outer loop of the population has no bound of
  its own, hence \<open>None\<close> where it would not return.
\<close>

definition DP_LB_MAX_IPS_PER_VIP :: nat where "DP_LB_MAX_IPS_PER_VIP = 64"
definition DP_LB_MAGLEV_LOOKUP_SIZE :: nat where "DP_LB_MAGLEV_LOOKUP_SIZE = 503"
definition DP_LB_MAX_PORTS :: nat where "DP_LB_MAX_PORTS = 16"
definition DP_MURMURHASH2_MAGIC :: uint32 where "DP_MURMURHASH2_MAGIC = 0x5bd1e995"
definition DP_DJB_HASH_MAGIC :: uint32 where "DP_DJB_HASH_MAGIC = 5381"
definition DP_MAGLEV_POS_FREE :: int where "DP_MAGLEV_POS_FREE = - 1"

record lb_port =
  lbp_protocol :: uint8
  lbp_port :: uint16

record lb_value =
  lb_id :: string
  lb_ports :: "lb_port list"
  back_end_ips :: "dp_ipv6 list"
  maglev_hash :: "int list"
  back_end_cnt :: nat
  lb_ul_addr :: dp_ipv6

section \<open>Hashes of an address\<close>

definition word_bytes :: "uint64 \<Rightarrow> uint8 list" where
  "word_bytes w = map (\<lambda>i. ucast (drop_bit (56 - 8 * i) w)) [0..<8]"

definition ipv6_bytes :: "dp_ipv6 \<Rightarrow> uint8 list" where
  "ipv6_bytes ip = word_bytes (ip6_prefix ip) @ word_bytes (ip6_suffix ip)"

fun murmur_blocks :: "uint8 list \<Rightarrow> uint32 \<Rightarrow> uint32" where
  "murmur_blocks (b0 # b1 # b2 # b3 # data) h =
     (let k = ucast b0 OR push_bit 8 (ucast b1) OR push_bit 16 (ucast b2) OR push_bit 24 (ucast b3);
          k = k * DP_MURMURHASH2_MAGIC;
          k = k XOR drop_bit 24 k;
          k = k * DP_MURMURHASH2_MAGIC in
      murmur_blocks data ((h * DP_MURMURHASH2_MAGIC) XOR k))"
| "murmur_blocks [b0, b1, b2] h =
     (h XOR push_bit 16 (ucast b2) XOR push_bit 8 (ucast b1) XOR ucast b0) * DP_MURMURHASH2_MAGIC"
| "murmur_blocks [b0, b1] h = (h XOR push_bit 8 (ucast b1) XOR ucast b0) * DP_MURMURHASH2_MAGIC"
| "murmur_blocks [b0] h = (h XOR ucast b0) * DP_MURMURHASH2_MAGIC"
| "murmur_blocks [] h = h"

definition dp_murmur_hash2 :: "dp_ipv6 \<Rightarrow> uint32" where
  "dp_murmur_hash2 ip =
     (let h = murmur_blocks (ipv6_bytes ip) (0 XOR 16);
          h = h XOR drop_bit 13 h;
          h = h * DP_MURMURHASH2_MAGIC in
      h XOR drop_bit 15 h)"

definition dp_djb_hash :: "dp_ipv6 \<Rightarrow> uint32" where
  "dp_djb_hash ip =
     (fold (\<lambda>b hash. (push_bit 5 hash + hash) + ucast b) (ipv6_bytes ip) DP_DJB_HASH_MAGIC)
     AND NOT (push_bit 31 1)"

section \<open>The lookup table\<close>

definition maglev_offset :: "dp_ipv6 \<Rightarrow> nat" where
  "maglev_offset ip = unat (dp_murmur_hash2 ip) mod DP_LB_MAGLEV_LOOKUP_SIZE"

definition maglev_skip :: "dp_ipv6 \<Rightarrow> nat" where
  "maglev_skip ip = unat (dp_djb_hash ip) mod (DP_LB_MAGLEV_LOOKUP_SIZE - 1) + 1"

text \<open>The preference lists of all backends, one after another.\<close>

definition dp_maglev_permutation :: "bool \<Rightarrow> lb_value \<Rightarrow> nat list option" where
  "dp_maglev_permutation zmalloc lbval =
     (if \<not> zmalloc then None
      else Some (concat (map (\<lambda>i. map (\<lambda>j. (maglev_offset (back_end_ips lbval ! i)
              + j * maglev_skip (back_end_ips lbval ! i)) mod DP_LB_MAGLEV_LOOKUP_SIZE)
            [0..<DP_LB_MAGLEV_LOOKUP_SIZE]) [0..<back_end_cnt lbval])))"

text \<open>The population works on the table, the next preference of every backend
  and the number of filled positions.\<close>

type_synonym maglev_state = "int list \<times> nat list \<times> nat"

function claim_position :: "nat list \<Rightarrow> nat \<Rightarrow> nat \<Rightarrow> maglev_state \<Rightarrow> bool \<times> maglev_state" where
  "claim_position permutation i j (table, next, num) =
     (if j < DP_LB_MAGLEV_LOOKUP_SIZE then
        (let pos = permutation ! (i * DP_LB_MAGLEV_LOOKUP_SIZE + j);
             next = next[i := next ! i + 1] in
         if table ! pos = DP_MAGLEV_POS_FREE then (True, table[pos := int i], next, num + 1)
         else claim_position permutation i (j + 1) (table, next, num))
      else (False, table, next, num))"
  by pat_completeness auto
termination
  by (relation "measure (\<lambda>(permutation, i, j, st). DP_LB_MAGLEV_LOOKUP_SIZE - j)") auto

text \<open>\<open>False\<close> when the table is full.\<close>

function populate_from :: "nat \<Rightarrow> nat list \<Rightarrow> nat \<Rightarrow> maglev_state \<Rightarrow> bool \<times> maglev_state" where
  "populate_from cnt permutation i st =
     (if i < cnt then
        (case claim_position permutation i (fst (snd st) ! i) st of
          (claimed, st') \<Rightarrow>
            if claimed \<and> snd (snd st') = DP_LB_MAGLEV_LOOKUP_SIZE then (False, st')
            else populate_from cnt permutation (i + 1) st')
      else (True, st))"
  by pat_completeness auto
termination
  by (relation "measure (\<lambda>(cnt, permutation, i, st). cnt - i)") auto

declare claim_position.simps [simp del] populate_from.simps [simp del]

definition dp_maglev_populate_iteration :: "nat \<Rightarrow> nat list \<Rightarrow> maglev_state \<Rightarrow> bool \<times> maglev_state" where
  "dp_maglev_populate_iteration cnt permutation st = populate_from cnt permutation 0 st"

partial_function (option) populate_loop :: "nat \<Rightarrow> nat list \<Rightarrow> maglev_state \<Rightarrow> maglev_state option" where
  "populate_loop cnt permutation st =
     (let it = dp_maglev_populate_iteration cnt permutation st in
      if fst it then populate_loop cnt permutation (snd it) else Some (snd it))"

text \<open>\<open>None\<close>: the loop does not return.\<close>

definition dp_maglev_populate ::
  "bool \<Rightarrow> nat list \<Rightarrow> lb_value \<Rightarrow> (unit dp_result \<times> lb_value) option" where
  "dp_maglev_populate zmalloc permutation lbval =
     (if \<not> zmalloc then Some (Inl DP_ERROR, lbval)
      else case populate_loop (back_end_cnt lbval) permutation
          (replicate DP_LB_MAGLEV_LOOKUP_SIZE DP_MAGLEV_POS_FREE, replicate (back_end_cnt lbval) 0, 0) of
        None \<Rightarrow> None
      | Some (table, _, _) \<Rightarrow> Some (DP_OK, lbval\<lparr> maglev_hash :=
          map (\<lambda>i. if table ! i = DP_MAGLEV_POS_FREE then int (i mod back_end_cnt lbval) else table ! i)
            [0..<DP_LB_MAGLEV_LOOKUP_SIZE] \<rparr>))"

definition dp_maglev_calc_hash_lookup_table ::
  "bool \<Rightarrow> bool \<Rightarrow> lb_value \<Rightarrow> (unit dp_result \<times> lb_value) option" where
  "dp_maglev_calc_hash_lookup_table zmalloc_perm zmalloc_next lbval =
     (case dp_maglev_permutation zmalloc_perm lbval of
       None \<Rightarrow> Some (Inl DP_ERROR, lbval)
     | Some permutation \<Rightarrow> dp_maglev_populate zmalloc_next permutation lbval)"

section \<open>Backends\<close>

fun bytes_greater :: "uint8 list \<Rightarrow> uint8 list \<Rightarrow> bool" where
  "bytes_greater (a # as) (b # bs) = (if a < b then False else if a > b then True else bytes_greater as bs)"
| "bytes_greater _ _ = False"

definition dp_is_ipv6_greater :: "dp_ipv6 \<Rightarrow> dp_ipv6 \<Rightarrow> bool" where
  "dp_is_ipv6_greater ip1 ip2 = bytes_greater (ipv6_bytes ip1) (ipv6_bytes ip2)"

fun shift_up :: "'a list \<Rightarrow> nat \<Rightarrow> nat \<Rightarrow> 'a list" where
  "shift_up ips start_pos 0 = ips"
| "shift_up ips start_pos (Suc i) =
     (if Suc i > start_pos then shift_up (ips[Suc i := ips ! i]) start_pos i else ips)"

function shift_down :: "'a list \<Rightarrow> nat \<Rightarrow> nat \<Rightarrow> 'a list" where
  "shift_down ips i end_pos =
     (if i < end_pos then shift_down (ips[i := ips ! (i + 1)]) (i + 1) end_pos else ips)"
  by pat_completeness auto
termination
  by (relation "measure (\<lambda>(ips, i, end_pos). end_pos - i)") auto

declare shift_down.simps [simp del]

definition dp_shift_back_end_ips :: "dp_ipv6 list \<Rightarrow> nat \<Rightarrow> nat \<Rightarrow> bool \<Rightarrow> dp_ipv6 list" where
  "dp_shift_back_end_ips ips start_pos end_pos up =
     (if up then shift_up ips start_pos end_pos else shift_down ips start_pos end_pos)"

definition dp_add_maglev_backend ::
  "bool \<Rightarrow> bool \<Rightarrow> dp_ipv6 \<Rightarrow> lb_value \<Rightarrow> (unit dp_result \<times> lb_value) option" where
  "dp_add_maglev_backend zmalloc_perm zmalloc_next back_ip lbval =
     (let cnt = back_end_cnt lbval in
      if cnt \<ge> DP_LB_MAX_IPS_PER_VIP then Some (Inl DP_ERROR, lbval)
      else
        let insert_pos = first_index (\<lambda>ip. dp_is_ipv6_greater ip back_ip) (take cnt (back_end_ips lbval));
            ips = dp_shift_back_end_ips (back_end_ips lbval) insert_pos cnt True;
            ips = ips[insert_pos := back_ip] in
        dp_maglev_calc_hash_lookup_table zmalloc_perm zmalloc_next
          (lbval\<lparr> back_end_ips := ips, back_end_cnt := cnt + 1 \<rparr>))"

definition dp_delete_maglev_backend ::
  "bool \<Rightarrow> bool \<Rightarrow> dp_ipv6 \<Rightarrow> lb_value \<Rightarrow> (unit dp_result \<times> lb_value) option" where
  "dp_delete_maglev_backend zmalloc_perm zmalloc_next back_ip lbval =
     (let cnt = back_end_cnt lbval;
          match = first_index (\<lambda>ip. dp_ipv6_match ip back_ip) (take cnt (back_end_ips lbval)) in
      if match \<ge> cnt then Some (GRPC_FAIL DP_GRPC_ERR_NOT_FOUND, lbval)
      else
        let ips = dp_shift_back_end_ips (back_end_ips lbval) match (cnt - 1) False;
            ips = ips[cnt - 1 := dp_empty_ipv6];
            lbval = lbval\<lparr> back_end_ips := ips, back_end_cnt := cnt - 1 \<rparr> in
        if cnt - 1 = 0 then Some (DP_OK, lbval)
        else case dp_maglev_calc_hash_lookup_table zmalloc_perm zmalloc_next lbval of
          None \<Rightarrow> None
        | Some (Inl _, lbval) \<Rightarrow> Some (GRPC_FAIL DP_GRPC_ERR_BACKIP_DEL, lbval)
        | Some (Inr _, lbval) \<Rightarrow> Some (DP_OK, lbval))"

section \<open>Preference lists are permutations\<close>

lemma size_503: "DP_LB_MAGLEV_LOOKUP_SIZE = 503"
  by (simp add: DP_LB_MAGLEV_LOOKUP_SIZE_def)

lemma small_divisor_503:
  fixes d :: nat
  assumes "d dvd 503" "d \<le> 22"
  shows "d = 1"
proof -
  have "d \<noteq> 0" using assms(1) by (rule contrapos_pn) simp
  hence "d \<in> {1, 2, 3, 4, 5, 6, 7, 8, 9, 10, 11, 12, 13, 14, 15, 16, 17, 18, 19, 20, 21, 22}"
    using assms(2) by auto presburger
  thus ?thesis using assms(1) by auto
qed

lemma divisor_503:
  fixes d :: nat
  assumes "d dvd 503"
  shows "d = 1 \<or> d = 503"
proof (cases "d \<le> 22")
  case True
  thus ?thesis using small_divisor_503 assms by blast
next
  case False
  obtain e where e: "503 = d * e" using assms by (rule dvdE)
  have "e \<le> 22"
  proof (rule ccontr)
    assume "\<not> e \<le> 22"
    hence "23 * 23 \<le> d * e" using False by (intro mult_le_mono) auto
    thus False using e by simp
  qed
  moreover have "e dvd 503" unfolding e by simp
  ultimately have "e = 1" using small_divisor_503 by blast
  thus ?thesis using e by simp
qed

lemma coprime_503:
  fixes s :: nat
  assumes "0 < s" "s < 503"
  shows "coprime 503 s"
proof -
  have "gcd 503 s dvd 503" by simp
  moreover have "gcd 503 s \<le> s" using assms(1) by (simp add: gcd_le2_nat)
  ultimately have "gcd 503 s = 1" using divisor_503[of "gcd 503 s"] assms(2) by auto
  thus ?thesis by (simp add: coprime_iff_gcd_eq_1)
qed

lemma stride_inj:
  fixes s :: nat
  assumes s: "0 < s" "s < 503"
  shows "inj_on (\<lambda>j. (c + j * s) mod 503) {0..<503}"
proof -
  have le: "j = k" if "(c + j * s) mod 503 = (c + k * s) mod 503" "j \<le> k" "k < 503" for j k
  proof -
    have "503 dvd (c + k * s) - (c + j * s)"
      using that by (intro mod_eq_dvd_iff_nat[THEN iffD1]) auto
    hence "503 dvd (k - j) * s" by (simp add: diff_mult_distrib)
    hence "503 dvd k - j" using coprime_503[OF s] by (simp add: coprime_dvd_mult_left_iff)
    thus "j = k" using that by (auto dest: dvd_imp_le)
  qed
  show ?thesis
    by (rule inj_onI) (metis atLeastLessThan_iff le nle_le)
qed

lemma maglev_skip_range: "0 < maglev_skip ip" "maglev_skip ip < 503"
  using pos_mod_bound[of 502 "int (unat (dp_djb_hash ip))"]
  by (auto simp: maglev_skip_def size_503) 

definition preference :: "lb_value \<Rightarrow> nat \<Rightarrow> nat \<Rightarrow> nat" where
  "preference lbval i j = (maglev_offset (back_end_ips lbval ! i)
     + j * maglev_skip (back_end_ips lbval ! i)) mod 503"

lemma preference_range: "preference lbval i j < 503"
  by (simp add: preference_def)

lemma preference_onto: "preference lbval i ` {0..<503} = {0..<503}"
proof (rule endo_inj_surj)
  show "inj_on (preference lbval i) {0..<503}"
    unfolding preference_def by (rule stride_inj) (rule maglev_skip_range)+
qed (auto simp: preference_range)

lemma nth_concat_blocks:
  assumes "i < m" "j < n"
  shows "concat (map (\<lambda>i. map (f i) [0..<n]) [0..<m]) ! (i * n + j) = f i j"
  using assms
proof (induction m)
  case (Suc m)
  have len: "length (concat (map (\<lambda>i. map (f i) [0..<n]) [0..<m])) = m * n"
    by (simp add: length_concat comp_def sum_list_triv)
  show ?case
  proof (cases "i < m")
    case True
    have "i * n + j < Suc i * n" using Suc.prems by simp
    also have "\<dots> \<le> m * n" using True by (intro mult_le_mono) auto
    finally show ?thesis using Suc True by (simp add: nth_append len)
  next
    case False
    hence "i = m" using Suc.prems by simp
    thus ?thesis using Suc.prems by (simp add: nth_append len)
  qed
qed simp

lemma permutation_nth:
  assumes "dp_maglev_permutation a lbval = Some permutation" "i < back_end_cnt lbval" "j < 503"
  shows "permutation ! (i * 503 + j) = preference lbval i j"
  using assms
  by (auto simp: dp_maglev_permutation_def size_503 preference_def nth_concat_blocks split: if_splits)

section \<open>The population of the table\<close>

lemma count_list_update:
  assumes "p < length xs" "xs ! p = u" "u \<noteq> v"
  shows "count_list (xs[p := v]) y + (if y = u then 1 else 0) = count_list xs y + (if y = v then 1 else 0)"
  using assms
proof (induction xs arbitrary: p)
  case (Cons x xs)
  thus ?case by (cases p) auto
qed simp

text \<open>The table is partly filled, \<open>num\<close> counts the filled positions, and every
  backend has passed over filled positions only.\<close>

definition populated :: "nat \<Rightarrow> (nat \<Rightarrow> nat \<Rightarrow> nat) \<Rightarrow> maglev_state \<Rightarrow> bool" where
  "populated n P st \<longleftrightarrow> (case st of (table, next, num) \<Rightarrow>
     length table = 503 \<and> length next = n \<and> num + count_list table (- 1) = 503
     \<and> set table \<subseteq> insert (- 1) (int ` {0..<n})
     \<and> (\<forall>i < n. \<forall>j < next ! i. table ! P i j \<noteq> - 1))"

text \<open>Every backend below \<open>i\<close> has \<open>r + 1\<close> positions, the others \<open>r\<close>.\<close>

definition dealt :: "nat \<Rightarrow> nat \<Rightarrow> nat \<Rightarrow> int list \<Rightarrow> bool" where
  "dealt n r i table \<longleftrightarrow> (\<forall>k < n. count_list table (int k) = (if k < i then r + 1 else r))"

definition preference_lists :: "nat \<Rightarrow> nat list \<Rightarrow> (nat \<Rightarrow> nat \<Rightarrow> nat) \<Rightarrow> bool" where
  "preference_lists n permutation P \<longleftrightarrow>
     (\<forall>i < n. (\<forall>j < 503. permutation ! (i * 503 + j) = P i j) \<and> P i ` {0..<503} = {0..<503})"

lemma preference_free:
  assumes "preference_lists n permutation P" "populated n P (table, next, num)" "num < 503" "i < n"
  shows "\<exists>j. next ! i \<le> j \<and> j < 503 \<and> table ! P i j = - 1"
proof -
  have "count_list table (- 1) \<noteq> 0" using assms(2,3) by (simp add: populated_def)
  hence "- 1 \<in> set table" by (metis count_notin)
  then obtain p where p: "p < 503" "table ! p = - 1"
    using assms(2) by (auto simp: populated_def in_set_conv_nth)
  have "p \<in> P i ` {0..<503}" using assms(1,4) p(1) by (simp add: preference_lists_def)
  then obtain j where j: "j < 503" "p = P i j" by auto
  have "\<not> j < next ! i" using assms(2,4) p(2) j(2) unfolding populated_def by blast
  thus ?thesis using j p(2) by (intro exI[of _ j]) simp
qed

lemma claim_position_skip:
  assumes PL: "preference_lists n permutation P" and i: "i < n"
    and inv: "populated n P (table, next, num)" and taken: "table ! P i (next ! i) \<noteq> - 1"
  shows "populated n P (table, next[i := next ! i + 1], num)"
  using inv taken i by (auto simp: populated_def nth_list_update less_Suc_eq)

lemma claim_position_take:
  assumes PL: "preference_lists n permutation P" and i: "i < n" and j: "next ! i < 503"
    and inv: "populated n P (table, next, num)" and free: "table ! P i (next ! i) = - 1"
    and dealt: "dealt n r i table"
  shows "populated n P (table[P i (next ! i) := int i], next[i := next ! i + 1], num + 1)
    \<and> dealt n r (i + 1) (table[P i (next ! i) := int i])"
proof -
  let ?p = "P i (next ! i)"
  have "?p \<in> P i ` {0..<503}" using j by auto
  hence p: "?p < 503" using PL i by (simp add: preference_lists_def)
  have len: "length table = 503" using inv by (simp add: populated_def)
  have cnt: "count_list (table[?p := int i]) y + (if y = - 1 then 1 else 0)
      = count_list table y + (if y = int i then 1 else 0)" for y
    using count_list_update[of ?p table "- 1" "int i" y] p len free by simp
  have "dealt n r (i + 1) (table[?p := int i])"
    unfolding dealt_def
  proof (intro allI impI)
    fix k assume "k < n"
    thus "count_list (table[?p := int i]) (int k) = (if k < i + 1 then r + 1 else r)"
      using dealt[unfolded dealt_def, rule_format, of k] cnt[of "int k"] by auto
  qed
  moreover have "set (table[?p := int i]) \<subseteq> insert (- 1) (int ` {0..<n})"
    using set_update_subset_insert[of table ?p "int i"] inv i by (auto simp: populated_def)
  moreover have "num + 1 + count_list (table[?p := int i]) (- 1) = 503"
    using cnt[of "- 1"] inv by (simp add: populated_def)
  moreover have "table[?p := int i] ! P k j \<noteq> - 1" if "k < n" "j < next[i := next ! i + 1] ! k" for k j
    using that inv p len i
    by (auto simp: populated_def nth_list_update less_Suc_eq split: if_splits)
  ultimately show ?thesis using inv by (simp add: populated_def)
qed

lemma claim_position_claims:
  assumes PL: "preference_lists n permutation P" and i: "i < n" and num: "num < 503"
    and inv: "populated n P (table, next, num)" and dealt: "dealt n r i table"
  shows "\<exists>table' next'. claim_position permutation i (next ! i) (table, next, num) = (True, table', next', num + 1)
    \<and> populated n P (table', next', num + 1) \<and> dealt n r (i + 1) table'"
  using inv
proof (induction "503 - next ! i" arbitrary: "next" rule: less_induct)
  case less
  let ?j = "next ! i"
  obtain j where j: "?j \<le> j" "j < 503" "table ! P i j = - 1"
    using preference_free[OF PL less.prems num i] by blast
  hence jlt: "?j < 503" by simp
  have len: "length next = n" using less.prems by (simp add: populated_def)
  have pos: "permutation ! (i * 503 + ?j) = P i ?j" using PL i jlt by (simp add: preference_lists_def)
  show ?case
  proof (cases "table ! P i ?j = - 1")
    case True
    thus ?thesis using claim_position_take[OF PL i jlt less.prems True dealt] jlt pos
      by (subst claim_position.simps) (simp add: size_503 DP_MAGLEV_POS_FREE_def)
  next
    case False
    let ?next = "next[i := ?j + 1]"
    have nx: "?next ! i = ?j + 1" using len i by simp
    have "\<exists>table' next'. claim_position permutation i (?next ! i) (table, ?next, num) = (True, table', next', num + 1)
      \<and> populated n P (table', next', num + 1) \<and> dealt n r (i + 1) table'"
      using nx jlt claim_position_skip[OF PL i less.prems False] by (intro less.hyps) auto
    thus ?thesis using False jlt pos nx
      by (subst claim_position.simps) (simp add: size_503 DP_MAGLEV_POS_FREE_def)
  qed
qed

lemma populate_from_round:
  assumes PL: "preference_lists n permutation P"
  shows "populated n P st \<Longrightarrow> dealt n r i (fst st) \<Longrightarrow> snd (snd st) < 503 \<Longrightarrow> i \<le> n \<Longrightarrow>
    (case populate_from n permutation i st of (again, st') \<Rightarrow>
       populated n P st' \<and>
       (if again then dealt n r n (fst st') \<and> snd (snd st') = snd (snd st) + (n - i) \<and> snd (snd st') < 503
        else snd (snd st') = 503 \<and> (\<exists>i' \<le> n. 0 < i' \<and> dealt n r i' (fst st'))))"
proof (induction "n - i" arbitrary: i st)
  case 0
  thus ?case by (subst populate_from.simps) simp
next
  case (Suc d)
  obtain table nxt num where st: "st = (table, nxt, num)" by (cases st)
  have i: "i < n" using Suc.hyps(2) by simp
  obtain table' nxt' where c: "claim_position permutation i (nxt ! i) (table, nxt, num) = (True, table', nxt', num + 1)"
      "populated n P (table', nxt', num + 1)" "dealt n r (i + 1) table'"
    using claim_position_claims[OF PL i] Suc.prems st by fastforce
  show ?case
  proof (cases "num + 1 = 503")
    case True
    thus ?thesis using c i by (subst populate_from.simps) (auto simp: st size_503 intro!: exI[of _ "i + 1"])
  next
    case False
    have lt: "num + 1 < 503" using False Suc.prems st by simp
    have d: "d = n - (i + 1)" and le: "i + 1 \<le> n" using Suc.hyps(2) i by auto
    have IH: "case populate_from n permutation (i + 1) (table', nxt', num + 1) of (again, st') \<Rightarrow>
       populated n P st' \<and>
       (if again then dealt n r n (fst st') \<and> snd (snd st') = num + 1 + (n - (i + 1)) \<and> snd (snd st') < 503
        else snd (snd st') = 503 \<and> (\<exists>i' \<le> n. 0 < i' \<and> dealt n r i' (fst st')))"
      using Suc.hyps(1)[OF d, of "(table', nxt', num + 1)", unfolded fst_conv snd_conv, OF c(2,3) lt le] .
    have "populate_from n permutation i st = populate_from n permutation (i + 1) (table', nxt', num + 1)"
      using False c(1) i by (subst populate_from.simps) (simp add: st size_503)
    thus ?thesis using IH i by (cases "populate_from n permutation (i + 1) (table', nxt', num + 1)") (auto simp: st)
  qed
qed

lemma populate_loop_returns:
  assumes PL: "preference_lists n permutation P" and n: "0 < n"
  shows "populated n P st \<Longrightarrow> dealt n r 0 (fst st) \<Longrightarrow> snd (snd st) < 503 \<Longrightarrow>
    \<exists>st' r i. populate_loop n permutation st = Some st' \<and> populated n P st' \<and> snd (snd st') = 503
      \<and> 0 < i \<and> i \<le> n \<and> dealt n r i (fst st')"
proof (induction "503 - snd (snd st)" arbitrary: st r rule: less_induct)
  case less
  obtain again st' where it: "populate_from n permutation 0 st = (again, st')" by (cases "populate_from n permutation 0 st")
  note round = populate_from_round[OF PL less.prems, simplified it, simplified]
  show ?case
  proof (cases again)
    case True
    have "dealt n (r + 1) 0 (fst st')" using round True by (simp add: dealt_def)
    hence "\<exists>st'' r i. populate_loop n permutation st' = Some st'' \<and> populated n P st'' \<and> snd (snd st'') = 503
      \<and> 0 < i \<and> i \<le> n \<and> dealt n r i (fst st'')"
      using round True n less.prems(3) by (intro less.hyps[of st' "r + 1"]) auto
    thus ?thesis using True it by (subst populate_loop.simps) (simp add: dp_maglev_populate_iteration_def)
  next
    case False
    hence "populate_loop n permutation st = Some st'"
      using it by (subst populate_loop.simps) (simp add: dp_maglev_populate_iteration_def)
    thus ?thesis using round False by auto
  qed
qed

lemma permutation_preferences:
  assumes "dp_maglev_permutation a lbval = Some permutation"
  shows "preference_lists (back_end_cnt lbval) permutation (preference lbval)"
  using permutation_nth[OF assms] preference_onto by (simp add: preference_lists_def)

lemma count_list_replicate: "count_list (replicate n x) y = (if x = y then n else 0)"
  by (induction n) auto

lemma populated_start:
  "populated n P (replicate 503 (- 1), replicate n 0, 0)" "dealt n 0 0 (replicate 503 (- 1))"
  by (simp_all add: populated_def dealt_def count_list_replicate)

lemma dealt_balanced:
  assumes "length table = 503" "set table \<subseteq> int ` {0..<n}" "dealt n r i table" "0 < i" "i \<le> n" "k < n"
  shows "503 div n \<le> count_list table (int k) \<and> count_list table (int k) \<le> 503 div n + 1"
proof -
  have "503 = (\<Sum>x\<in>int ` {0..<n}. count_list table x)"
    using assms(1,2) by (simp add: sum_count_set)
  also have "\<dots> = (\<Sum>k\<in>{0..<n}. count_list table (int k))"
    by (subst sum.reindex) (auto simp: comp_def inj_on_def)
  also have "\<dots> = (\<Sum>k\<in>{0..<n}. r + (if k < i then 1 else 0))"
    using assms(3) by (intro sum.cong) (auto simp: dealt_def)
  also have "\<dots> = n * r + card {k \<in> {0..<n}. k < i}"
    by (simp add: sum.distrib sum.If_cases Int_def)
  also have "{k \<in> {0..<n}. k < i} = {0..<i}" using assms(5) by auto
  finally have eq: "503 = n * r + i" by simp
  have "(n * r + i) div n = r + i div n" using assms(4,5) by simp
  hence "503 div n = r + i div n" by (simp only: eq[symmetric])
  moreover have "i div n = (if i = n then 1 else 0)" using assms(4,5) by auto
  ultimately show ?thesis using assms(3,5,6) by (auto simp: dealt_def)
qed

lemma calc_table:
  assumes n: "0 < back_end_cnt lbval"
  shows "\<exists>table. dp_maglev_calc_hash_lookup_table True True lbval = Some (DP_OK, lbval\<lparr> maglev_hash := table \<rparr>)
    \<and> length table = 503 \<and> set table \<subseteq> int ` {0..<back_end_cnt lbval}
    \<and> (\<forall>k < back_end_cnt lbval. 503 div back_end_cnt lbval \<le> count_list table (int k)
          \<and> count_list table (int k) \<le> 503 div back_end_cnt lbval + 1)"
proof -
  let ?n = "back_end_cnt lbval"
  obtain permutation where p: "dp_maglev_permutation True lbval = Some permutation"
    by (simp add: dp_maglev_permutation_def)
  obtain table nxt r i where loop: "populate_loop ?n permutation (replicate 503 (- 1), replicate ?n 0, 0) = Some (table, nxt, 503)"
      "populated ?n (preference lbval) (table, nxt, 503)" "0 < i" "i \<le> ?n" "dealt ?n r i table"
    using populate_loop_returns[OF permutation_preferences[OF p] n populated_start(1), unfolded fst_conv snd_conv,
        OF populated_start(2)] by (metis prod.exhaust_sel zero_less_numeral)
  have len: "length table = 503" and full: "- 1 \<notin> set table"
    using loop(2) by (auto simp: populated_def count_list_0_iff)
  have fill: "map (\<lambda>i. if table ! i = - 1 then int (i mod ?n) else table ! i) [0..<503] = table"
    using full len by (intro nth_equalityI) (auto simp: in_set_conv_nth)
  have range: "set table \<subseteq> int ` {0..<?n}" using loop(2) full by (auto simp: populated_def)
  have "dp_maglev_calc_hash_lookup_table True True lbval = Some (DP_OK, lbval\<lparr> maglev_hash := table \<rparr>)"
    unfolding dp_maglev_calc_hash_lookup_table_def p option.case dp_maglev_populate_def size_503
      DP_MAGLEV_POS_FREE_def loop(1) prod.case fill by simp
  thus ?thesis using len range dealt_balanced[OF len range loop(5,3,4)] by blast
qed

lemma calc_table_fails:
  "\<not> (a \<and> b) \<Longrightarrow> dp_maglev_calc_hash_lookup_table a b lbval = Some (Inl DP_ERROR, lbval)"
  by (auto simp: dp_maglev_calc_hash_lookup_table_def dp_maglev_permutation_def dp_maglev_populate_def)

section \<open>The order of addresses\<close>

instantiation dp_ipv6_ext :: (linorder) linorder
begin

definition less_dp_ipv6_ext :: "'a dp_ipv6_scheme \<Rightarrow> 'a dp_ipv6_scheme \<Rightarrow> bool" where
  "a < b \<longleftrightarrow> ip6_prefix a < ip6_prefix b \<or> (ip6_prefix a = ip6_prefix b
     \<and> (ip6_suffix a < ip6_suffix b \<or> (ip6_suffix a = ip6_suffix b \<and> dp_ipv6.more a < dp_ipv6.more b)))"

definition less_eq_dp_ipv6_ext :: "'a dp_ipv6_scheme \<Rightarrow> 'a dp_ipv6_scheme \<Rightarrow> bool" where
  "a \<le> b \<longleftrightarrow> a < b \<or> a = (b :: 'a dp_ipv6_scheme)"

instance
proof
  fix x y z :: "'a dp_ipv6_scheme"
  show "(x < y) = (x \<le> y \<and> \<not> y \<le> x)" "x \<le> x"
    by (auto simp: less_dp_ipv6_ext_def less_eq_dp_ipv6_ext_def)
  show "x \<le> y \<Longrightarrow> y \<le> z \<Longrightarrow> x \<le> z" "x \<le> y \<Longrightarrow> y \<le> x \<Longrightarrow> x = y"
    by (auto simp: less_dp_ipv6_ext_def less_eq_dp_ipv6_ext_def)
  show "x \<le> y \<or> y \<le> x"
    by (cases x; cases y) (auto simp: less_dp_ipv6_ext_def less_eq_dp_ipv6_ext_def)
qed

end

fun bytes_value :: "uint8 list \<Rightarrow> nat" where
  "bytes_value [] = 0"
| "bytes_value (b # bs) = unat b * 256 ^ length bs + bytes_value bs"

lemma bytes_value_bound: "bytes_value bs < 256 ^ length bs"
proof (induction bs)
  case (Cons b bs)
  have "unat b < 256" by (rule order_less_le_trans[OF unsigned_less]) simp
  hence "(unat b + 1) * 256 ^ length bs \<le> 256 * 256 ^ length bs" by (intro mult_right_mono) auto
  hence "unat b * 256 ^ length bs + 256 ^ length bs \<le> 256 * 256 ^ length bs" by (simp only: distrib_right mult_1)
  thus ?case unfolding bytes_value.simps list.size(4) add_Suc_right add_0_right power_Suc using Cons by linarith
qed simp

lemma bytes_greater_value:
  "length as = length bs \<Longrightarrow> bytes_greater as bs \<longleftrightarrow> bytes_value bs < bytes_value as"
proof (induction as bs rule: bytes_greater.induct)
  case (1 a as b bs)
  have lead: "bytes_value (x # xs) < bytes_value (y # ys)" if "x < y" "length xs = length ys" for x y xs ys
  proof -
    have "unat x + 1 \<le> unat y" using that(1) by (simp add: word_less_nat_alt)
    hence "(unat x + 1) * 256 ^ length xs \<le> unat y * 256 ^ length xs" by (rule mult_right_mono) simp
    hence "unat x * 256 ^ length xs + 256 ^ length xs \<le> unat y * 256 ^ length xs" by (simp only: distrib_right mult_1)
    thus ?thesis unfolding bytes_value.simps that(2)[symmetric] using bytes_value_bound[of xs] by linarith
  qed
  have len: "length as = length bs" using "1.prems" by simp
  have eq: "a = b \<Longrightarrow> bytes_value (b # bs) < bytes_value (a # as) \<longleftrightarrow> bytes_value bs < bytes_value as"
    using len by simp
  show ?case
  proof (cases rule: linorder_cases[of a b])
    case less
    thus ?thesis using lead[OF less len] by (simp del: bytes_value.simps)
  next
    case equal
    have "bytes_greater as bs = (bytes_value bs < bytes_value as)"
      using "1.IH" equal len by blast
    thus ?thesis using eq equal by simp
  next
    case greater
    thus ?thesis using lead[OF greater len[symmetric]] by (simp del: bytes_value.simps)
  qed
qed auto

lemma unat_byte: "unat (ucast (drop_bit n w) :: uint8) = unat w div 2 ^ n mod 256" for w :: uint64
proof -
  have "unat (drop_bit n w) = unat w div 2 ^ n" by (metis drop_bit_eq_div unat_drop_bit_eq)
  thus ?thesis by (simp add: unsigned_ucast_eq take_bit_eq_mod del: drop_bit_eq_div)
qed

lemma word_bytes_value: "bytes_value (word_bytes w) = unat w"
proof -
  let ?u = "unat w"
  have top: "?u < 256 * 2 ^ 56" using unsigned_less[of w, where ?'a = nat] by simp
  have split: "(?u div 2 ^ (n + 8)) * 256 + ?u div 2 ^ n mod 256 = ?u div 2 ^ n" for n
    using div_mult_mod_eq[of "?u div 2 ^ n" 256] by (simp add: power_add div_mult2_eq)
  have "bytes_value (word_bytes w) = (((((((?u div 2 ^ 56 mod 256) * 256 + ?u div 2 ^ 48 mod 256) * 256
      + ?u div 2 ^ 40 mod 256) * 256 + ?u div 2 ^ 32 mod 256) * 256 + ?u div 2 ^ 24 mod 256) * 256
      + ?u div 2 ^ 16 mod 256) * 256 + ?u div 2 ^ 8 mod 256) * 256 + ?u mod 256"
    using unat_byte[of 0 w] by (simp add: word_bytes_def upt_rec unat_byte)
  also have "?u div 2 ^ 56 mod 256 = ?u div 2 ^ 56" using top by (simp add: less_mult_imp_div_less)
  finally show ?thesis
    using split[of 48] split[of 40] split[of 32] split[of 24] split[of 16] split[of 8]
    by simp (use div_mult_mod_eq[of ?u 256] in linarith)
qed

lemma length_word_bytes [simp]: "length (word_bytes w) = 8"
  by (simp add: word_bytes_def)

lemma bytes_value_append: "bytes_value (as @ bs) = bytes_value as * 256 ^ length bs + bytes_value bs"
  by (induction as) (simp_all add: power_add algebra_simps)

lemma dp_is_ipv6_greater_iff: "dp_is_ipv6_greater a b \<longleftrightarrow> b < a"
proof -
  have bound: "unat w < 256 ^ 8" for w :: uint64 by (rule order_less_le_trans[OF unsigned_less]) simp
  have lex: "p * 256 ^ 8 + s < q * 256 ^ 8 + t \<longleftrightarrow> p < q \<or> (p = q \<and> s < t)"
    if "s < 256 ^ 8" "t < 256 ^ 8" for p q s t :: nat
    using that by (cases rule: linorder_cases[of p q]) simp_all
  have "dp_is_ipv6_greater a b \<longleftrightarrow> bytes_value (ipv6_bytes b) < bytes_value (ipv6_bytes a)"
    unfolding dp_is_ipv6_greater_def by (rule bytes_greater_value) (simp add: ipv6_bytes_def)
  also have "\<dots> \<longleftrightarrow> b < a"
    unfolding ipv6_bytes_def bytes_value_append length_word_bytes word_bytes_value
    by (subst lex) (simp_all add: bound[simplified] less_dp_ipv6_ext_def word_less_nat_alt word_unat_eq_iff)
  finally show ?thesis .
qed

section \<open>Backends are kept sorted\<close>

lemma shift_up_nth:
  "start \<le> e \<Longrightarrow> e < length ips \<Longrightarrow> k < length ips \<Longrightarrow>
   shift_up ips start e ! k = (if start < k \<and> k \<le> e then ips ! (k - 1) else ips ! k)"
proof (induction e arbitrary: ips)
  case (Suc e)
  show ?case
  proof (cases "start = Suc e")
    case False
    hence "start \<le> e" using Suc.prems by simp
    thus ?thesis using Suc.IH[of "ips[Suc e := ips ! e]"] Suc.prems
      by (auto simp: nth_list_update)
  qed auto
qed simp

lemma length_shift_up [simp]: "length (shift_up ips start e) = length ips"
  by (induction e arbitrary: ips) auto

lemma length_shift_down [simp]: "length (shift_down ips i e) = length ips"
  by (induction ips i e rule: shift_down.induct) (subst shift_down.simps, simp)

lemma shift_down_nth:
  "e < length ips \<Longrightarrow> k < length ips \<Longrightarrow>
   shift_down ips i e ! k = (if i \<le> k \<and> k < e then ips ! (k + 1) else ips ! k)"
proof (induction ips i e rule: shift_down.induct)
  case (1 ips i e)
  show ?case
  proof (cases "i < e")
    case True
    thus ?thesis using 1 by (subst shift_down.simps) (auto simp: nth_list_update)
  next
    case False
    thus ?thesis by (subst shift_down.simps) auto
  qed
qed

lemma shift_up_insert:
  assumes "p \<le> n" "n < length ips"
  shows "take (n + 1) ((shift_up ips p n)[p := x]) = take p (take n ips) @ x # drop p (take n ips)"
    "drop (n + 1) ((shift_up ips p n)[p := x]) = drop (n + 1) ips"
proof -
  show "take (n + 1) ((shift_up ips p n)[p := x]) = take p (take n ips) @ x # drop p (take n ips)"
    using assms by (intro nth_equalityI) (auto simp: nth_append nth_list_update shift_up_nth nth_Cons' min_def split: if_splits)
  show "drop (n + 1) ((shift_up ips p n)[p := x]) = drop (n + 1) ips"
    using assms by (intro nth_equalityI) (auto simp: nth_list_update shift_up_nth)
qed

lemma shift_down_remove:
  assumes "p < n" "n \<le> length ips"
  shows "take (n - 1) ((shift_down ips p (n - 1))[n - 1 := x]) = take p (take n ips) @ drop (p + 1) (take n ips)"
    "drop (n - 1) ((shift_down ips p (n - 1))[n - 1 := x]) = x # drop n ips"
proof -
  show "take (n - 1) ((shift_down ips p (n - 1))[n - 1 := x]) = take p (take n ips) @ drop (p + 1) (take n ips)"
    using assms by (intro nth_equalityI) (auto simp: nth_append nth_list_update shift_down_nth min_def split: if_splits)
  show "drop (n - 1) ((shift_down ips p (n - 1))[n - 1 := x]) = x # drop n ips"
    using assms by (intro nth_equalityI) (auto simp: nth_list_update shift_down_nth nth_Cons')
qed

definition backends :: "lb_value \<Rightarrow> dp_ipv6 list" where
  "backends lbval = take (back_end_cnt lbval) (back_end_ips lbval)"

definition lb_ok :: "lb_value \<Rightarrow> bool" where
  "lb_ok lbval \<longleftrightarrow> length (back_end_ips lbval) = 64 \<and> back_end_cnt lbval \<le> 64
     \<and> sorted (backends lbval) \<and> distinct (backends lbval) \<and> dp_empty_ipv6 \<notin> set (backends lbval)
     \<and> drop (back_end_cnt lbval) (back_end_ips lbval) = replicate (64 - back_end_cnt lbval) dp_empty_ipv6"

text \<open>Every position names a backend, and the backends share the positions evenly.\<close>

definition table_ok :: "lb_value \<Rightarrow> bool" where
  "table_ok lbval \<longleftrightarrow> length (maglev_hash lbval) = 503
     \<and> (0 < back_end_cnt lbval \<longrightarrow> set (maglev_hash lbval) \<subseteq> int ` {0..<back_end_cnt lbval}
       \<and> (\<forall>k < back_end_cnt lbval. 503 div back_end_cnt lbval \<le> count_list (maglev_hash lbval) (int k)
          \<and> count_list (maglev_hash lbval) (int k) \<le> 503 div back_end_cnt lbval + 1))"

lemma insort_first_index:
  "x \<notin> set xs \<Longrightarrow> take (first_index (\<lambda>y. x < y) xs) xs @ x # drop (first_index (\<lambda>y. x < y) xs) xs = insort x xs"
  by (induction xs) auto

lemma remove1_first_index:
  "take (first_index (\<lambda>y. y = x) xs) xs @ drop (first_index (\<lambda>y. y = x) xs + 1) xs = remove1 x xs"
  by (induction xs) auto

lemma calc_table_ok:
  assumes "0 < back_end_cnt lbval"
  shows "\<exists>table. dp_maglev_calc_hash_lookup_table True True lbval = Some (DP_OK, lbval\<lparr> maglev_hash := table \<rparr>)
    \<and> table_ok (lbval\<lparr> maglev_hash := table \<rparr>)"
  using calc_table[OF assms] by (auto simp: table_ok_def)

lemma lb_ok_table [simp]: "lb_ok (lbval\<lparr> maglev_hash := t \<rparr>) = lb_ok lbval"
  "backends (lbval\<lparr> maglev_hash := t \<rparr>) = backends lbval"
  by (simp_all add: lb_ok_def backends_def)

definition with_backend :: "dp_ipv6 \<Rightarrow> lb_value \<Rightarrow> lb_value" where
  "with_backend x lbval = (let n = back_end_cnt lbval;
     p = first_index (\<lambda>y. x < y) (backends lbval) in
     lbval\<lparr> back_end_ips := (shift_up (back_end_ips lbval) p n)[p := x], back_end_cnt := n + 1 \<rparr>)"

definition without_backend :: "dp_ipv6 \<Rightarrow> lb_value \<Rightarrow> lb_value" where
  "without_backend x lbval = (let n = back_end_cnt lbval;
     p = first_index (\<lambda>y. y = x) (backends lbval) in
     lbval\<lparr> back_end_ips := (shift_down (back_end_ips lbval) p (n - 1))[n - 1 := dp_empty_ipv6],
       back_end_cnt := n - 1 \<rparr>)"

lemma with_backend_ok:
  assumes "lb_ok lbval" "back_end_cnt lbval < 64" "x \<notin> set (backends lbval)" "x \<noteq> dp_empty_ipv6"
  shows "lb_ok (with_backend x lbval) \<and> backends (with_backend x lbval) = insort x (backends lbval)"
proof -
  let ?n = "back_end_cnt lbval" and ?p = "first_index (\<lambda>y. x < y) (backends lbval)"
  let ?ips = "(shift_up (back_end_ips lbval) ?p ?n)[?p := x]"
  have len: "length (back_end_ips lbval) = 64" using assms(1) by (simp add: lb_ok_def)
  have p: "?p \<le> ?n" using first_index_le[of "\<lambda>y. x < y" "backends lbval"] assms(2) len
    by (simp add: backends_def)
  have b: "backends (with_backend x lbval) = insort x (backends lbval)"
    using shift_up_insert(1)[OF p, of "back_end_ips lbval" x] insort_first_index[OF assms(3)] len assms(2)
    by (simp add: with_backend_def Let_def backends_def)
  have "drop (?n + 1) ?ips = replicate (64 - (?n + 1)) dp_empty_ipv6"
    using shift_up_insert(2)[OF p, of "back_end_ips lbval" x] assms(1,2) drop_drop[of 1 ?n "back_end_ips lbval"]
    by (simp add: lb_ok_def drop_replicate)
  hence "lb_ok (with_backend x lbval)"
    using b assms len unfolding lb_ok_def
    by (simp add: sorted_insort distinct_insort set_insort_key) (simp add: with_backend_def Let_def)
  thus ?thesis using b by simp
qed

lemma without_backend_ok:
  assumes "lb_ok lbval" "x \<in> set (backends lbval)"
  shows "lb_ok (without_backend x lbval) \<and> backends (without_backend x lbval) = remove1 x (backends lbval)"
proof -
  let ?n = "back_end_cnt lbval" and ?p = "first_index (\<lambda>y. y = x) (backends lbval)"
  let ?ips = "(shift_down (back_end_ips lbval) ?p (?n - 1))[?n - 1 := dp_empty_ipv6]"
  have len: "length (back_end_ips lbval) = 64" and n: "?n \<le> 64" using assms(1) by (simp_all add: lb_ok_def)
  have p: "?p < ?n" using first_index_less_iff[of "\<lambda>y. y = x" "backends lbval"] assms(2) len n
    by (simp add: backends_def)
  have b: "backends (without_backend x lbval) = remove1 x (backends lbval)"
    using shift_down_remove(1)[OF p, of "back_end_ips lbval" dp_empty_ipv6] remove1_first_index[of x "backends lbval"] len n
    by (simp add: without_backend_def Let_def backends_def)
  have "drop (?n - 1) ?ips = replicate (64 - (?n - 1)) dp_empty_ipv6"
    using shift_down_remove(2)[OF p, of "back_end_ips lbval" dp_empty_ipv6] assms(1) len n p
    by (simp add: lb_ok_def Suc_diff_le replicate_Suc[symmetric] del: replicate_Suc) 
  hence "lb_ok (without_backend x lbval)"
    using b assms len n unfolding lb_ok_def
    by (simp add: sorted_remove1 distinct_remove1 notin_set_remove1) (simp add: without_backend_def Let_def)
  thus ?thesis using b by simp
qed

lemma add_maglev_backend_eq:
  assumes "lb_ok lbval" "back_end_cnt lbval < 64"
  shows "dp_add_maglev_backend a b x lbval = dp_maglev_calc_hash_lookup_table a b (with_backend x lbval)"
  using assms by (simp add: dp_add_maglev_backend_def with_backend_def Let_def DP_LB_MAX_IPS_PER_VIP_def
      dp_is_ipv6_greater_iff dp_shift_back_end_ips_def backends_def)

lemma delete_maglev_backend_eq:
  assumes "lb_ok lbval"
  shows "dp_delete_maglev_backend a b x lbval =
    (if x \<notin> set (backends lbval) then Some (GRPC_FAIL DP_GRPC_ERR_NOT_FOUND, lbval)
     else if back_end_cnt lbval = 1 then Some (DP_OK, without_backend x lbval)
     else case dp_maglev_calc_hash_lookup_table a b (without_backend x lbval) of
       None \<Rightarrow> None
     | Some (Inl _, lbval) \<Rightarrow> Some (GRPC_FAIL DP_GRPC_ERR_BACKIP_DEL, lbval)
     | Some (Inr _, lbval) \<Rightarrow> Some (DP_OK, lbval))"
proof -
  let ?p = "first_index (\<lambda>y. y = x) (backends lbval)"
  have len: "length (backends lbval) = back_end_cnt lbval" using assms by (simp add: lb_ok_def backends_def)
  have "?p \<ge> back_end_cnt lbval \<longleftrightarrow> x \<notin> set (backends lbval)"
    using first_index_less_iff[of "\<lambda>y. y = x" "backends lbval"] len by (auto simp: not_less)
  moreover have "back_end_cnt lbval - 1 = 0 \<longleftrightarrow> back_end_cnt lbval = 1" if "x \<in> set (backends lbval)"
    using that len by (cases "backends lbval") auto
  ultimately show ?thesis
    by (auto simp: dp_delete_maglev_backend_def without_backend_def Let_def dp_ipv6_match_eq
        dp_shift_back_end_ips_def backends_def)
qed

lemma free_slot_empty:
  assumes "lb_ok lbval" "back_end_cnt lbval < 64" "x \<notin> set (back_end_ips lbval)"
  shows "x \<notin> set (backends lbval)" "x \<noteq> dp_empty_ipv6"
proof -
  have "dp_empty_ipv6 \<in> set (drop (back_end_cnt lbval) (back_end_ips lbval))"
    using assms(1,2) by (simp add: lb_ok_def)
  thus "x \<noteq> dp_empty_ipv6" using assms(3) by (auto dest: in_set_dropD)
  show "x \<notin> set (backends lbval)" using assms(3) by (auto simp: backends_def dest: in_set_takeD)
qed

lemma without_backend_simps [simp]:
  "maglev_hash (without_backend x lbval) = maglev_hash lbval"
  "back_end_cnt (without_backend x lbval) = back_end_cnt lbval - 1"
  by (simp_all add: without_backend_def Let_def)

lemma with_backend_simps [simp]:
  "maglev_hash (with_backend x lbval) = maglev_hash lbval"
  "back_end_cnt (with_backend x lbval) = back_end_cnt lbval + 1"
  by (simp_all add: with_backend_def Let_def)

lemma calc_table_cases:
  assumes "0 < back_end_cnt lbval"
  shows "\<exists>table. dp_maglev_calc_hash_lookup_table a b lbval
      = Some (if a \<and> b then DP_OK else Inl DP_ERROR, lbval\<lparr> maglev_hash := table \<rparr>)
    \<and> (if a \<and> b then table_ok (lbval\<lparr> maglev_hash := table \<rparr>) else table = maglev_hash lbval)"
  using calc_table_ok[OF assms] calc_table_fails[of a b lbval] by (cases "a \<and> b") auto

lemma permutation_cong:
  assumes "backends lb1 = backends lb2" "back_end_cnt lb1 = back_end_cnt lb2"
  shows "dp_maglev_permutation a lb1 = dp_maglev_permutation a lb2"
proof -
  have "back_end_ips lb1 ! i = back_end_ips lb2 ! i" if "i < back_end_cnt lb1" for i
    using assms that nth_take[of i "back_end_cnt lb1" "back_end_ips lb1"] nth_take[of i "back_end_cnt lb2" "back_end_ips lb2"]
    by (simp add: backends_def)
  thus ?thesis using assms(2)
    by (auto simp: dp_maglev_permutation_def intro!: arg_cong[of _ _ concat] map_cong)
qed

lemma calc_table_cong:
  assumes "backends lb1 = backends lb2" "back_end_cnt lb1 = back_end_cnt lb2"
    and "dp_maglev_calc_hash_lookup_table a b lb1 = Some (DP_OK, lb1')"
    and "dp_maglev_calc_hash_lookup_table a b lb2 = Some (DP_OK, lb2')"
  shows "maglev_hash lb1' = maglev_hash lb2'"
  using assms(2-4) permutation_cong[OF assms(1,2), of a]
  by (auto simp: dp_maglev_calc_hash_lookup_table_def dp_maglev_populate_def split: option.splits if_splits)

lemma backends_determined:
  assumes "lb_ok lb1" "lb_ok lb2" "set (backends lb1) = set (backends lb2)"
  shows "backends lb1 = backends lb2" "back_end_cnt lb1 = back_end_cnt lb2"
proof -
  show eq: "backends lb1 = backends lb2"
    using assms by (intro sorted_distinct_set_unique) (auto simp: lb_ok_def)
  have "length (backends lb1) = back_end_cnt lb1" "length (backends lb2) = back_end_cnt lb2"
    using assms(1,2) by (auto simp: lb_ok_def backends_def)
  thus "back_end_cnt lb1 = back_end_cnt lb2" using eq by simp
qed

lemma table_share:
  "table_ok lbval \<Longrightarrow> k < back_end_cnt lbval \<Longrightarrow>
   503 div back_end_cnt lbval \<le> count_list (maglev_hash lbval) (int k)"
  by (simp add: table_ok_def)

section \<open>Properties\<close>

text \<open>C9: the Maglev table computation returns for every balancer with a backend,
  although its population loop has no bound.  It fails, changing nothing, exactly
  when one of its two allocations fails.  Otherwise it changes the table only,
  all of the 503 positions name an existing backend, and the numbers of positions
  of any two backends differ by at most one.\<close>

theorem maglev_table_balanced:
  assumes "0 < back_end_cnt lbval"
  shows "\<exists>table. dp_maglev_calc_hash_lookup_table zmalloc_perm zmalloc_next lbval
      = Some (if zmalloc_perm \<and> zmalloc_next then DP_OK else Inl DP_ERROR, lbval\<lparr> maglev_hash := table \<rparr>)
    \<and> (if zmalloc_perm \<and> zmalloc_next then table_ok (lbval\<lparr> maglev_hash := table \<rparr>) else table = maglev_hash lbval)"
  by (rule calc_table_cases[OF assms])

definition ex_backend :: "nat \<Rightarrow> dp_ipv6" where
  "ex_backend i = \<lparr> ip6_prefix = 0xfc00000100000000, ip6_suffix = of_nat (i + 1) \<rparr>"

definition ex_lb :: "nat \<Rightarrow> lb_value" where
  "ex_lb n = \<lparr> lb_id = ''lb'', lb_ports = replicate 16 \<lparr> lbp_protocol = 0, lbp_port = 0 \<rparr>,
     back_end_ips = map ex_backend [0..<n] @ replicate (64 - n) dp_empty_ipv6,
     maglev_hash = replicate 503 0, back_end_cnt = n, lb_ul_addr = dp_empty_ipv6 \<rparr>"

theorem maglev_table_balanced_witness:
  "back_end_cnt (ex_lb 3) = 3 \<and> (\<exists>table. dp_maglev_calc_hash_lookup_table True True (ex_lb 3)
      = Some (DP_OK, (ex_lb 3)\<lparr> maglev_hash := table \<rparr>) \<and> table_ok ((ex_lb 3)\<lparr> maglev_hash := table \<rparr>))"
proof -
  have c: "back_end_cnt (ex_lb 3) = 3" by (simp add: ex_lb_def)
  thus ?thesis using maglev_table_balanced[of "ex_lb 3" True True] by simp
qed

text \<open>backends are a strictly sorted list without the zero address, followed
  by zero slots, and both operations keep it so.  Adding a backend that is in no
  slot inserts it at its place in the order, also when the table computation then
  fails; a full balancer refuses it.  Deleting removes the backend, and an unknown
  one is refused with nothing changed.  A successful operation leaves a balanced
  table that names existing backends.\<close>

theorem maglev_backends_sorted:
  assumes ok: "lb_ok lbval"
  shows "(back_end_cnt lbval < 64 \<and> x \<notin> set (back_end_ips lbval) \<longrightarrow>
      (\<exists>lbval'. dp_add_maglev_backend a b x lbval = Some (if a \<and> b then DP_OK else Inl DP_ERROR, lbval')
        \<and> lb_ok lbval' \<and> backends lbval' = insort x (backends lbval)
        \<and> (if a \<and> b then table_ok lbval' else maglev_hash lbval' = maglev_hash lbval)))
    \<and> (64 \<le> back_end_cnt lbval \<longrightarrow> dp_add_maglev_backend a b x lbval = Some (Inl DP_ERROR, lbval))
    \<and> (x \<notin> set (backends lbval) \<longrightarrow>
        dp_delete_maglev_backend a b x lbval = Some (GRPC_FAIL DP_GRPC_ERR_NOT_FOUND, lbval))
    \<and> (x \<in> set (backends lbval) \<longrightarrow>
      (\<exists>r lbval'. dp_delete_maglev_backend a b x lbval = Some (r, lbval')
        \<and> lb_ok lbval' \<and> backends lbval' = remove1 x (backends lbval)
        \<and> (r = DP_OK \<longleftrightarrow> (a \<and> b) \<or> back_end_cnt lbval = 1)
        \<and> (r = DP_OK \<and> length (maglev_hash lbval) = 503 \<longrightarrow> table_ok lbval')))"
    (is "?add \<and> ?full \<and> ?unknown \<and> ?delete")
proof (intro conjI)
  show ?add
  proof
    assume h: "back_end_cnt lbval < 64 \<and> x \<notin> set (back_end_ips lbval)"
    note w = with_backend_ok[OF ok _ free_slot_empty[OF ok]] and c = calc_table_cases[of "with_backend x lbval" a b]
    show "\<exists>lbval'. dp_add_maglev_backend a b x lbval = Some (if a \<and> b then DP_OK else Inl DP_ERROR, lbval')
        \<and> lb_ok lbval' \<and> backends lbval' = insort x (backends lbval)
        \<and> (if a \<and> b then table_ok lbval' else maglev_hash lbval' = maglev_hash lbval)"
      using w c h add_maglev_backend_eq[OF ok] by fastforce
  qed
  show ?full by (simp add: dp_add_maglev_backend_def DP_LB_MAX_IPS_PER_VIP_def)
  show ?unknown by (simp add: delete_maglev_backend_eq[OF ok])
  show ?delete
  proof
    assume x: "x \<in> set (backends lbval)"
    note w = without_backend_ok[OF ok x]
    show "\<exists>r lbval'. dp_delete_maglev_backend a b x lbval = Some (r, lbval')
        \<and> lb_ok lbval' \<and> backends lbval' = remove1 x (backends lbval)
        \<and> (r = DP_OK \<longleftrightarrow> (a \<and> b) \<or> back_end_cnt lbval = 1)
        \<and> (r = DP_OK \<and> length (maglev_hash lbval) = 503 \<longrightarrow> table_ok lbval')"
    proof (cases "back_end_cnt lbval = 1")
      case True
      thus ?thesis using w x delete_maglev_backend_eq[OF ok, of a b x] by (simp add: table_ok_def)
    next
      case False
      have "0 < back_end_cnt (without_backend x lbval)"
        using x False by (cases "back_end_cnt lbval") (auto simp: backends_def)
      then obtain t where "dp_maglev_calc_hash_lookup_table a b (without_backend x lbval)
          = Some (if a \<and> b then DP_OK else Inl DP_ERROR, (without_backend x lbval)\<lparr> maglev_hash := t \<rparr>)"
          "if a \<and> b then table_ok ((without_backend x lbval)\<lparr> maglev_hash := t \<rparr>) else t = maglev_hash (without_backend x lbval)"
        using calc_table_cases by blast
      thus ?thesis using w x False delete_maglev_backend_eq[OF ok, of a b x] by (cases "a \<and> b") auto
    qed
  qed
qed

lemma ex_lb_ok: "lb_ok (ex_lb 2)"
  by (simp add: lb_ok_def ex_lb_def backends_def ex_backend_def upt_rec less_eq_dp_ipv6_ext_def
      less_dp_ipv6_ext_def dp_empty_ipv6_def)

lemma ex_lb_backends: "backends (ex_lb 2) = [ex_backend 0, ex_backend 1]"
  by (simp add: ex_lb_def backends_def upt_rec)

theorem maglev_backends_sorted_witness:
  "lb_ok (ex_lb 2)
   \<and> (\<exists>lbval'. dp_delete_maglev_backend True True (ex_backend 0) (ex_lb 2) = Some (DP_OK, lbval')
       \<and> lb_ok lbval' \<and> backends lbval' = [ex_backend 1] \<and> table_ok lbval')
   \<and> dp_delete_maglev_backend True True (ex_backend 5) (ex_lb 2) = Some (GRPC_FAIL DP_GRPC_ERR_NOT_FOUND, ex_lb 2)"
proof -
  have h: "length (maglev_hash (ex_lb 2)) = 503" by (simp add: ex_lb_def)
  have m: "ex_backend 0 \<in> set (backends (ex_lb 2))" "ex_backend 5 \<notin> set (backends (ex_lb 2))"
    "remove1 (ex_backend 0) (backends (ex_lb 2)) = [ex_backend 1]"
    unfolding ex_lb_backends by (simp_all add: ex_backend_def)
  show ?thesis
    using maglev_backends_sorted[OF ex_lb_ok, of "ex_backend 0" True True] h m
      maglev_backends_sorted[OF ex_lb_ok, of "ex_backend 5" True True] ex_lb_ok by metis
qed



text \<open>a backend deletion whose table computation cannot allocate memory is
  reported as an error, but the backend is gone and the table is the old one.  With
  more than one backend before, some flow hash then selects the cleared slot and
  the packet is sent to the zero address.\<close>

theorem maglev_delete_stale:
  assumes ok: "lb_ok lbval" "table_ok lbval" and x: "x \<in> set (backends lbval)"
    and n: "1 < back_end_cnt lbval" and fail: "\<not> (a \<and> b)"
  shows "\<exists>lbval' pos. dp_delete_maglev_backend a b x lbval = Some (GRPC_FAIL DP_GRPC_ERR_BACKIP_DEL, lbval')
    \<and> backends lbval' = remove1 x (backends lbval) \<and> pos < 503
    \<and> back_end_ips lbval' ! nat (maglev_hash lbval' ! pos) = dp_empty_ipv6"
proof -
  let ?n = "back_end_cnt lbval" and ?lb = "without_backend x lbval"
  have n64: "?n \<le> 64" using ok(1) by (simp add: lb_ok_def)
  have "503 div ?n \<noteq> 0" using n n64 by (simp add: div_eq_0_iff)
  hence "count_list (maglev_hash lbval) (int (?n - 1)) \<noteq> 0"
    using table_share[OF ok(2), of "?n - 1"] n by linarith
  hence "int (?n - 1) \<in> set (maglev_hash lbval)" by (metis count_notin)
  then obtain pos where pos: "pos < 503" "maglev_hash lbval ! pos = int (?n - 1)"
    using ok(2) by (auto simp: in_set_conv_nth table_ok_def)
  have w: "lb_ok ?lb" "backends ?lb = remove1 x (backends lbval)" using without_backend_ok[OF ok(1) x] by auto
  have "back_end_ips ?lb ! (?n - 1) = drop (?n - 1) (back_end_ips ?lb) ! 0"
    using w(1) n n64 by (subst nth_drop) (auto simp: lb_ok_def)
  also have "\<dots> = dp_empty_ipv6" using w(1) n n64 by (simp add: lb_ok_def)
  finally have "back_end_ips ?lb ! nat (maglev_hash ?lb ! pos) = dp_empty_ipv6" using pos by simp
  moreover have "dp_delete_maglev_backend a b x lbval = Some (GRPC_FAIL DP_GRPC_ERR_BACKIP_DEL, ?lb)"
    using n x delete_maglev_backend_eq[OF ok(1), of a b x] calc_table_fails[OF fail, of ?lb] by simp
  ultimately show ?thesis using w pos(1) by blast
qed

theorem maglev_delete_stale_witness:
  "\<exists>table lbval' pos. lb_ok ((ex_lb 2)\<lparr> maglev_hash := table \<rparr>) \<and> table_ok ((ex_lb 2)\<lparr> maglev_hash := table \<rparr>)
    \<and> dp_delete_maglev_backend False True (ex_backend 0) ((ex_lb 2)\<lparr> maglev_hash := table \<rparr>)
       = Some (GRPC_FAIL DP_GRPC_ERR_BACKIP_DEL, lbval')
    \<and> pos < 503 \<and> back_end_ips lbval' ! nat (maglev_hash lbval' ! pos) = dp_empty_ipv6"
proof -
  have n: "back_end_cnt (ex_lb 2) = 2" by (simp add: ex_lb_def)
  then obtain table where t: "table_ok ((ex_lb 2)\<lparr> maglev_hash := table \<rparr>)"
    using calc_table_ok[of "ex_lb 2"] by auto
  have ok: "lb_ok ((ex_lb 2)\<lparr> maglev_hash := table \<rparr>)" using ex_lb_ok by simp
  have "ex_backend 0 \<in> set (backends ((ex_lb 2)\<lparr> maglev_hash := table \<rparr>))" by (simp add: ex_lb_backends)
  thus ?thesis using maglev_delete_stale[OF ok t, of "ex_backend 0" False True] n ok t by fastforce
qed

end
