(* ===== verification/Dp_Lb.thy ===== *)
theory Dp_Lb
  imports Dp_Maglev
begin

text \<open>
  Load balancers (\<open>src/dp_lb.c\<close>).  The table of balancers holds pointers to
  \<open>lb_value\<close>s, hence an explicit heap: a freed balancer is an unmapped address,
  and an operation that follows a dangling pointer, reads an array out of its
  bounds or does not return is the outcome \<open>None\<close>.  The mapping of identifiers
  owns its private copy of a \<open>lb_key\<close>, which is stored by value.  Allocations are
  arguments: the address a call returns, or whether it succeeds.
\<close>

record lb_key =
  lbk_vni :: uint32
  lbk_ip :: dp_ip_address

record dpgrpc_lb =
  dl_lb_id :: string
  dl_addr :: dp_ip_address
  dl_vni :: uint32
  dl_lbports :: "lb_port list"
  dl_ul_addr6 :: dp_ipv6

record lb_state =
  lb_table :: "lb_key \<rightharpoonup> nat"
  id_map_lb_tbl :: "string \<rightharpoonup> lb_key"
  lb_heap :: "nat \<rightharpoonup> lb_value"

record lb_lib =
  lb_table_ops :: "(lb_key, nat) rte_hash"
  id_map_ops :: "(string, lb_key) rte_hash"

definition dp_lb_init :: "bool \<Rightarrow> bool \<Rightarrow> lb_state dp_result" where
  "dp_lb_init lb_table_created id_map_created =
     (if \<not> lb_table_created then Inl DP_ERROR
      else if \<not> id_map_created then Inl DP_ERROR
      else Inr \<lparr> lb_table = Map.empty, id_map_lb_tbl = Map.empty, lb_heap = Map.empty \<rparr>)"

text \<open>\<open>rte_zmalloc\<close> delivers an object of zero bytes.\<close>

definition lb_zero :: lb_value where
  "lb_zero = \<lparr> lb_id = [], lb_ports = replicate DP_LB_MAX_PORTS \<lparr> lbp_protocol = 0, lbp_port = 0 \<rparr>,
     back_end_ips = replicate DP_LB_MAX_IPS_PER_VIP dp_empty_ipv6,
     maglev_hash = replicate DP_LB_MAGLEV_LOOKUP_SIZE 0, back_end_cnt = 0, lb_ul_addr = dp_empty_ipv6 \<rparr>"

definition lb_update :: "nat \<Rightarrow> (lb_value \<Rightarrow> lb_value) \<Rightarrow> lb_state \<Rightarrow> lb_state" where
  "lb_update l_val f st = st\<lparr> lb_heap := (lb_heap st)(l_val := map_option f (lb_heap st l_val)) \<rparr>"

definition dp_map_lb_handle ::
  "lb_lib \<Rightarrow> bool \<Rightarrow> string \<Rightarrow> lb_key \<Rightarrow> nat \<Rightarrow> lb_state \<Rightarrow> unit dp_result \<times> lb_state" where
  "dp_map_lb_handle lib malloc id_key l_key l_val st =
     (if \<not> malloc then (Inl DP_ERROR, st)
      else
        let st = lb_update l_val (lb_id_update (\<lambda>_. id_key)) st in
        case rte_hash_add_key_data (id_map_ops lib) (id_map_lb_tbl st) id_key l_key of
          Inl ret \<Rightarrow> (Inl (ERRNO (- ret)), st)
        | Inr t \<Rightarrow> (DP_OK, st\<lparr> id_map_lb_tbl := t \<rparr>))"

definition dp_create_lb ::
  "lb_lib \<Rightarrow> nat option \<Rightarrow> bool \<Rightarrow> dpgrpc_lb \<Rightarrow> dp_ipv6 \<Rightarrow> lb_state \<Rightarrow> unit dp_result \<times> lb_state" where
  "dp_create_lb lib zmalloc malloc lb ul_ip st =
     (let lb_key = \<lparr> lbk_vni = dl_vni lb, lbk_ip = dl_addr lb \<rparr> in
      case rte_hash_lookup_data (lb_table_ops lib) (lb_table st) lb_key of
        Inr _ \<Rightarrow> (GRPC_FAIL DP_GRPC_ERR_ALREADY_EXISTS, st)
      | Inl _ \<Rightarrow>
        (case zmalloc of
          None \<Rightarrow> (GRPC_FAIL DP_GRPC_ERR_OUT_OF_MEMORY, st)
        | Some lb_val \<Rightarrow>
          let st = st\<lparr> lb_heap := (lb_heap st)(lb_val \<mapsto> lb_zero) \<rparr> in
          (case rte_hash_add_key_data (lb_table_ops lib) (lb_table st) lb_key lb_val of
            Inl _ \<Rightarrow> (GRPC_FAIL DP_GRPC_ERR_OUT_OF_MEMORY, st\<lparr> lb_heap := (lb_heap st)(lb_val := None) \<rparr>)
          | Inr t \<Rightarrow>
            let st = st\<lparr> lb_table := t \<rparr> in
            (case dp_map_lb_handle lib malloc (dl_lb_id lb) lb_key lb_val st of
              (Inl _, st) \<Rightarrow> (GRPC_FAIL DP_GRPC_ERR_OUT_OF_MEMORY, st\<lparr> lb_heap := (lb_heap st)(lb_val := None) \<rparr>)
            | (Inr _, st) \<Rightarrow>
              (DP_OK, lb_update lb_val (\<lambda>v. v\<lparr> lb_ul_addr := ul_ip, lb_ports := dl_lbports lb \<rparr>) st)))))"

definition dp_get_lb :: "lb_lib \<Rightarrow> string \<Rightarrow> lb_state \<Rightarrow> dpgrpc_lb dp_result option" where
  "dp_get_lb lib id_key st =
     (case rte_hash_lookup_data (id_map_ops lib) (id_map_lb_tbl st) id_key of
       Inl _ \<Rightarrow> Some (GRPC_FAIL DP_GRPC_ERR_NOT_FOUND)
     | Inr lb_k \<Rightarrow>
       (case rte_hash_lookup_data (lb_table_ops lib) (lb_table st) lb_k of
         Inl _ \<Rightarrow> Some (GRPC_FAIL DP_GRPC_ERR_NO_BACKIP)
       | Inr lb_val \<Rightarrow>
         (case lb_heap st lb_val of
           None \<Rightarrow> None
         | Some v \<Rightarrow> Some (Inr \<lparr> dl_lb_id = [], dl_addr = lbk_ip lb_k, dl_vni = lbk_vni lb_k,
             dl_lbports = lb_ports v, dl_ul_addr6 = lb_ul_addr v \<rparr>))))"

definition dp_delete_lb :: "lb_lib \<Rightarrow> string \<Rightarrow> lb_state \<Rightarrow> (unit dp_result \<times> lb_state) option" where
  "dp_delete_lb lib id_key st =
     (case rte_hash_lookup_data (id_map_ops lib) (id_map_lb_tbl st) id_key of
       Inl _ \<Rightarrow> Some (GRPC_FAIL DP_GRPC_ERR_NOT_FOUND, st)
     | Inr lb_k \<Rightarrow>
       let freed =
         (case rte_hash_lookup_data (lb_table_ops lib) (lb_table st) lb_k of
           Inl _ \<Rightarrow> Some st
         | Inr lb_val \<Rightarrow>
           if lb_heap st lb_val = None then None
           else
             let st = st\<lparr> lb_heap := (lb_heap st)(lb_val := None) \<rparr> in
             Some (case rte_hash_del_key (lb_table_ops lib) (lb_table st) lb_k of
                 Inl _ \<Rightarrow> st
               | Inr t \<Rightarrow> st\<lparr> lb_table := t \<rparr>)) in
       (case freed of
         None \<Rightarrow> None
       | Some st \<Rightarrow>
         Some (DP_OK, case rte_hash_del_key (id_map_ops lib) (id_map_lb_tbl st) id_key of
             Inl _ \<Rightarrow> st
           | Inr t \<Rightarrow> st\<lparr> id_map_lb_tbl := t \<rparr>)))"

text \<open>\<open>room n\<close>: the responder can hold one more reply after \<open>n\<close>.  \<open>es\<close> is what
  the iteration over the table of balancers delivers.\<close>

fun list_lbs ::
  "(nat \<Rightarrow> bool) \<Rightarrow> nat \<Rightarrow> (nat \<rightharpoonup> lb_value) \<Rightarrow> (lb_key \<times> nat) list \<Rightarrow> (unit dp_result \<times> dpgrpc_lb list) option" where
  "list_lbs room n heap [] = Some (DP_OK, [])"
| "list_lbs room n heap ((lb_key, lb_val) # es) =
     (if \<not> room n then Some (GRPC_FAIL DP_GRPC_ERR_OUT_OF_MEMORY, [])
      else case heap lb_val of
        None \<Rightarrow> None
      | Some v \<Rightarrow> map_option (apsnd ((#) \<lparr> dl_lb_id = lb_id v, dl_addr = lbk_ip lb_key, dl_vni = lbk_vni lb_key,
             dl_lbports = lb_ports v, dl_ul_addr6 = lb_ul_addr v \<rparr>)) (list_lbs room (Suc n) heap es))"

definition dp_list_lbs ::
  "(nat \<Rightarrow> bool) \<Rightarrow> (lb_key \<times> nat) list \<Rightarrow> lb_state \<Rightarrow> (unit dp_result \<times> dpgrpc_lb list) option" where
  "dp_list_lbs room es st =
     (if dom (id_map_lb_tbl st) = {} then Some (DP_OK, []) else list_lbs room 0 (lb_heap st) es)"

definition dp_is_lb_enabled :: "lb_state \<Rightarrow> bool" where
  "dp_is_lb_enabled st \<longleftrightarrow> dom (lb_table st) \<noteq> {}"

definition dp_is_ip_lb :: "lb_lib \<Rightarrow> dp_flow \<Rightarrow> uint32 \<Rightarrow> lb_state \<Rightarrow> bool" where
  "dp_is_ip_lb lib df vni st =
     (let found = (\<lambda>ip. case rte_hash_lookup_data (lb_table_ops lib) (lb_table st) \<lparr> lbk_vni = vni, lbk_ip = ip \<rparr> of
          Inl _ \<Rightarrow> False | Inr _ \<Rightarrow> True) in
      if df_l3_type df = RTE_ETHER_TYPE_IPV4 then found (dp_set_ipaddr4 (df_dst_addr df))
      else if df_l3_type df = RTE_ETHER_TYPE_IPV6 then found (dp_set_ipaddr6 (df_dst df))
      else False)"

definition dp_lb_is_back_ip_inserted :: "lb_value \<Rightarrow> dp_ipv6 \<Rightarrow> bool" where
  "dp_lb_is_back_ip_inserted val b_ip \<longleftrightarrow> list_ex (\<lambda>ip. dp_ipv6_match ip b_ip) (back_end_ips val)"

fun port_listed :: "lb_port list \<Rightarrow> uint16 \<Rightarrow> uint8 \<Rightarrow> bool" where
  "port_listed [] port_dst proto = False"
| "port_listed (port # ports) port_dst proto =
     (if lbp_port port = 0 then False
      else if lbp_port port = port_dst \<and> lbp_protocol port = proto then True
      else port_listed ports port_dst proto)"

definition dp_lb_port_match :: "lb_value \<Rightarrow> uint16 \<Rightarrow> uint8 \<Rightarrow> bool" where
  "dp_lb_port_match lb_val port_dst proto = port_listed (lb_ports lb_val) port_dst proto"

text \<open>\<open>Some None\<close> is the result \<open>NULL\<close>.\<close>

definition dp_lb_get_backend_ip ::
  "lb_lib \<Rightarrow> (flow_key \<Rightarrow> uint32) \<Rightarrow> flow_key \<Rightarrow> uint32 \<Rightarrow> lb_state \<Rightarrow> dp_ipv6 option option" where
  "dp_lb_get_backend_ip lib dp_get_conntrack_flow_hash_value flow_key vni st =
     (case rte_hash_lookup_data (lb_table_ops lib) (lb_table st) \<lparr> lbk_vni = vni, lbk_ip = fk_l3_dst flow_key \<rparr> of
       Inl _ \<Rightarrow> Some None
     | Inr p \<Rightarrow>
       (case lb_heap st p of
         None \<Rightarrow> None
       | Some lb_val \<Rightarrow>
         if back_end_cnt lb_val = 0 then Some None
         else if \<not> dp_lb_port_match lb_val (fk_port_dst flow_key) (fk_proto flow_key) then Some None
         else
           let pos = maglev_hash lb_val ! (unat (dp_get_conntrack_flow_hash_value flow_key) mod DP_LB_MAGLEV_LOOKUP_SIZE) in
           if pos < 0 \<or> pos \<ge> int DP_LB_MAX_IPS_PER_VIP then None
           else Some (Some (back_end_ips lb_val ! nat pos))))"

fun list_back_ips :: "(nat \<Rightarrow> bool) \<Rightarrow> nat \<Rightarrow> dp_ipv6 list \<Rightarrow> unit dp_result \<times> dp_ip_address list" where
  "list_back_ips room n [] = (DP_OK, [])"
| "list_back_ips room n (ip # ips) =
     (if dp_is_ipv6_zero ip then list_back_ips room n ips
      else if \<not> room n then (GRPC_FAIL DP_GRPC_ERR_OUT_OF_MEMORY, [])
      else apsnd ((#) (dp_set_ipaddr6 ip)) (list_back_ips room (Suc n) ips))"

definition dp_get_single_lb_back_ips ::
  "(nat \<Rightarrow> bool) \<Rightarrow> nat \<Rightarrow> lb_value \<Rightarrow> unit dp_result \<times> dp_ip_address list" where
  "dp_get_single_lb_back_ips room n lb_val = list_back_ips room n (back_end_ips lb_val)"

fun all_back_ips :: "(nat \<Rightarrow> bool) \<Rightarrow> nat \<Rightarrow> (nat \<rightharpoonup> lb_value) \<Rightarrow> (lb_key \<times> nat) list \<Rightarrow> dp_ip_address list option" where
  "all_back_ips room n heap [] = Some []"
| "all_back_ips room n heap ((lb_key, lb_val) # es) =
     (case heap lb_val of
       None \<Rightarrow> None
     | Some v \<Rightarrow>
       let replies = snd (dp_get_single_lb_back_ips room n v) in
       map_option ((@) replies) (all_back_ips room (n + length replies) heap es))"

definition dp_get_all_lb_back_ips ::
  "(nat \<Rightarrow> bool) \<Rightarrow> (lb_key \<times> nat) list \<Rightarrow> lb_state \<Rightarrow> (unit dp_result \<times> dp_ip_address list) option" where
  "dp_get_all_lb_back_ips room es st =
     (if dom (id_map_lb_tbl st) = {} then Some (DP_OK, [])
      else map_option (\<lambda>replies. (DP_OK, replies)) (all_back_ips room 0 (lb_heap st) es))"

definition dp_get_lb_back_ips ::
  "lb_lib \<Rightarrow> (nat \<Rightarrow> bool) \<Rightarrow> (lb_key \<times> nat) list \<Rightarrow> string \<Rightarrow> lb_state \<Rightarrow>
   (unit dp_result \<times> dp_ip_address list) option" where
  "dp_get_lb_back_ips lib room es id_key st =
     (if id_key = [] then dp_get_all_lb_back_ips room es st
      else case rte_hash_lookup_data (id_map_ops lib) (id_map_lb_tbl st) id_key of
        Inl _ \<Rightarrow> Some (GRPC_FAIL DP_GRPC_ERR_NO_LB, [])
      | Inr lb_k \<Rightarrow>
        (case rte_hash_lookup_data (lb_table_ops lib) (lb_table st) lb_k of
          Inl _ \<Rightarrow> Some (GRPC_FAIL DP_GRPC_ERR_NO_BACKIP, [])
        | Inr lb_val \<Rightarrow> map_option (dp_get_single_lb_back_ips room 0) (lb_heap st lb_val)))"

definition dp_add_lb_back_ip ::
  "lb_lib \<Rightarrow> bool \<Rightarrow> bool \<Rightarrow> string \<Rightarrow> dp_ipv6 \<Rightarrow> lb_state \<Rightarrow> (unit dp_result \<times> lb_state) option" where
  "dp_add_lb_back_ip lib zmalloc_perm zmalloc_next id_key back_ip st =
     (case rte_hash_lookup_data (id_map_ops lib) (id_map_lb_tbl st) id_key of
       Inl _ \<Rightarrow> Some (GRPC_FAIL DP_GRPC_ERR_NO_LB, st)
     | Inr lb_k \<Rightarrow>
       (case rte_hash_lookup_data (lb_table_ops lib) (lb_table st) lb_k of
         Inl _ \<Rightarrow> Some (GRPC_FAIL DP_GRPC_ERR_NO_BACKIP, st)
       | Inr p \<Rightarrow>
         (case lb_heap st p of
           None \<Rightarrow> None
         | Some lb_val \<Rightarrow>
           if dp_lb_is_back_ip_inserted lb_val back_ip then Some (GRPC_FAIL DP_GRPC_ERR_ALREADY_EXISTS, st)
           else
             (case dp_add_maglev_backend zmalloc_perm zmalloc_next back_ip lb_val of
               None \<Rightarrow> None
             | Some (Inl _, lb_val) \<Rightarrow>
               Some (GRPC_FAIL DP_GRPC_ERR_BACKIP_ADD, lb_update p (\<lambda>_. lb_val) st)
             | Some (Inr _, lb_val) \<Rightarrow> Some (DP_OK, lb_update p (\<lambda>_. lb_val) st)))))"

definition dp_del_lb_back_ip ::
  "lb_lib \<Rightarrow> bool \<Rightarrow> bool \<Rightarrow> string \<Rightarrow> dp_ipv6 \<Rightarrow> lb_state \<Rightarrow> (unit dp_result \<times> lb_state) option" where
  "dp_del_lb_back_ip lib zmalloc_perm zmalloc_next id_key back_ip st =
     (case rte_hash_lookup_data (id_map_ops lib) (id_map_lb_tbl st) id_key of
       Inl _ \<Rightarrow> Some (GRPC_FAIL DP_GRPC_ERR_NO_LB, st)
     | Inr lb_k \<Rightarrow>
       (case rte_hash_lookup_data (lb_table_ops lib) (lb_table st) lb_k of
         Inl _ \<Rightarrow> Some (GRPC_FAIL DP_GRPC_ERR_NO_BACKIP, st)
       | Inr p \<Rightarrow>
         (case lb_heap st p of
           None \<Rightarrow> None
         | Some lb_val \<Rightarrow>
           map_option (apsnd (\<lambda>lb_val. lb_update p (\<lambda>_. lb_val) st))
             (dp_delete_maglev_backend zmalloc_perm zmalloc_next back_ip lb_val))))"

section \<open>The contract of the two tables\<close>

locale lb_library =
  fixes lib :: lb_lib
  assumes lb_table_ht: "hash_table (lb_table_ops lib)"
    and id_map_ht: "hash_table (id_map_ops lib)"

sublocale lb_library \<subseteq> tbl: hash_table "lb_table_ops lib"
  by (rule lb_table_ht)

sublocale lb_library \<subseteq> ids: hash_table "id_map_ops lib"
  by (rule id_map_ht)

definition ref_lb_lib :: "nat \<Rightarrow> lb_lib" where
  "ref_lb_lib cap = \<lparr> lb_table_ops = ref_hash cap, id_map_ops = ref_hash cap \<rparr>"

interpretation reflb: lb_library "ref_lb_lib cap"
  by (rule lb_library.intro) (simp_all add: ref_lb_lib_def refh.hash_table_axioms)

section \<open>The invariant\<close>

text \<open>A balancer in memory: sorted backends, and table positions within the
  array of backends.\<close>

definition lb_value_ok :: "lb_value \<Rightarrow> bool" where
  "lb_value_ok v \<longleftrightarrow> lb_ok v \<and> length (maglev_hash v) = 503 \<and> set (maglev_hash v) \<subseteq> int ` {0..<64}"

text \<open>Every balancer of the table is allocated and is not shared; every
  identifier leads to a balancer that carries it.\<close>

definition lb_inv :: "lb_state \<Rightarrow> bool" where
  "lb_inv st \<longleftrightarrow>
     (\<forall>k p. lb_table st k = Some p \<longrightarrow> (\<exists>v. lb_heap st p = Some v \<and> lb_value_ok v))
     \<and> (\<forall>k k' p. lb_table st k = Some p \<longrightarrow> lb_table st k' = Some p \<longrightarrow> k = k')
     \<and> (\<forall>i k. id_map_lb_tbl st i = Some k \<longrightarrow>
         (\<exists>p v. lb_table st k = Some p \<and> lb_heap st p = Some v \<and> lb_id v = i))"

text \<open>What a client sees under an identifier: the address of the balancer and its state.\<close>

definition lb_view :: "lb_state \<Rightarrow> string \<rightharpoonup> lb_key \<times> lb_value" where
  "lb_view st i = (case id_map_lb_tbl st i of
     None \<Rightarrow> None
   | Some k \<Rightarrow> (case lb_table st k of None \<Rightarrow> None | Some p \<Rightarrow> map_option (\<lambda>v. (k, v)) (lb_heap st p)))"

section \<open>Backends of one balancer\<close>

lemma backend_simps [simp]:
  "lb_id (with_backend x v) = lb_id v" "lb_id (without_backend x v) = lb_id v"
  "lb_ports (with_backend x v) = lb_ports v" "lb_ports (without_backend x v) = lb_ports v"
  "lb_ul_addr (with_backend x v) = lb_ul_addr v" "lb_ul_addr (without_backend x v) = lb_ul_addr v"
  by (simp_all add: with_backend_def without_backend_def Let_def)

lemma inserted_iff: "dp_lb_is_back_ip_inserted v x \<longleftrightarrow> x \<in> set (back_end_ips v)"
  by (auto simp: dp_lb_is_back_ip_inserted_def list_ex_iff dp_ipv6_match_eq)

lemma table_ok_value:
  assumes "lb_ok v" "table_ok v" "0 < back_end_cnt v"
  shows "lb_value_ok v"
proof -
  have "{0..<back_end_cnt v} \<subseteq> {0..<64}" using assms(1) by (auto simp: lb_ok_def)
  thus ?thesis using assms by (auto simp: lb_value_ok_def table_ok_def)
qed

text \<open>Everything of a balancer but its backends and its table.\<close>

definition lb_frame :: "lb_value \<Rightarrow> string \<times> lb_port list \<times> dp_ipv6" where
  "lb_frame v = (lb_id v, lb_ports v, lb_ul_addr v)"

lemma add_backend_value:
  assumes ok: "lb_value_ok v" and new: "\<not> dp_lb_is_back_ip_inserted v x"
  shows "\<exists>r v'. dp_add_maglev_backend a b x v = Some (r, v') \<and> lb_value_ok v' \<and> lb_frame v' = lb_frame v
    \<and> (r = DP_OK \<longleftrightarrow> back_end_cnt v < 64 \<and> a \<and> b) \<and> (r = DP_OK \<longrightarrow> table_ok v')
    \<and> backends v' = (if back_end_cnt v < 64 then insort x (backends v) else backends v)"
proof (cases "back_end_cnt v < 64")
  case True
  have l: "lb_ok v" using ok by (simp add: lb_value_ok_def)
  note w = with_backend_ok[OF l True free_slot_empty[OF l True]]
  have x: "x \<notin> set (back_end_ips v)" using new by (simp add: inserted_iff)
  obtain t where t: "dp_maglev_calc_hash_lookup_table a b (with_backend x v)
      = Some (if a \<and> b then DP_OK else Inl DP_ERROR, (with_backend x v)\<lparr> maglev_hash := t \<rparr>)"
      "if a \<and> b then table_ok ((with_backend x v)\<lparr> maglev_hash := t \<rparr>) else t = maglev_hash (with_backend x v)"
    using calc_table_cases[of "with_backend x v" a b] by auto
  have "lb_value_ok ((with_backend x v)\<lparr> maglev_hash := t \<rparr>)"
  proof (cases "a \<and> b")
    case True
    thus ?thesis using t w x by (intro table_ok_value) auto
  next
    case False
    thus ?thesis using t(2) w[OF x x] ok by (auto simp: lb_value_ok_def)
  qed
  thus ?thesis using t w[OF x x] True add_maglev_backend_eq[OF l True, of a b x] by (auto simp: lb_frame_def)
next
  case False
  thus ?thesis using ok by (simp add: dp_add_maglev_backend_def DP_LB_MAX_IPS_PER_VIP_def)
qed

lemma delete_backend_value:
  assumes ok: "lb_value_ok v"
  shows "\<exists>r v'. dp_delete_maglev_backend a b x v = Some (r, v') \<and> lb_value_ok v' \<and> lb_frame v' = lb_frame v
    \<and> backends v' = remove1 x (backends v)
    \<and> (r = DP_OK \<longleftrightarrow> x \<in> set (backends v) \<and> (a \<and> b \<or> back_end_cnt v = 1)) \<and> (r = DP_OK \<longrightarrow> table_ok v')"
proof (cases "x \<in> set (backends v)")
  case True
  have l: "lb_ok v" using ok by (simp add: lb_value_ok_def)
  note w = without_backend_ok[OF l True]
  show ?thesis
  proof (cases "back_end_cnt v = 1")
    case one: True
    thus ?thesis using w ok True delete_maglev_backend_eq[OF l, of a b x]
      by (simp add: lb_frame_def lb_value_ok_def table_ok_def)
  next
    case False
    have n: "0 < back_end_cnt (without_backend x v)"
      using True False by (cases "back_end_cnt v") (auto simp: backends_def)
    obtain t where t: "dp_maglev_calc_hash_lookup_table a b (without_backend x v)
        = Some (if a \<and> b then DP_OK else Inl DP_ERROR, (without_backend x v)\<lparr> maglev_hash := t \<rparr>)"
        "if a \<and> b then table_ok ((without_backend x v)\<lparr> maglev_hash := t \<rparr>) else t = maglev_hash (without_backend x v)"
      using calc_table_cases[OF n] by blast
    have "lb_value_ok ((without_backend x v)\<lparr> maglev_hash := t \<rparr>)"
    proof (cases "a \<and> b")
      case True
      thus ?thesis using t w n by (intro table_ok_value) auto
    next
      case False
      thus ?thesis using t(2) w ok by (auto simp: lb_value_ok_def)
    qed
    thus ?thesis using t w True False delete_maglev_backend_eq[OF l, of a b x] by (auto simp: lb_frame_def)
  qed
next
  case False
  thus ?thesis using ok delete_maglev_backend_eq[of v a b x]
    by (simp add: lb_value_ok_def remove1_idem)
qed

section \<open>The operations keep the invariant\<close>

definition key_of :: "dpgrpc_lb \<Rightarrow> lb_key" where
  "key_of lb = \<lparr> lbk_vni = dl_vni lb, lbk_ip = dl_addr lb \<rparr>"

definition lb_created :: "dpgrpc_lb \<Rightarrow> dp_ipv6 \<Rightarrow> lb_value" where
  "lb_created lb ul_ip = lb_zero\<lparr> lb_id := dl_lb_id lb, lb_ul_addr := ul_ip, lb_ports := dl_lbports lb \<rparr>"

definition state_created :: "nat \<Rightarrow> dpgrpc_lb \<Rightarrow> dp_ipv6 \<Rightarrow> lb_state \<Rightarrow> lb_state" where
  "state_created p lb ul_ip st = st\<lparr> lb_table := (lb_table st)(key_of lb \<mapsto> p),
     id_map_lb_tbl := (id_map_lb_tbl st)(dl_lb_id lb \<mapsto> key_of lb),
     lb_heap := (lb_heap st)(p \<mapsto> lb_created lb ul_ip) \<rparr>"

lemma lb_created_ok: "lb_value_ok (lb_created lb ul_ip)"
  by (auto simp: lb_value_ok_def lb_created_def lb_zero_def lb_ok_def backends_def
      DP_LB_MAX_IPS_PER_VIP_def DP_LB_MAGLEV_LOOKUP_SIZE_def)

lemma lb_created_simps [simp]: "lb_id (lb_created lb ul_ip) = dl_lb_id lb"
  "lb_ports (lb_created lb ul_ip) = dl_lbports lb" "lb_ul_addr (lb_created lb ul_ip) = ul_ip"
  "back_end_cnt (lb_created lb ul_ip) = 0"
  by (simp_all add: lb_created_def lb_zero_def)

lemma lb_invD:
  assumes "lb_inv st" "lb_table st k = Some p"
  shows "\<exists>v. lb_heap st p = Some v \<and> lb_value_ok v"
  using assms unfolding lb_inv_def by blast

lemma lb_inv_id:
  assumes "lb_inv st" "id_map_lb_tbl st i = Some k"
  shows "\<exists>p v. lb_table st k = Some p \<and> lb_heap st p = Some v \<and> lb_id v = i \<and> lb_value_ok v"
  using assms unfolding lb_inv_def by (metis option.inject)

lemma lb_inv_created:
  assumes inv: "lb_inv st" and p: "lb_heap st p = None" and i: "id_map_lb_tbl st (dl_lb_id lb) = None"
    and k: "lb_table st (key_of lb) = None"
  shows "lb_inv (state_created p lb ul_ip st)
    \<and> lb_view (state_created p lb ul_ip st) = (lb_view st)(dl_lb_id lb \<mapsto> (key_of lb, lb_created lb ul_ip))"
proof -
  have np: "lb_table st k' \<noteq> Some p" for k' using lb_invD[OF inv, of k' p] p by auto
  have ids: "id_map_lb_tbl st j \<noteq> Some (key_of lb)" for j using lb_inv_id[OF inv, of j "key_of lb"] k by auto
  have "lb_inv (state_created p lb ul_ip st)"
    unfolding lb_inv_def
  proof (intro conjI allI impI)
    fix k' q assume "lb_table (state_created p lb ul_ip st) k' = Some q"
    thus "\<exists>v. lb_heap (state_created p lb ul_ip st) q = Some v \<and> lb_value_ok v"
      using lb_invD[OF inv, of k' q] lb_created_ok np by (auto simp: state_created_def split: if_splits)
  next
    fix k1 k2 q assume "lb_table (state_created p lb ul_ip st) k1 = Some q" "lb_table (state_created p lb ul_ip st) k2 = Some q"
    thus "k1 = k2" using np inv by (auto simp: state_created_def lb_inv_def split: if_splits)
  next
    fix j k' assume "id_map_lb_tbl (state_created p lb ul_ip st) j = Some k'"
    thus "\<exists>q v. lb_table (state_created p lb ul_ip st) k' = Some q
        \<and> lb_heap (state_created p lb ul_ip st) q = Some v \<and> lb_id v = j"
      using lb_inv_id[OF inv, of j k'] np[of k'] ids[of j]
      by (cases "j = dl_lb_id lb") (auto simp: state_created_def)
  qed
  moreover have "lb_view (state_created p lb ul_ip st) j
      = ((lb_view st)(dl_lb_id lb \<mapsto> (key_of lb, lb_created lb ul_ip))) j" for j
  proof (cases "j = dl_lb_id lb \<or> id_map_lb_tbl st j = None")
    case True
    thus ?thesis by (auto simp: lb_view_def state_created_def)
  next
    case False
    then obtain k' q where kq: "id_map_lb_tbl st j = Some k'" "lb_table st k' = Some q"
      using lb_inv_id[OF inv] by fastforce
    hence "k' \<noteq> key_of lb" "q \<noteq> p" using ids np by auto
    thus ?thesis using kq False by (simp add: lb_view_def state_created_def)
  qed
  ultimately show ?thesis by blast
qed

lemma lb_update_inv:
  assumes inv: "lb_inv st" and k: "lb_table st k = Some p" and v: "lb_heap st p = Some v"
    and ok: "lb_value_ok v'" and fr: "lb_frame v' = lb_frame v"
  shows "lb_inv (lb_update p (\<lambda>_. v') st)"
  unfolding lb_inv_def
proof (intro conjI allI impI)
  let ?st = "lb_update p (\<lambda>_. v') st"
  show "\<exists>v. lb_heap ?st q = Some v \<and> lb_value_ok v" if "lb_table ?st k' = Some q" for k' q
    using that lb_invD[OF inv, of k' q] ok by (auto simp: lb_update_def)
  show "k1 = k2" if "lb_table ?st k1 = Some q" "lb_table ?st k2 = Some q" for k1 k2 q
    using that inv by (auto simp: lb_update_def lb_inv_def)
  show "\<exists>q v. lb_table ?st k' = Some q \<and> lb_heap ?st q = Some v \<and> lb_id v = j"
    if "id_map_lb_tbl ?st j = Some k'" for j k'
    using that lb_inv_id[OF inv, of j k'] v fr by (auto simp: lb_update_def lb_frame_def)
qed

lemma lb_update_view:
  assumes inv: "lb_inv st" and i: "id_map_lb_tbl st i = Some k" and k: "lb_table st k = Some p"
    and v: "lb_heap st p = Some v"
  shows "lb_view (lb_update p (\<lambda>_. v') st) = (lb_view st)(i \<mapsto> (k, v'))"
proof
  fix j
  have other: "j = i" if "id_map_lb_tbl st j = Some k'" "lb_table st k' = Some p" for k'
    using lb_inv_id[OF inv that(1)] lb_inv_id[OF inv i] that(2) k by auto
  show "lb_view (lb_update p (\<lambda>_. v') st) j = ((lb_view st)(i \<mapsto> (k, v'))) j"
  proof (cases "j = i")
    case True
    thus ?thesis using i k v by (simp add: lb_view_def lb_update_def)
  next
    case False
    hence "lb_table st k' \<noteq> Some p" if "id_map_lb_tbl st j = Some k'" for k' using other that by blast
    thus ?thesis using False by (simp add: lb_view_def lb_update_def split: option.split) blast
  qed
qed

definition state_deleted :: "string \<Rightarrow> lb_key \<Rightarrow> nat \<Rightarrow> lb_state \<Rightarrow> lb_state" where
  "state_deleted i k p st = \<lparr> lb_table = (lb_table st)(k := None),
     id_map_lb_tbl = (id_map_lb_tbl st)(i := None), lb_heap = (lb_heap st)(p := None) \<rparr>"

lemma lb_inv_deleted:
  assumes inv: "lb_inv st" and i: "id_map_lb_tbl st i = Some k" and k: "lb_table st k = Some p"
  shows "lb_inv (state_deleted i k p st) \<and> lb_view (state_deleted i k p st) = (lb_view st)(i := None)"
proof -
  have other: "j = i" if "id_map_lb_tbl st j = Some k'" "lb_table st k' = Some p" for j k'
    using lb_inv_id[OF inv that(1)] lb_inv_id[OF inv i] that(2) k by auto
  have ptr: "k' = k" if "lb_table st k' = Some p" for k'
    using inv that k unfolding lb_inv_def by blast
  have "lb_inv (state_deleted i k p st)"
    unfolding lb_inv_def
  proof (intro conjI allI impI)
    fix k' q assume "lb_table (state_deleted i k p st) k' = Some q"
    thus "\<exists>v. lb_heap (state_deleted i k p st) q = Some v \<and> lb_value_ok v"
      using lb_invD[OF inv, of k' q] ptr by (auto simp: state_deleted_def split: if_splits)
  next
    fix k1 k2 q assume "lb_table (state_deleted i k p st) k1 = Some q" "lb_table (state_deleted i k p st) k2 = Some q"
    thus "k1 = k2" using inv by (auto simp: state_deleted_def lb_inv_def split: if_splits)
  next
    fix j k' assume j: "id_map_lb_tbl (state_deleted i k p st) j = Some k'"
    hence ji: "j \<noteq> i" "id_map_lb_tbl st j = Some k'" by (auto simp: state_deleted_def split: if_splits)
    hence kk: "k' \<noteq> k" using other[of j k] k by auto
    obtain q v where q: "lb_table st k' = Some q" "lb_heap st q = Some v" "lb_id v = j"
      using lb_inv_id[OF inv ji(2)] by blast
    hence "q \<noteq> p" using ptr kk by auto
    thus "\<exists>q v. lb_table (state_deleted i k p st) k' = Some q
        \<and> lb_heap (state_deleted i k p st) q = Some v \<and> lb_id v = j"
      using q kk by (simp add: state_deleted_def)
  qed
  moreover have "lb_view (state_deleted i k p st) j = ((lb_view st)(i := None)) j" for j
  proof (cases "id_map_lb_tbl st j")
    case None
    thus ?thesis by (simp add: lb_view_def state_deleted_def)
  next
    case (Some k')
    then obtain q where "lb_table st k' = Some q" using lb_inv_id[OF inv] by blast
    thus ?thesis using Some other[OF Some] k by (auto simp: lb_view_def state_deleted_def)
  qed
  ultimately show ?thesis by blast
qed

context lb_library
begin

lemma create_exists:
  "lb_table st (key_of lb) = Some p \<Longrightarrow>
   dp_create_lb lib zmalloc malloc lb ul_ip st = (GRPC_FAIL DP_GRPC_ERR_ALREADY_EXISTS, st)"
  by (simp add: dp_create_lb_def key_of_def tbl.lookup_data)

lemma create_cases:
  assumes fresh: "\<And>p. zmalloc = Some p \<Longrightarrow> lb_heap st p = None"
  obtains (refused) e where "dp_create_lb lib zmalloc malloc lb ul_ip st = (Inl e, st)"
  | (dangling) p where "zmalloc = Some p" "lb_table st (key_of lb) = None"
      "dp_create_lb lib zmalloc malloc lb ul_ip st
        = (GRPC_FAIL DP_GRPC_ERR_OUT_OF_MEMORY, st\<lparr> lb_table := (lb_table st)(key_of lb \<mapsto> p) \<rparr>)"
  | (created) p where "zmalloc = Some p" "lb_table st (key_of lb) = None"
      "dp_create_lb lib zmalloc malloc lb ul_ip st = (DP_OK, state_created p lb ul_ip st)"
proof (cases "lb_table st (key_of lb)")
  case (Some p)
  thus ?thesis using create_exists refused by blast
next
  case k: None
  show ?thesis
  proof (cases zmalloc)
    case None
    thus ?thesis using k refused by (simp add: dp_create_lb_def key_of_def tbl.lookup_data)
  next
    case z: (Some p)
    have p: "lb_heap st p = None" using fresh z by simp
    have heap: "(lb_heap st)(p := None) = lb_heap st" using p by auto
    show ?thesis
    proof (cases rule: tbl.add_cases[of "lb_table st" "key_of lb" p])
      case (fails e)
      thus ?thesis using k z heap refused
        by (simp add: dp_create_lb_def key_of_def tbl.lookup_data Let_def)
    next
      case stored
      note s = stored k z heap
      show ?thesis
      proof (cases malloc)
        case False
        thus ?thesis using s dangling[of p]
          by (simp add: dp_create_lb_def key_of_def tbl.lookup_data Let_def dp_map_lb_handle_def)
      next
        case True
        show ?thesis
        proof (cases rule: ids.add_cases[of "id_map_lb_tbl st" "dl_lb_id lb" "key_of lb"])
          case (fails e)
          thus ?thesis using s True dangling[of p]
            by (simp add: dp_create_lb_def key_of_def tbl.lookup_data Let_def dp_map_lb_handle_def lb_update_def)
        next
          case stored
          thus ?thesis using s True created[of p]
            by (simp add: dp_create_lb_def key_of_def tbl.lookup_data Let_def dp_map_lb_handle_def lb_update_def
                state_created_def lb_created_def)
        qed
      qed
    qed
  qed
qed

lemma delete_unknown:
  "id_map_lb_tbl st i = None \<Longrightarrow> dp_delete_lb lib i st = Some (GRPC_FAIL DP_GRPC_ERR_NOT_FOUND, st)"
  by (simp add: dp_delete_lb_def ids.lookup_data)

lemma delete_eq:
  assumes "id_map_lb_tbl st i = Some k" "lb_table st k = Some p" "lb_heap st p = Some v"
  shows "dp_delete_lb lib i st = Some (DP_OK, state_deleted i k p st)"
  using assms by (simp add: dp_delete_lb_def ids.lookup_data tbl.lookup_data Let_def ids.del_key tbl.del_key
      state_deleted_def)

lemma get_eq:
  assumes "lb_inv st"
  shows "dp_get_lb lib i st = Some (case lb_view st i of
      None \<Rightarrow> GRPC_FAIL DP_GRPC_ERR_NOT_FOUND
    | Some (k, v) \<Rightarrow> Inr \<lparr> dl_lb_id = [], dl_addr = lbk_ip k, dl_vni = lbk_vni k,
        dl_lbports = lb_ports v, dl_ul_addr6 = lb_ul_addr v \<rparr>)"
  using lb_inv_id[OF assms, of i]
  by (cases "id_map_lb_tbl st i") (auto simp: dp_get_lb_def lb_view_def ids.lookup_data tbl.lookup_data)

lemma viewD:
  assumes "lb_inv st" "lb_view st i = Some (k, v)"
  shows "\<exists>p. id_map_lb_tbl st i = Some k \<and> lb_table st k = Some p \<and> lb_heap st p = Some v \<and> lb_value_ok v"
  using assms lb_invD[OF assms(1), of k] by (auto simp: lb_view_def split: option.splits)

lemma add_back_ip_view:
  assumes inv: "lb_inv st" and i: "lb_view st i = Some (k, v)"
  shows "\<exists>r st' v'. dp_add_lb_back_ip lib a b i x st = Some (r, st') \<and> lb_inv st'
    \<and> lb_view st' = (lb_view st)(i \<mapsto> (k, v')) \<and> lb_frame v' = lb_frame v
    \<and> backends v' = (if x \<notin> set (back_end_ips v) \<and> back_end_cnt v < 64 then insort x (backends v) else backends v)
    \<and> (r = DP_OK \<longleftrightarrow> x \<notin> set (back_end_ips v) \<and> back_end_cnt v < 64 \<and> a \<and> b)
    \<and> (r = DP_OK \<longrightarrow> table_ok v')"
proof -
  obtain p where p: "id_map_lb_tbl st i = Some k" "lb_table st k = Some p" "lb_heap st p = Some v" "lb_value_ok v"
    using viewD[OF inv i] by blast
  show ?thesis
  proof (cases "dp_lb_is_back_ip_inserted v x")
    case True
    have "lb_view st = (lb_view st)(i \<mapsto> (k, v))" using i by auto
    thus ?thesis using p True inv
      by (auto simp: dp_add_lb_back_ip_def ids.lookup_data tbl.lookup_data inserted_iff)
  next
    case False
    obtain r v' where r: "dp_add_maglev_backend a b x v = Some (r, v')" "lb_value_ok v'" "lb_frame v' = lb_frame v"
        "r = DP_OK \<longleftrightarrow> back_end_cnt v < 64 \<and> a \<and> b" "r = DP_OK \<longrightarrow> table_ok v'"
        "backends v' = (if back_end_cnt v < 64 then insort x (backends v) else backends v)"
      using add_backend_value[OF p(4) False, of a b] by blast
    have "dp_add_lb_back_ip lib a b i x st
        = Some (if r = DP_OK then DP_OK else GRPC_FAIL DP_GRPC_ERR_BACKIP_ADD, lb_update p (\<lambda>_. v') st)"
      using p False r(1) by (cases r) (auto simp: dp_add_lb_back_ip_def ids.lookup_data tbl.lookup_data)
    thus ?thesis
      using lb_update_inv[OF inv p(2,3) r(2,3)] lb_update_view[OF inv p(1-3), of v'] r(3-6) False
      by (auto simp: inserted_iff)
  qed
qed

lemma del_back_ip_view:
  assumes inv: "lb_inv st" and i: "lb_view st i = Some (k, v)"
  shows "\<exists>r st' v'. dp_del_lb_back_ip lib a b i x st = Some (r, st') \<and> lb_inv st'
    \<and> lb_view st' = (lb_view st)(i \<mapsto> (k, v')) \<and> lb_frame v' = lb_frame v
    \<and> backends v' = remove1 x (backends v)
    \<and> (r = DP_OK \<longleftrightarrow> x \<in> set (backends v) \<and> (a \<and> b \<or> back_end_cnt v = 1))
    \<and> (r = DP_OK \<longrightarrow> table_ok v')"
proof -
  obtain p where p: "id_map_lb_tbl st i = Some k" "lb_table st k = Some p" "lb_heap st p = Some v" "lb_value_ok v"
    using viewD[OF inv i] by blast
  obtain r v' where r: "dp_delete_maglev_backend a b x v = Some (r, v')" "lb_value_ok v'" "lb_frame v' = lb_frame v"
      "backends v' = remove1 x (backends v)"
      "r = DP_OK \<longleftrightarrow> x \<in> set (backends v) \<and> (a \<and> b \<or> back_end_cnt v = 1)" "r = DP_OK \<longrightarrow> table_ok v'"
    using delete_backend_value[OF p(4), of a b x] by blast
  have "dp_del_lb_back_ip lib a b i x st = Some (r, lb_update p (\<lambda>_. v') st)"
    using p r(1) by (simp add: dp_del_lb_back_ip_def ids.lookup_data tbl.lookup_data)
  thus ?thesis
    using lb_update_inv[OF inv p(2,3) r(2,3)] lb_update_view[OF inv p(1-3), of v'] r(3-6) by auto
qed

lemma back_ip_unknown:
  assumes "lb_inv st" "lb_view st i = None"
  shows "dp_add_lb_back_ip lib a b i x st = Some (GRPC_FAIL DP_GRPC_ERR_NO_LB, st)"
    "dp_del_lb_back_ip lib a b i x st = Some (GRPC_FAIL DP_GRPC_ERR_NO_LB, st)"
    "dp_delete_lb lib i st = Some (GRPC_FAIL DP_GRPC_ERR_NOT_FOUND, st)"
proof -
  have "id_map_lb_tbl st i = None"
    using assms lb_inv_id[OF assms(1), of i] by (auto simp: lb_view_def split: option.splits)
  thus "dp_add_lb_back_ip lib a b i x st = Some (GRPC_FAIL DP_GRPC_ERR_NO_LB, st)"
    "dp_del_lb_back_ip lib a b i x st = Some (GRPC_FAIL DP_GRPC_ERR_NO_LB, st)"
    "dp_delete_lb lib i st = Some (GRPC_FAIL DP_GRPC_ERR_NOT_FOUND, st)"
    by (simp_all add: dp_add_lb_back_ip_def dp_del_lb_back_ip_def delete_unknown ids.lookup_data)
qed

lemma delete_view:
  assumes inv: "lb_inv st" and i: "lb_view st i = Some (k, v)"
  shows "\<exists>st'. dp_delete_lb lib i st = Some (DP_OK, st') \<and> lb_inv st' \<and> lb_view st' = (lb_view st)(i := None)
    \<and> lb_table st' = (lb_table st)(k := None)"
proof -
  obtain p where p: "id_map_lb_tbl st i = Some k" "lb_table st k = Some p" "lb_heap st p = Some v"
    using viewD[OF inv i] by blast
  show ?thesis using delete_eq[OF p] lb_inv_deleted[OF inv p(1,2)] by (simp add: state_deleted_def)
qed

text \<open>The packet path.\<close>

lemma get_backend_eq:
  assumes inv: "lb_inv st"
  shows "dp_lb_get_backend_ip lib fh fk vni st =
    (case lb_table st \<lparr> lbk_vni = vni, lbk_ip = fk_l3_dst fk \<rparr> of
      None \<Rightarrow> Some None
    | Some p \<Rightarrow> (let v = the (lb_heap st p) in
        if back_end_cnt v = 0 \<or> \<not> dp_lb_port_match v (fk_port_dst fk) (fk_proto fk) then Some None
        else Some (Some (back_end_ips v ! nat (maglev_hash v ! (unat (fh fk) mod 503))))))"
proof (cases "lb_table st \<lparr> lbk_vni = vni, lbk_ip = fk_l3_dst fk \<rparr>")
  case None
  thus ?thesis by (simp add: dp_lb_get_backend_ip_def tbl.lookup_data)
next
  case (Some p)
  obtain v where v: "lb_heap st p = Some v" "lb_value_ok v" using lb_invD[OF inv Some] by blast
  let ?m = "maglev_hash v ! (unat (fh fk) mod 503)"
  have "unat (fh fk) mod 503 < length (maglev_hash v)" using v(2) by (simp add: lb_value_ok_def)
  hence "?m \<in> set (maglev_hash v)" by (rule nth_mem)
  hence "?m \<in> int ` {0..<64}" using v(2) unfolding lb_value_ok_def by blast
  hence "0 \<le> ?m" "?m < 64" by auto
  thus ?thesis using Some v
    by (simp add: dp_lb_get_backend_ip_def tbl.lookup_data Let_def size_503 DP_LB_MAX_IPS_PER_VIP_def)
qed

end

section \<open>Requests as steps\<close>

text \<open>The requests on the balancers, with any conforming tables and any outcome of
  the allocations.  A creation comes with an identifier that is not in use, and its
  entry in the mapping of identifiers can be made: the two cases the code does
  not handle are the subject of two properties below.\<close>

inductive lb_step :: "lb_state \<Rightarrow> lb_state \<Rightarrow> bool" where
  create: "lb_step st st'" if "lb_library lib" "\<And>p. zmalloc = Some p \<Longrightarrow> lb_heap st p = None"
    "id_map_lb_tbl st (dl_lb_id lb) = None"
    "rte_hash_add_key_data (id_map_ops lib) (id_map_lb_tbl st) (dl_lb_id lb) (key_of lb) = Inr t"
    "dp_create_lb lib zmalloc True lb ul_ip st = (r, st')"
| delete: "lb_step st st'" if "lb_library lib" "dp_delete_lb lib i st = Some (r, st')"
| add_back: "lb_step st st'" if "lb_library lib" "dp_add_lb_back_ip lib a b i x st = Some (r, st')"
| del_back: "lb_step st st'" if "lb_library lib" "dp_del_lb_back_ip lib a b i x st = Some (r, st')"

inductive_cases lb_step_cases: "lb_step st st'"

definition lb_initial :: "lb_state \<Rightarrow> bool" where
  "lb_initial st \<longleftrightarrow> dp_lb_init True True = Inr st"

lemma lb_initial_inv: "lb_initial st \<Longrightarrow> lb_inv st"
  by (auto simp: lb_initial_def dp_lb_init_def lb_inv_def)

context lb_library
begin

lemma create_not_dangling:
  assumes fresh: "\<And>p. zmalloc = Some p \<Longrightarrow> lb_heap st p = None"
    and id: "rte_hash_add_key_data (id_map_ops lib) (id_map_lb_tbl st) (dl_lb_id lb) (key_of lb) = Inr t"
  shows "(\<exists>e. dp_create_lb lib zmalloc True lb ul_ip st = (Inl e, st))
    \<or> (\<exists>p. zmalloc = Some p \<and> lb_table st (key_of lb) = None
        \<and> dp_create_lb lib zmalloc True lb ul_ip st = (DP_OK, state_created p lb ul_ip st))"
proof (cases "lb_table st (key_of lb)")
  case (Some p)
  thus ?thesis using create_exists by blast
next
  case k: None
  have t: "t = (id_map_lb_tbl st)(dl_lb_id lb \<mapsto> key_of lb)" using ids.add_key_data[OF id] .
  show ?thesis
  proof (cases zmalloc)
    case None
    thus ?thesis using k by (simp add: dp_create_lb_def key_of_def tbl.lookup_data)
  next
    case z: (Some p)
    have heap: "(lb_heap st)(p := None) = lb_heap st" using fresh z by auto
    show ?thesis
    proof (cases rule: tbl.add_cases[of "lb_table st" "key_of lb" p])
      case (fails e)
      thus ?thesis using k z heap by (simp add: dp_create_lb_def key_of_def tbl.lookup_data Let_def)
    next
      case stored
      thus ?thesis using k z id t
        by (simp add: dp_create_lb_def key_of_def tbl.lookup_data Let_def dp_map_lb_handle_def lb_update_def
            state_created_def lb_created_def)
    qed
  qed
qed

lemma back_ip_inv:
  assumes inv: "lb_inv st"
  shows "dp_add_lb_back_ip lib a b i x st = Some (r, st') \<Longrightarrow> lb_inv st'"
    "dp_del_lb_back_ip lib a b i x st = Some (r, st') \<Longrightarrow> lb_inv st'"
    "dp_delete_lb lib i st = Some (r, st') \<Longrightarrow> lb_inv st'"
proof (atomize (full), cases "lb_view st i")
  case None
  show "(dp_add_lb_back_ip lib a b i x st = Some (r, st') \<longrightarrow> lb_inv st')
    \<and> (dp_del_lb_back_ip lib a b i x st = Some (r, st') \<longrightarrow> lb_inv st')
    \<and> (dp_delete_lb lib i st = Some (r, st') \<longrightarrow> lb_inv st')"
    using back_ip_unknown[OF inv None] inv by auto
next
  case (Some kv)
  obtain k v where kv: "lb_view st i = Some (k, v)" using Some by (cases kv) auto
  show "(dp_add_lb_back_ip lib a b i x st = Some (r, st') \<longrightarrow> lb_inv st')
    \<and> (dp_del_lb_back_ip lib a b i x st = Some (r, st') \<longrightarrow> lb_inv st')
    \<and> (dp_delete_lb lib i st = Some (r, st') \<longrightarrow> lb_inv st')"
    using add_back_ip_view[OF inv kv, of a b x] del_back_ip_view[OF inv kv, of a b x] delete_view[OF inv kv] by auto
qed

end

lemma lb_step_inv: "lb_step st st' \<Longrightarrow> lb_inv st \<Longrightarrow> lb_inv st'"
proof (induction rule: lb_step.induct)
  case (create lib zmalloc st lb t ul_ip r st')
  consider (refused) e where "dp_create_lb lib zmalloc True lb ul_ip st = (Inl e, st)"
    | (created) p where "zmalloc = Some p" "lb_table st (key_of lb) = None"
        "dp_create_lb lib zmalloc True lb ul_ip st = (DP_OK, state_created p lb ul_ip st)"
    using lb_library.create_not_dangling[where ul_ip = ul_ip, OF create(1,2,4)] by blast
  thus ?case
  proof cases
    case refused
    thus ?thesis using create by simp
  next
    case created
    thus ?thesis using create(5) lb_inv_created[OF create(6) create(2)[OF created(1)] create(3) created(2)] by auto
  qed
qed (auto dest: lb_library.back_ip_inv)

interpretation lbs: transition_system lb_initial lb_step lb_inv
  by unfold_locales (auto intro: lb_initial_inv lb_step_inv)

section \<open>Properties\<close>


definition ex_request :: "string \<Rightarrow> ipv4 \<Rightarrow> dpgrpc_lb" where
  "ex_request i addr = \<lparr> dl_lb_id = i, dl_addr = IPADDR4 addr, dl_vni = 100,
     dl_lbports = [\<lparr> lbp_protocol = 6, lbp_port = 80 \<rparr>], dl_ul_addr6 = dp_empty_ipv6 \<rparr>"

definition ex_lb_state :: lb_state where
  "ex_lb_state = \<lparr> lb_table = Map.empty, id_map_lb_tbl = Map.empty, lb_heap = Map.empty \<rparr>"

lemma ex_lb_state_initial: "lb_initial ex_lb_state"
  by (simp add: lb_initial_def dp_lb_init_def ex_lb_state_def)

lemma ex_create: "dp_create_lb (ref_lb_lib 4) (Some 7) True (ex_request ''a'' 5) (ex_backend 1) ex_lb_state
    = (DP_OK, state_created 7 (ex_request ''a'' 5) (ex_backend 1) ex_lb_state)"
  by (simp add: dp_create_lb_def dp_map_lb_handle_def ref_lb_lib_def ref_hash_def ex_lb_state_def ex_request_def
      Let_def lb_update_def state_created_def key_of_def lb_created_def)

lemma ex_create_step: "lb_step ex_lb_state (state_created 7 (ex_request ''a'' 5) (ex_backend 1) ex_lb_state)"
proof (rule lb_step.create[OF reflb.lb_library_axioms _ _ _ ex_create])
  show "lb_heap ex_lb_state p = None" for p by (simp add: ex_lb_state_def)
  show "id_map_lb_tbl ex_lb_state (dl_lb_id (ex_request ''a'' 5)) = None" by (simp add: ex_lb_state_def)
  show "rte_hash_add_key_data (id_map_ops (ref_lb_lib 4)) (id_map_lb_tbl ex_lb_state) (dl_lb_id (ex_request ''a'' 5))
      (key_of (ex_request ''a'' 5)) = Inr ((id_map_lb_tbl ex_lb_state)(dl_lb_id (ex_request ''a'' 5) \<mapsto> key_of (ex_request ''a'' 5)))"
    by (simp add: ref_lb_lib_def ref_hash_def ex_lb_state_def)
qed





definition ex_flow :: flow_key where
  "ex_flow = \<lparr> fk_l3_dst = IPADDR4 5, fk_proto = 6, fk_port_dst = 80, fk_l3_src = IPADDR4 6,
     fk_vnf_type = DP_VNF_TYPE_LB, fk_src = 1, fk_vni = 100 \<rparr>"


text \<open>identifiers of balancers are not checked for duplicates.  Two requests
  with one identifier and different addresses both succeed; the deletion by the
  identifier removes the later balancer, and the earlier one keeps attracting
  traffic although no request can name it any more.\<close>

theorem lb_duplicate_id_orphans:
  assumes lib: "lb_library lib" and inv: "lb_inv st"
    and old: "id_map_lb_tbl st i = Some k" and new: "dl_lb_id lb = i" "key_of lb \<noteq> k"
    and fresh: "lb_heap st p = None"
    and created: "dp_create_lb lib (Some p) True lb ul_ip st = (DP_OK, st')"
  shows "\<exists>st'' q v. dp_delete_lb lib i st' = Some (DP_OK, st'')
    \<and> lb_table st k = Some q \<and> lb_table st'' k = Some q \<and> lb_heap st'' q = lb_heap st q
    \<and> lb_heap st q = Some v \<and> lb_id v = i \<and> id_map_lb_tbl st'' i = None
    \<and> dp_delete_lb lib i st'' = Some (GRPC_FAIL DP_GRPC_ERR_NOT_FOUND, st'')"
proof -
  have st': "st' = state_created p lb ul_ip st"
    using lb_library.create_cases[OF lib, of "Some p" st True lb ul_ip] fresh created by fastforce
  obtain q v where q: "lb_table st k = Some q" "lb_heap st q = Some v" "lb_id v = i"
    using lb_inv_id[OF inv old] by blast
  have qp: "q \<noteq> p" using q fresh by auto
  have del: "dp_delete_lb lib i st' = Some (DP_OK, state_deleted i (key_of lb) p st')"
    using lb_library.delete_eq[OF lib, of st' i "key_of lb" p] st' new(1) by (simp add: state_created_def)
  have gone: "id_map_lb_tbl (state_deleted i (key_of lb) p st') i = None" by (simp add: state_deleted_def)
  show ?thesis
    using del q qp new(2) st' lb_library.delete_unknown[OF lib gone] gone
    by (auto simp: state_deleted_def state_created_def)
qed

lemma ex_create_again: "dp_create_lb (ref_lb_lib 4) (Some 8) True (ex_request ''a'' 6) (ex_backend 2)
     (state_created 7 (ex_request ''a'' 5) (ex_backend 1) ex_lb_state)
    = (DP_OK, state_created 8 (ex_request ''a'' 6) (ex_backend 2)
       (state_created 7 (ex_request ''a'' 5) (ex_backend 1) ex_lb_state))"
  by (simp add: dp_create_lb_def dp_map_lb_handle_def ref_lb_lib_def ref_hash_def ex_lb_state_def ex_request_def
      Let_def lb_update_def state_created_def key_of_def lb_created_def)

theorem lb_duplicate_id_orphans_witness:
  "\<exists>st''. dp_delete_lb (ref_lb_lib 4) ''a'' (state_created 8 (ex_request ''a'' 6) (ex_backend 2)
       (state_created 7 (ex_request ''a'' 5) (ex_backend 1) ex_lb_state)) = Some (DP_OK, st'')
    \<and> lb_table st'' (key_of (ex_request ''a'' 5)) = Some 7"
proof -
  let ?st = "state_created 7 (ex_request ''a'' 5) (ex_backend 1) ex_lb_state"
  have inv: "lb_inv ?st" using lb_step_inv[OF ex_create_step lb_initial_inv[OF ex_lb_state_initial]] .
  have "id_map_lb_tbl ?st ''a'' = Some (key_of (ex_request ''a'' 5))" "lb_heap ?st 8 = None"
    "dl_lb_id (ex_request ''a'' 6) = ''a''" "key_of (ex_request ''a'' 6) \<noteq> key_of (ex_request ''a'' 5)"
    "lb_table ?st (key_of (ex_request ''a'' 5)) = Some 7"
    by (simp_all add: state_created_def ex_request_def key_of_def ex_lb_state_def)
  thus ?thesis using lb_duplicate_id_orphans[OF reflb.lb_library_axioms inv _ _ _ _ ex_create_again] by force
qed

text \<open>a creation that fails after the balancer was entered in the table,
  because its identifier cannot be recorded, frees the balancer but leaves the
  table entry: the next packet to that address follows a dangling pointer.\<close>

theorem lb_create_failure_dangles:
  assumes lib: "lb_library lib" and fresh: "lb_heap st p = None"
    and free: "lb_table st (key_of lb) = None"
    and room: "rte_hash_add_key_data (lb_table_ops lib) (lb_table st) (key_of lb) p = Inr t"
  shows "\<exists>st'. dp_create_lb lib (Some p) False lb ul_ip st = (GRPC_FAIL DP_GRPC_ERR_OUT_OF_MEMORY, st')
    \<and> lb_table st' (key_of lb) = Some p \<and> lb_heap st' p = None
    \<and> (fk_l3_dst key = dl_addr lb \<longrightarrow> dp_lb_get_backend_ip lib flow_hash key (dl_vni lb) st' = None)"
proof -
  let ?st = "st\<lparr> lb_table := (lb_table st)(key_of lb \<mapsto> p) \<rparr>"
  note ht = lb_library.lb_table_ht[OF lib]
  have t: "t = (lb_table st)(key_of lb \<mapsto> p)" by (rule hash_table.add_key_data[OF ht room])
  have heap: "(lb_heap st)(p := None) = lb_heap st" using fresh by auto
  have "dp_create_lb lib (Some p) False lb ul_ip st = (GRPC_FAIL DP_GRPC_ERR_OUT_OF_MEMORY, ?st)"
    using room free t heap
    by (simp add: dp_create_lb_def key_of_def hash_table.lookup_data[OF ht] Let_def dp_map_lb_handle_def)
  thus ?thesis using fresh
    by (auto simp: dp_lb_get_backend_ip_def key_of_def hash_table.lookup_data[OF ht])
qed

theorem lb_create_failure_dangles_witness:
  "\<exists>st'. dp_create_lb (ref_lb_lib 4) (Some 7) False (ex_request ''a'' 5) (ex_backend 1) ex_lb_state
      = (GRPC_FAIL DP_GRPC_ERR_OUT_OF_MEMORY, st')
    \<and> lb_table st' (key_of (ex_request ''a'' 5)) = Some 7 \<and> lb_heap st' 7 = None"
proof -
  have "lb_heap ex_lb_state 7 = None" "lb_table ex_lb_state (key_of (ex_request ''a'' 5)) = None"
    "rte_hash_add_key_data (lb_table_ops (ref_lb_lib 4)) (lb_table ex_lb_state) (key_of (ex_request ''a'' 5)) 7
      = Inr ((lb_table ex_lb_state)(key_of (ex_request ''a'' 5) \<mapsto> 7))"
    by (simp_all add: ex_lb_state_def ref_lb_lib_def ref_hash_def)
  thus ?thesis using lb_create_failure_dangles[OF reflb.lb_library_axioms[of 4]] by blast
qed

end
