(* ===== verification/Dp_Vnf.thy ===== *)
theory Dp_Vnf
  imports Dp_Types
begin

text \<open>
  Virtual network functions (\<open>src/dp_vnf.c\<close>): the endpoints underlay addresses
  stand for, in a table from addresses to endpoints and a reverse table from
  endpoints to addresses.  Both tables own private copies of what they point at,
  so that the contents are stored by value; allocations are arguments.
\<close>

definition DP_VNF_MATCH_ALL_PORT_IDS :: uint16 where "DP_VNF_MATCH_ALL_PORT_IDS = 0xFFFF"

record dp_vnf_prefix =
  pfx_ol :: dp_ip_address
  pfx_len :: uint8

record dp_vnf =
  vnf_type :: dp_vnf_type
  vnf_vni :: uint32
  vnf_port_id :: uint16
  vnf_alias_pfx :: dp_vnf_prefix

record vnf_state =
  vnf_handle_tbl :: "dp_ipv6 \<rightharpoonup> dp_vnf"
  vnf_value_tbl :: "dp_vnf \<rightharpoonup> dp_ipv6"

record vnf_lib =
  vnf_handle_ops :: "(dp_ipv6, dp_vnf) rte_hash"
  vnf_value_ops :: "(dp_vnf, dp_ipv6) rte_hash"

definition dp_vnf_init :: "bool \<Rightarrow> bool \<Rightarrow> vnf_state dp_result" where
  "dp_vnf_init handle_created value_created =
     (if \<not> handle_created then Inl DP_ERROR
      else if \<not> value_created then Inl DP_ERROR
      else Inr \<lparr> vnf_handle_tbl = Map.empty, vnf_value_tbl = Map.empty \<rparr>)"

definition dp_fill_vnf_data ::
  "dp_vnf_type \<Rightarrow> uint16 \<Rightarrow> uint32 \<Rightarrow> dp_ip_address \<Rightarrow> uint8 \<Rightarrow> dp_vnf" where
  "dp_fill_vnf_data type pid vni src prefix_len =
     \<lparr> vnf_type = type, vnf_vni = vni, vnf_port_id = pid,
       vnf_alias_pfx = \<lparr> pfx_ol = src, pfx_len = prefix_len \<rparr> \<rparr>"

definition dp_add_vnf_value ::
  "vnf_lib \<Rightarrow> bool \<Rightarrow> dp_vnf \<Rightarrow> dp_ipv6 \<Rightarrow> vnf_state \<Rightarrow> unit dp_result \<times> vnf_state" where
  "dp_add_vnf_value lib malloc vnf ul_addr6 st =
     (if \<not> malloc then (Inl DP_ERROR, st)
      else case rte_hash_add_key_data (vnf_value_ops lib) (vnf_value_tbl st) vnf ul_addr6 of
        Inl _ \<Rightarrow> (Inl DP_ERROR, st)
      | Inr t \<Rightarrow> (DP_OK, st\<lparr> vnf_value_tbl := t \<rparr>))"

definition dp_delete_vnf_value :: "vnf_lib \<Rightarrow> dp_vnf \<Rightarrow> vnf_state \<Rightarrow> unit dp_result \<times> vnf_state" where
  "dp_delete_vnf_value lib vnf st =
     (case rte_hash_lookup_data (vnf_value_ops lib) (vnf_value_tbl st) vnf of
       Inl _ \<Rightarrow> (Inl DP_ERROR, st)
     | Inr _ \<Rightarrow>
       (case rte_hash_del_key (vnf_value_ops lib) (vnf_value_tbl st) vnf of
         Inl ret \<Rightarrow> (Inl (ERRNO (- ret)), st)
       | Inr t \<Rightarrow> (DP_OK, st\<lparr> vnf_value_tbl := t \<rparr>)))"

definition dp_vnf_value_exists :: "vnf_lib \<Rightarrow> dp_vnf \<Rightarrow> vnf_state \<Rightarrow> bool" where
  "dp_vnf_value_exists lib vnf st =
     (case rte_hash_lookup_data (vnf_value_ops lib) (vnf_value_tbl st) vnf of
       Inl _ \<Rightarrow> False | Inr _ \<Rightarrow> True)"

definition dp_get_vnf :: "vnf_lib \<Rightarrow> dp_ipv6 \<Rightarrow> vnf_state \<Rightarrow> dp_vnf option" where
  "dp_get_vnf lib ul_addr6 st =
     (case rte_hash_lookup_data (vnf_handle_ops lib) (vnf_handle_tbl st) ul_addr6 of
       Inl _ \<Rightarrow> None | Inr vnf \<Rightarrow> Some vnf)"

definition dp_del_vnf :: "vnf_lib \<Rightarrow> dp_ipv6 \<Rightarrow> vnf_state \<Rightarrow> unit dp_result \<times> vnf_state" where
  "dp_del_vnf lib ul_addr6 st =
     (case rte_hash_lookup_data (vnf_handle_ops lib) (vnf_handle_tbl st) ul_addr6 of
       Inl ret \<Rightarrow> (Inl (ERRNO (- ret)), st)
     | Inr vnf \<Rightarrow>
       (case rte_hash_del_key (vnf_handle_ops lib) (vnf_handle_tbl st) ul_addr6 of
         Inl ret \<Rightarrow> (Inl (ERRNO (- ret)), st)
       | Inr t \<Rightarrow>
         (case dp_delete_vnf_value lib vnf (st\<lparr> vnf_handle_tbl := t \<rparr>) of
           (Inl ret, st) \<Rightarrow> (Inl ret, st)
         | (Inr _, st) \<Rightarrow> (DP_OK, st))))"

definition dp_add_vnf ::
  "vnf_lib \<Rightarrow> bool \<Rightarrow> bool \<Rightarrow> dp_ipv6 \<Rightarrow> dp_vnf_type \<Rightarrow> uint16 \<Rightarrow> uint32 \<Rightarrow> dp_ip_address \<Rightarrow> uint8 \<Rightarrow>
   vnf_state \<Rightarrow> unit dp_result \<times> vnf_state" where
  "dp_add_vnf lib malloc_vnf malloc_value ul_addr6 type pid vni prefix prefix_len st =
     (case rte_hash_lookup_data (vnf_handle_ops lib) (vnf_handle_tbl st) ul_addr6 of
       Inr _ \<Rightarrow> (Inl DP_ERROR, st)
     | Inl ret \<Rightarrow>
       if ret \<noteq> - ENOENT then (Inl DP_ERROR, st)
       else if \<not> malloc_vnf then (Inl DP_ERROR, st)
       else
         let vnf = dp_fill_vnf_data type pid vni prefix prefix_len in
         (case rte_hash_add_key_data (vnf_handle_ops lib) (vnf_handle_tbl st) ul_addr6 vnf of
           Inl _ \<Rightarrow> (Inl DP_ERROR, st)
         | Inr t \<Rightarrow>
           (case dp_add_vnf_value lib malloc_value vnf ul_addr6 (st\<lparr> vnf_handle_tbl := t \<rparr>) of
             (Inl _, st) \<Rightarrow> (Inl DP_ERROR, snd (dp_del_vnf lib ul_addr6 st))
           | (Inr _, st) \<Rightarrow> (DP_OK, st))))"

definition dp_vnf_lbprefix_exists ::
  "vnf_lib \<Rightarrow> uint16 \<Rightarrow> uint32 \<Rightarrow> dp_ip_address \<Rightarrow> uint8 \<Rightarrow> vnf_state \<Rightarrow> bool" where
  "dp_vnf_lbprefix_exists lib pid vni prefix_ip prefix_len st =
     dp_vnf_value_exists lib (dp_fill_vnf_data DP_VNF_TYPE_LB_ALIAS_PFX pid vni prefix_ip prefix_len) st"

definition dp_del_vnf_by_value ::
  "vnf_lib \<Rightarrow> dp_vnf_type \<Rightarrow> uint16 \<Rightarrow> uint32 \<Rightarrow> dp_ip_address \<Rightarrow> uint8 \<Rightarrow> vnf_state \<Rightarrow> unit dp_result \<times> vnf_state" where
  "dp_del_vnf_by_value lib type pid vni prefix_ip prefix_len st =
     (let target_vnf = dp_fill_vnf_data type pid vni prefix_ip prefix_len in
      case rte_hash_lookup_data (vnf_value_ops lib) (vnf_value_tbl st) target_vnf of
        Inl ret \<Rightarrow> (GRPC_FAIL (if ret = - ENOENT then DP_GRPC_ERR_NOT_FOUND else DP_GRPC_ERR_VNF_DELETE), st)
      | Inr vnf_ul_addr6 \<Rightarrow>
        (case dp_del_vnf lib vnf_ul_addr6 st of
          (Inl ret, st) \<Rightarrow>
            (GRPC_FAIL (if ret = ERRNO ENOENT then DP_GRPC_ERR_NOT_FOUND else DP_GRPC_ERR_VNF_DELETE), st)
        | (Inr _, st) \<Rightarrow> (DP_OK, st)))"

record dpgrpc_route_reply =
  route_pfx_addr :: dp_ip_address
  route_pfx_length :: uint8
  route_trgt_addr :: dp_ip_address

fun list_prefixes ::
  "(nat \<Rightarrow> bool) \<Rightarrow> nat \<Rightarrow> uint16 \<Rightarrow> dp_vnf_type \<Rightarrow> (dp_ipv6 \<times> dp_vnf) list \<Rightarrow>
   unit dp_result \<times> dpgrpc_route_reply list" where
  "list_prefixes room n pid type [] = (DP_OK, [])"
| "list_prefixes room n pid type ((ul_addr6, vnf) # es) =
     (if pid \<noteq> vnf_port_id vnf \<or> vnf_type vnf \<noteq> type then list_prefixes room n pid type es
      else if \<not> room n then (GRPC_FAIL DP_GRPC_ERR_OUT_OF_MEMORY, [])
      else apsnd ((#) \<lparr> route_pfx_addr = pfx_ol (vnf_alias_pfx vnf), route_pfx_length = pfx_len (vnf_alias_pfx vnf),
             route_trgt_addr = dp_set_ipaddr6 ul_addr6 \<rparr>) (list_prefixes room (Suc n) pid type es))"

definition dp_list_vnf_alias_prefixes ::
  "(nat \<Rightarrow> bool) \<Rightarrow> (dp_ipv6 \<times> dp_vnf) list \<Rightarrow> uint16 \<Rightarrow> dp_vnf_type \<Rightarrow> vnf_state \<Rightarrow>
   unit dp_result \<times> dpgrpc_route_reply list" where
  "dp_list_vnf_alias_prefixes room es pid type st =
     (if dom (vnf_handle_tbl st) = {} then (DP_OK, []) else list_prefixes room 0 pid type es)"

text \<open>The destination port and the packet's flow data after the resolution; no
  port is the result \<open>NULL\<close>.\<close>

definition dp_vnf_resolve_tunnel_dst ::
  "vnf_lib \<Rightarrow> dp_port option list \<Rightarrow> vnf_state \<Rightarrow> dp_flow \<Rightarrow> dp_port option \<times> dp_flow" where
  "dp_vnf_resolve_tunnel_dst lib ports st df =
     (if df_tun_dst_resolved df then (dp_get_port_by_id ports (df_nxt_hop df), df)
      else case dp_get_vnf lib (df_ul_dst_addr6 df) st of
        None \<Rightarrow> (None, df)
      | Some vnf \<Rightarrow>
        (case dp_get_port_by_id ports (vnf_port_id vnf) of
          None \<Rightarrow> (None, df)
        | Some dst_port \<Rightarrow>
          (Some dst_port, df\<lparr> df_tun_dst_vni := vnf_vni vnf, df_vnf_type := vnf_type vnf,
             df_nxt_hop := vnf_port_id vnf, df_tun_dst_resolved := True \<rparr>)))"

section \<open>The contract of the two tables\<close>

locale vnf_library =
  fixes lib :: vnf_lib
  assumes handle_ht: "hash_table (vnf_handle_ops lib)"
    and value_ht: "hash_table (vnf_value_ops lib)"

sublocale vnf_library \<subseteq> hdl: hash_table "vnf_handle_ops lib"
  by (rule handle_ht)

sublocale vnf_library \<subseteq> val: hash_table "vnf_value_ops lib"
  by (rule value_ht)

definition ref_vnf_lib :: "nat \<Rightarrow> vnf_lib" where
  "ref_vnf_lib cap = \<lparr> vnf_handle_ops = ref_hash cap, vnf_value_ops = ref_hash cap \<rparr>"

interpretation refvnf: vnf_library "ref_vnf_lib cap"
  by (rule vnf_library.intro) (simp_all add: ref_vnf_lib_def refh.hash_table_axioms)

text \<open>The reverse table always leads back; where no two addresses stand for the
  same endpoint, it is the exact inverse.\<close>

definition vnf_inv :: "vnf_state \<Rightarrow> bool" where
  "vnf_inv st \<longleftrightarrow> (\<forall>vnf ul. vnf_value_tbl st vnf = Some ul \<longrightarrow> vnf_handle_tbl st ul = Some vnf)"

definition vnf_exact :: "vnf_state \<Rightarrow> bool" where
  "vnf_exact st \<longleftrightarrow> (\<forall>vnf ul. vnf_value_tbl st vnf = Some ul \<longleftrightarrow> vnf_handle_tbl st ul = Some vnf)"

context vnf_library
begin

lemma get_vnf_eq: "dp_get_vnf lib ul st = vnf_handle_tbl st ul"
  by (simp add: dp_get_vnf_def hdl.lookup_data split: option.splits)

lemma value_exists_iff: "dp_vnf_value_exists lib vnf st \<longleftrightarrow> vnf_value_tbl st vnf \<noteq> None"
  by (simp add: dp_vnf_value_exists_def val.lookup_data split: option.splits)

lemma del_vnf_eq:
  "dp_del_vnf lib ul st = (case vnf_handle_tbl st ul of
     None \<Rightarrow> (Inl (ERRNO ENOENT), st)
   | Some vnf \<Rightarrow> (if vnf_value_tbl st vnf = None then Inl DP_ERROR else DP_OK,
       st\<lparr> vnf_handle_tbl := (vnf_handle_tbl st)(ul := None), vnf_value_tbl := (vnf_value_tbl st)(vnf := None) \<rparr>))"
  by (auto simp: dp_del_vnf_def dp_delete_vnf_value_def hdl.lookup_data hdl.del_key val.lookup_data val.del_key
      fun_upd_idem split: option.splits)

lemma del_by_value_eq:
  assumes "vnf_inv st"
  shows "dp_del_vnf_by_value lib type pid vni ip len st =
    (let vnf = dp_fill_vnf_data type pid vni ip len in
     case vnf_value_tbl st vnf of
       None \<Rightarrow> (GRPC_FAIL DP_GRPC_ERR_NOT_FOUND, st)
     | Some ul \<Rightarrow> (DP_OK, st\<lparr> vnf_handle_tbl := (vnf_handle_tbl st)(ul := None),
         vnf_value_tbl := (vnf_value_tbl st)(vnf := None) \<rparr>))"
  using assms unfolding vnf_inv_def
  by (auto simp: dp_del_vnf_by_value_def Let_def val.lookup_data del_vnf_eq split: option.splits)

text \<open>An addition is refused without an effect on the address table, or enters
  both tables.  A refusal may only drop a reverse entry of another address that
  stands for the same endpoint.\<close>

lemma add_vnf_cases:
  fixes type pid vni pfx len
  defines "vnf \<equiv> dp_fill_vnf_data type pid vni pfx len"
  obtains (refused) "dp_add_vnf lib m1 m2 ul type pid vni pfx len st = (Inl DP_ERROR, st)"
  | (undone) "vnf_handle_tbl st ul = None"
      "dp_add_vnf lib m1 m2 ul type pid vni pfx len st
        = (Inl DP_ERROR, st\<lparr> vnf_value_tbl := (vnf_value_tbl st)(vnf := None) \<rparr>)"
  | (added) "vnf_handle_tbl st ul = None" "m1" "m2"
      "dp_add_vnf lib m1 m2 ul type pid vni pfx len st
        = (DP_OK, st\<lparr> vnf_handle_tbl := (vnf_handle_tbl st)(ul \<mapsto> vnf),
            vnf_value_tbl := (vnf_value_tbl st)(vnf \<mapsto> ul) \<rparr>)"
proof (cases "vnf_handle_tbl st ul = None \<and> m1")
  case False
  thus ?thesis using refused by (cases "vnf_handle_tbl st ul") (auto simp: dp_add_vnf_def hdl.lookup_data)
next
  case True
  note h = hdl.lookup_data val.lookup_data
  have idem: "(vnf_handle_tbl st)(ul := None) = vnf_handle_tbl st" using True by auto
  show ?thesis
  proof (cases rule: hdl.add_cases[of "vnf_handle_tbl st" ul vnf])
    case (fails e)
    thus ?thesis using True refused by (simp add: dp_add_vnf_def h vnf_def)
  next
    case stored
    show ?thesis
    proof (cases "m2 \<and> (\<exists>t. rte_hash_add_key_data (vnf_value_ops lib) (vnf_value_tbl st) vnf ul = Inr t)")
      case True
      then obtain t where t: "rte_hash_add_key_data (vnf_value_ops lib) (vnf_value_tbl st) vnf ul = Inr t" "m2" by blast
      have "t = (vnf_value_tbl st)(vnf \<mapsto> ul)" using val.add_key_data[OF t(1)] .
      thus ?thesis using stored t \<open>vnf_handle_tbl st ul = None \<and> m1\<close> added
        by (simp add: dp_add_vnf_def dp_add_vnf_value_def h vnf_def Let_def)
    next
      case False
      have "dp_add_vnf_value lib m2 vnf ul st' = (Inl DP_ERROR, st')" if "vnf_value_tbl st' = vnf_value_tbl st" for st'
        using False that by (cases "rte_hash_add_key_data (vnf_value_ops lib) (vnf_value_tbl st) vnf ul")
          (auto simp: dp_add_vnf_value_def)
      thus ?thesis using stored \<open>vnf_handle_tbl st ul = None \<and> m1\<close> undone idem
        by (simp add: dp_add_vnf_def h vnf_def del_vnf_eq Let_def)
    qed
  qed
qed

lemma add_vnf_inv:
  assumes "vnf_inv st"
  shows "vnf_inv (snd (dp_add_vnf lib m1 m2 ul type pid vni pfx len st))"
  using assms
  by (cases rule: add_vnf_cases[of m1 m2 ul type pid vni pfx len st]) (auto simp: vnf_inv_def)

lemma del_vnf_inv: "vnf_inv st \<Longrightarrow> vnf_inv (snd (dp_del_vnf lib ul st))"
  by (auto simp: vnf_inv_def del_vnf_eq split: option.splits)

lemma del_by_value_inv: "vnf_inv st \<Longrightarrow> vnf_inv (snd (dp_del_vnf_by_value lib type pid vni ip len st))"
  by (subst del_by_value_eq) (auto simp: vnf_inv_def Let_def split: option.splits, metis option.inject)

end

lemma vnf_exact_inv: "vnf_exact st \<Longrightarrow> vnf_inv st"
  by (simp add: vnf_exact_def vnf_inv_def)

section \<open>Properties\<close>

text \<open>C19: the two tables of endpoints are inverse to each other.  Where no two
  addresses stand for the same endpoint, an addition of a new endpoint under a free
  address enters both tables or fails without a trace; deletion by address and
  deletion by endpoint remove exactly that entry from both and report an unknown
  one; an address that is taken is refused.\<close>

theorem vnf_tables_inverse:
  assumes lib: "vnf_library lib" and ex: "vnf_exact st"
    and new: "vnf_value_tbl st (dp_fill_vnf_data type pid vni pfx len) = None"
  shows "(let vnf = dp_fill_vnf_data type pid vni pfx len;
       (r, st') = dp_add_vnf lib m1 m2 ul type pid vni pfx len st in
     vnf_exact st' \<and> (r = DP_OK \<longrightarrow> vnf_handle_tbl st ul = None \<and> dp_get_vnf lib ul st' = Some vnf
       \<and> dp_del_vnf lib ul st' = (DP_OK, st) \<and> dp_del_vnf_by_value lib type pid vni pfx len st' = (DP_OK, st)
       \<and> (\<forall>ul'. ul' \<noteq> ul \<longrightarrow> dp_get_vnf lib ul' st' = dp_get_vnf lib ul' st))
     \<and> (r \<noteq> DP_OK \<longrightarrow> st' = st)
     \<and> dp_del_vnf_by_value lib type pid vni pfx len st = (GRPC_FAIL DP_GRPC_ERR_NOT_FOUND, st)
     \<and> vnf_exact (snd (dp_del_vnf lib ul st))
     \<and> (fst (dp_del_vnf lib ul st) = DP_OK \<longleftrightarrow> dp_get_vnf lib ul st \<noteq> None))"
proof -
  let ?vnf = "dp_fill_vnf_data type pid vni pfx len"
  note inv = vnf_exact_inv[OF ex]
  have none: "(vnf_value_tbl st)(?vnf := None) = vnf_value_tbl st" using new by auto
  have unknown: "dp_del_vnf_by_value lib type pid vni pfx len st = (GRPC_FAIL DP_GRPC_ERR_NOT_FOUND, st)"
    using new vnf_library.del_by_value_eq[OF lib inv] by simp
  have del: "vnf_exact (snd (dp_del_vnf lib ul st))"
      "fst (dp_del_vnf lib ul st) = DP_OK \<longleftrightarrow> dp_get_vnf lib ul st \<noteq> None"
    using ex vnf_library.del_vnf_eq[OF lib, of ul st] vnf_library.get_vnf_eq[OF lib]
    by (auto simp: vnf_exact_def split: option.splits) (metis option.inject, metis option.distinct(1))
  consider (refused) "dp_add_vnf lib m1 m2 ul type pid vni pfx len st = (Inl DP_ERROR, st)"
    | (added) "vnf_handle_tbl st ul = None" "dp_add_vnf lib m1 m2 ul type pid vni pfx len st
        = (DP_OK, st\<lparr> vnf_handle_tbl := (vnf_handle_tbl st)(ul \<mapsto> ?vnf), vnf_value_tbl := (vnf_value_tbl st)(?vnf \<mapsto> ul) \<rparr>)"
    using none by (cases rule: vnf_library.add_vnf_cases[OF lib, of m1 m2 ul type pid vni pfx len st]) auto
  thus ?thesis
  proof cases
    case refused
    thus ?thesis using ex unknown del by simp
  next
    case added
    let ?st = "st\<lparr> vnf_handle_tbl := (vnf_handle_tbl st)(ul \<mapsto> ?vnf), vnf_value_tbl := (vnf_value_tbl st)(?vnf \<mapsto> ul) \<rparr>"
    have nh: "(vnf_handle_tbl st)(ul := None) = vnf_handle_tbl st" using added(1) by auto
    have ex': "vnf_exact ?st" using ex new added(1) by (auto simp: vnf_exact_def) (metis option.distinct(1))
    show ?thesis
      using added ex' unknown del none nh vnf_library.del_vnf_eq[OF lib, of ul ?st]
        vnf_library.del_by_value_eq[OF lib vnf_exact_inv[OF ex'], of type pid vni pfx len] vnf_library.get_vnf_eq[OF lib]
      by (simp add: Let_def)
  qed
qed

definition ex_vnf_state :: vnf_state where
  "ex_vnf_state = \<lparr> vnf_handle_tbl = Map.empty, vnf_value_tbl = Map.empty \<rparr>"

definition ex_ul :: "uint64 \<Rightarrow> dp_ipv6" where
  "ex_ul n = \<lparr> ip6_prefix = 0xfc00000100000000, ip6_suffix = n \<rparr>"

lemma ex_add_vnf:
  "dp_add_vnf (ref_vnf_lib 4) True True (ex_ul 1) DP_VNF_TYPE_LB 0 100 (IPADDR4 0) 0 ex_vnf_state
   = (DP_OK, \<lparr> vnf_handle_tbl = [ex_ul 1 \<mapsto> dp_fill_vnf_data DP_VNF_TYPE_LB 0 100 (IPADDR4 0) 0],
       vnf_value_tbl = [dp_fill_vnf_data DP_VNF_TYPE_LB 0 100 (IPADDR4 0) 0 \<mapsto> ex_ul 1] \<rparr>)"
  by (simp add: dp_add_vnf_def dp_add_vnf_value_def ref_vnf_lib_def ref_hash_def ex_vnf_state_def Let_def)

theorem vnf_tables_inverse_witness:
  "dp_del_vnf_by_value (ref_vnf_lib 4) DP_VNF_TYPE_LB 0 100 (IPADDR4 0) 0
     (snd (dp_add_vnf (ref_vnf_lib 4) True True (ex_ul 1) DP_VNF_TYPE_LB 0 100 (IPADDR4 0) 0 ex_vnf_state))
   = (DP_OK, ex_vnf_state)"
proof -
  have "vnf_exact ex_vnf_state" "vnf_value_tbl ex_vnf_state (dp_fill_vnf_data DP_VNF_TYPE_LB 0 100 (IPADDR4 0) 0) = None"
    by (simp_all add: vnf_exact_def ex_vnf_state_def)
  thus ?thesis
    using vnf_tables_inverse[OF refvnf.vnf_library_axioms[of 4], of ex_vnf_state DP_VNF_TYPE_LB 0 100 "IPADDR4 0" 0 True True "ex_ul 1"]
    by (simp add: ex_add_vnf Let_def)
qed

text \<open>two addresses that stand for the same endpoint, as the underlay
  addresses of two balancers of one network do, share one entry of the reverse
  table.  Deleting the first removes that entry, so that the second is still
  delivered to by address but can no longer be found by endpoint, and its deletion
  by address is carried out and yet reported as an error.\<close>

theorem vnf_shared_endpoint:
  assumes lib: "vnf_library lib" and two: "ul1 \<noteq> ul2"
    and shared: "vnf_handle_tbl st ul1 = Some vnf" "vnf_handle_tbl st ul2 = Some vnf"
    and vnf: "vnf = dp_fill_vnf_data type pid vni pfx len" and inv: "vnf_inv st"
  shows "(let st' = snd (dp_del_vnf lib ul1 st) in
    vnf_inv st' \<and> dp_get_vnf lib ul2 st' = Some vnf
    \<and> dp_del_vnf_by_value lib type pid vni pfx len st' = (GRPC_FAIL DP_GRPC_ERR_NOT_FOUND, st')
    \<and> fst (dp_del_vnf lib ul2 st') = Inl DP_ERROR
    \<and> dp_get_vnf lib ul2 (snd (dp_del_vnf lib ul2 st')) = None)"
proof -
  let ?st = "snd (dp_del_vnf lib ul1 st)"
  have st: "?st = st\<lparr> vnf_handle_tbl := (vnf_handle_tbl st)(ul1 := None), vnf_value_tbl := (vnf_value_tbl st)(vnf := None) \<rparr>"
    using vnf_library.del_vnf_eq[OF lib, of ul1 st] shared by simp
  have inv': "vnf_inv ?st" using vnf_library.del_vnf_inv[OF lib inv] .
  show ?thesis
    using inv' vnf_library.del_by_value_eq[OF lib inv', of type pid vni pfx len]
      vnf_library.del_vnf_eq[OF lib, of ul2 ?st] shared two vnf
    by (simp add: st vnf_library.get_vnf_eq[OF lib] Let_def)
qed

theorem vnf_shared_endpoint_witness:
  "dp_get_vnf (ref_vnf_lib 4) (ex_ul 2) (snd (dp_del_vnf (ref_vnf_lib 4) (ex_ul 1)
     (snd (dp_add_vnf (ref_vnf_lib 4) True True (ex_ul 2) DP_VNF_TYPE_LB 0 100 (IPADDR4 0) 0
       (snd (dp_add_vnf (ref_vnf_lib 4) True True (ex_ul 1) DP_VNF_TYPE_LB 0 100 (IPADDR4 0) 0 ex_vnf_state))))))
   = Some (dp_fill_vnf_data DP_VNF_TYPE_LB 0 100 (IPADDR4 0) 0)"
proof -
  let ?v = "dp_fill_vnf_data DP_VNF_TYPE_LB 0 100 (IPADDR4 0) 0"
  let ?st = "snd (dp_add_vnf (ref_vnf_lib 4) True True (ex_ul 2) DP_VNF_TYPE_LB 0 100 (IPADDR4 0) 0
       (snd (dp_add_vnf (ref_vnf_lib 4) True True (ex_ul 1) DP_VNF_TYPE_LB 0 100 (IPADDR4 0) 0 ex_vnf_state)))"
  have st: "?st = \<lparr> vnf_handle_tbl = [ex_ul 1 \<mapsto> ?v, ex_ul 2 \<mapsto> ?v], vnf_value_tbl = [?v \<mapsto> ex_ul 2] \<rparr>"
    unfolding ex_add_vnf
    by (simp add: dp_add_vnf_def dp_add_vnf_value_def ref_vnf_lib_def ref_hash_def Let_def ex_ul_def)
  have "ex_ul 1 \<noteq> ex_ul 2" by (simp add: ex_ul_def)
  moreover have "vnf_inv ?st" by (simp add: st vnf_inv_def)
  moreover have "vnf_handle_tbl ?st (ex_ul 1) = Some ?v" "vnf_handle_tbl ?st (ex_ul 2) = Some ?v"
    using calculation(1) by (simp_all add: st)
  ultimately show ?thesis
    using vnf_shared_endpoint[OF refvnf.vnf_library_axioms[of 4], of "ex_ul 1" "ex_ul 2" ?st ?v] by (simp add: Let_def)
qed

end
