(* ===== verification/Dp_Vni.thy ===== *)
theory Dp_Vni
  imports Dp_Types
begin

text \<open>
  Reference counts (\<open>include/dp_refcount.h\<close>) and the table of virtual networks
  with their routing tables (\<open>src/dp_vni.c\<close>, \<open>include/dp_vni.h\<close>).  A routing table
  (\<open>rte_rib\<close>, library code) is represented by its prefixes; a node pointer is the
  prefix it stands for.  Only the table of the socket a network was created on is
  ever used, so that a network holds one table per IP version.
\<close>

section \<open>Reference counts\<close>

type_synonym dp_ref = uint32

definition dp_ref_init :: dp_ref where "dp_ref_init = 1"

text \<open>\<open>RTE_VERIFY\<close> ends the process: \<open>None\<close>.\<close>

definition dp_ref_inc :: "dp_ref \<Rightarrow> dp_ref option" where
  "dp_ref_inc ref = (if ref = 0 then None else Some (ref + 1))"

definition dp_ref_dec_and_chk_freed :: "dp_ref \<Rightarrow> bool \<times> dp_ref" where
  "dp_ref_dec_and_chk_freed ref = (let ref = ref - 1 in (ref = 0, ref))"

section \<open>Routing tables\<close>

record dp_iface_route =
  ir_vni :: uint32
  ir_nh_ipv6 :: dp_ipv6

record rib_node =
  nd_nh :: uint64
  nd_ext :: dp_iface_route

type_synonym 'a rib = "'a \<times> uint8 \<rightharpoonup> rib_node"

record 'a rte_rib =
  rte_rib_lookup_exact :: "'a rib \<Rightarrow> 'a \<Rightarrow> uint8 \<Rightarrow> ('a \<times> uint8) option"
  rte_rib_insert :: "'a rib \<Rightarrow> 'a \<Rightarrow> uint8 \<Rightarrow> (('a \<times> uint8) \<times> 'a rib) option"
  rte_rib_remove :: "'a rib \<Rightarrow> 'a \<Rightarrow> uint8 \<Rightarrow> 'a rib"
  rte_rib_lookup :: "'a rib \<Rightarrow> 'a \<Rightarrow> ('a \<times> uint8) option"

text \<open>
  The documented behaviour: prefixes are kept without their host bits, an exact
  lookup finds the prefix itself, an insertion fails (no memory, a bad depth, a
  prefix that is there) or adds a node whose contents are not specified, a lookup
  finds the longest prefix of an address.
\<close>

locale rib_library =
  fixes ops :: "'a rte_rib" and width :: nat and net :: "'a \<Rightarrow> uint8 \<Rightarrow> 'a"
  assumes lookup_exact: "rte_rib_lookup_exact ops r ip d =
      (if unat d \<le> width \<and> r (net ip d, d) \<noteq> None then Some (net ip d, d) else None)"
    and insert: "rte_rib_insert ops r ip d = Some (k, r') \<Longrightarrow>
      unat d \<le> width \<and> k = (net ip d, d) \<and> r k = None \<and> (\<exists>n. r' = r(k \<mapsto> n))"
    and remove: "unat d \<le> width \<Longrightarrow> rte_rib_remove ops r ip d = r((net ip d, d) := None)"
    and lookup: "rte_rib_lookup ops r ip = Some k \<Longrightarrow>
      fst k = net ip (snd k) \<and> unat (snd k) \<le> width \<and> r k \<noteq> None
      \<and> (\<forall>d. unat d \<le> width \<longrightarrow> r (net ip d, d) \<noteq> None \<longrightarrow> d \<le> snd k)"
    and lookup_none: "rte_rib_lookup ops r ip = None \<Longrightarrow> unat d \<le> width \<Longrightarrow> r (net ip d, d) = None"

definition net4 :: "uint32 \<Rightarrow> uint8 \<Rightarrow> uint32" where
  "net4 ip d = push_bit (32 - unat d) (drop_bit (32 - unat d) ip)"

definition net6 :: "dp_ipv6 \<Rightarrow> uint8 \<Rightarrow> dp_ipv6" where
  "net6 ip d = (if unat d \<le> 64
     then \<lparr> ip6_prefix = push_bit (64 - unat d) (drop_bit (64 - unat d) (ip6_prefix ip)), ip6_suffix = 0 \<rparr>
     else ip\<lparr> ip6_suffix := push_bit (128 - unat d) (drop_bit (128 - unat d) (ip6_suffix ip)) \<rparr>)"

definition ref_rib :: "nat \<Rightarrow> ('a \<Rightarrow> uint8 \<Rightarrow> 'a) \<Rightarrow> 'a rte_rib" where
  "ref_rib width net = \<lparr>
     rte_rib_lookup_exact = (\<lambda>r ip d. if unat d \<le> width \<and> r (net ip d, d) \<noteq> None then Some (net ip d, d) else None),
     rte_rib_insert = (\<lambda>r ip d. if unat d \<le> width \<and> r (net ip d, d) = None
       then Some ((net ip d, d), r((net ip d, d) \<mapsto>
         \<lparr> nd_nh = 0, nd_ext = \<lparr> ir_vni = 0, ir_nh_ipv6 = dp_empty_ipv6 \<rparr> \<rparr>)) else None),
     rte_rib_remove = (\<lambda>r ip d. r((net ip d, d) := None)),
     rte_rib_lookup = (\<lambda>r ip. map_option (\<lambda>d. (net ip d, d))
       (find (\<lambda>d. r (net ip d, d) \<noteq> None) (map of_nat (rev [0..<width + 1])))) \<rparr>"

lemma find_greatest:
  fixes xs :: "uint8 list"
  assumes "sorted_wrt (\<lambda>a b. b \<le> a) xs" "find P xs = Some d"
  shows "P d \<and> d \<in> set xs \<and> (\<forall>d' \<in> set xs. P d' \<longrightarrow> d' \<le> d)"
  using assms by (induction xs) (auto split: if_splits)

lemma depths:
  assumes "width < 256"
  shows "set (map of_nat (rev [0..<width + 1])) = {d :: uint8. unat d \<le> width}"
    and "sorted_wrt (\<lambda>a b. b \<le> a) (map of_nat (rev [0..<width + 1]) :: uint8 list)"
proof -
  have inv: "unat (of_nat n :: uint8) = n" if "n \<le> width" for n
    using that assms by (simp add: unat_of_nat)
  show "set (map of_nat (rev [0..<width + 1])) = {d :: uint8. unat d \<le> width}"
  proof safe
    fix d :: uint8 assume "unat d \<le> width"
    thus "d \<in> set (map of_nat (rev [0..<width + 1]))"
      unfolding set_map set_rev set_upt by (intro image_eqI[of _ _ "unat d"]) auto
  qed (auto simp: inv)
  have "sorted_wrt (\<lambda>a b. (of_nat a :: uint8) \<le> of_nat b) [0..<width + 1]"
    by (rule sorted_wrt_mono_rel[of _ "(\<le>)"]) (auto simp: word_le_nat_alt inv simp del: upt_Suc)
  thus "sorted_wrt (\<lambda>a b. b \<le> a) (map of_nat (rev [0..<width + 1]) :: uint8 list)"
    by (simp add: sorted_wrt_map sorted_wrt_rev del: upt_Suc)
qed

lemma ref_rib_library:
  assumes "width < 256"
  shows "rib_library (ref_rib width net) width net"
proof (rule rib_library.intro)
  fix r :: "'a rib" and ip k d
  note d = depths[OF assms]
  show "rte_rib_lookup (ref_rib width net) r ip = Some k \<Longrightarrow>
      fst k = net ip (snd k) \<and> unat (snd k) \<le> width \<and> r k \<noteq> None
      \<and> (\<forall>d. unat d \<le> width \<longrightarrow> r (net ip d, d) \<noteq> None \<longrightarrow> d \<le> snd k)"
    using find_greatest[OF d(2), of "\<lambda>d. r (net ip d, d) \<noteq> None"] unfolding d(1)
    by (fastforce simp: ref_rib_def simp del: upt_Suc rev_map)
  show "r (net ip d, d) = None" if "rte_rib_lookup (ref_rib width net) r ip = None" "unat d \<le> width"
  proof -
    have "find (\<lambda>d. r (net ip d, d) \<noteq> None) (map of_nat (rev [0..<width + 1])) = None"
      using that(1) by (simp add: ref_rib_def del: upt_Suc)
    moreover have "d \<in> set (map of_nat (rev [0..<width + 1]))" unfolding d(1) using that(2) by simp
    ultimately show ?thesis unfolding find_None_iff by blast
  qed
next
  fix r r' :: "'a rib" and ip k d
  assume "rte_rib_insert (ref_rib width net) r ip d = Some (k, r')"
  thus "unat d \<le> width \<and> k = (net ip d, d) \<and> r k = None \<and> (\<exists>n. r' = r(k \<mapsto> n))"
    by (auto simp: ref_rib_def split: if_splits)
qed (simp_all add: ref_rib_def del: upt_Suc)

interpretation rib4: rib_library "ref_rib 32 net4" 32 net4
  by (rule ref_rib_library) simp

interpretation rib6: rib_library "ref_rib 128 net6" 128 net6
  by (rule ref_rib_library) simp


section \<open>The table of virtual networks\<close>

record dp_vni_data =
  vd_ipv4 :: "uint32 rib option"
  vd_ipv6 :: "dp_ipv6 rib option"
  vd_ref_count :: dp_ref
  vd_socket_id :: int
  vd_vni :: uint32

type_synonym vni_table = "uint32 \<rightharpoonup> dp_vni_data"

text \<open>What the functions of this part call: the hash table, and whether memory and
  the two routing tables of a network can be allocated.\<close>

record vni_lib =
  vni_ops :: "(uint32, dp_vni_data) rte_hash"
  vni_zmalloc :: bool
  vni_rib_create :: bool
  vni_rib6_create :: bool

definition DP_NB_SOCKETS :: int where "DP_NB_SOCKETS = 2"

definition DP_SOCKETID :: "int \<Rightarrow> int" where
  "DP_SOCKETID socket_id = (if socket_id < 0 \<or> socket_id \<ge> DP_NB_SOCKETS then 0 else socket_id)"

definition dp_get_vni_route4_table :: "vni_lib \<Rightarrow> uint32 \<Rightarrow> vni_table \<Rightarrow> uint32 rib option" where
  "dp_get_vni_route4_table lib vni t =
     (case rte_hash_lookup_data (vni_ops lib) t vni of Inl _ \<Rightarrow> None | Inr vni_data \<Rightarrow> vd_ipv4 vni_data)"

definition dp_get_vni_route6_table :: "vni_lib \<Rightarrow> uint32 \<Rightarrow> vni_table \<Rightarrow> dp_ipv6 rib option" where
  "dp_get_vni_route6_table lib vni t =
     (case rte_hash_lookup_data (vni_ops lib) t vni of Inl _ \<Rightarrow> None | Inr vni_data \<Rightarrow> vd_ipv6 vni_data)"

definition dp_is_vni_route_table_available :: "vni_lib \<Rightarrow> uint32 \<Rightarrow> uint8 \<Rightarrow> vni_table \<Rightarrow> bool" where
  "dp_is_vni_route_table_available lib vni type t =
     (case rte_hash_lookup_data (vni_ops lib) t vni of
       Inl _ \<Rightarrow> False
     | Inr vni_data \<Rightarrow> (type = IPPROTO_IPIP \<and> vd_ipv4 vni_data \<noteq> None)
         \<or> (type = IPPROTO_IPV6 \<and> vd_ipv6 vni_data \<noteq> None))"

definition dp_free_rib6 :: "dp_vni_data \<Rightarrow> dp_vni_data" where
  "dp_free_rib6 vni_data = vni_data\<lparr> vd_ipv6 := None \<rparr>"

definition dp_free_rib :: "dp_vni_data \<Rightarrow> dp_vni_data" where
  "dp_free_rib vni_data = vni_data\<lparr> vd_ipv4 := None \<rparr>"

definition dp_create_rib6 :: "vni_lib \<Rightarrow> uint32 \<Rightarrow> int \<Rightarrow> dp_vni_data \<Rightarrow> unit dp_result \<times> dp_vni_data" where
  "dp_create_rib6 lib vni socket_id vni_data =
     (if \<not> vni_rib6_create lib then (Inl DP_ERROR, vni_data)
      else (DP_OK, vni_data\<lparr> vd_vni := vni, vd_socket_id := socket_id, vd_ipv6 := Some Map.empty \<rparr>))"

definition dp_create_rib :: "vni_lib \<Rightarrow> uint32 \<Rightarrow> int \<Rightarrow> dp_vni_data \<Rightarrow> unit dp_result \<times> dp_vni_data" where
  "dp_create_rib lib vni socket_id vni_data =
     (if \<not> vni_rib_create lib then (Inl DP_ERROR, vni_data)
      else (DP_OK, vni_data\<lparr> vd_vni := vni, vd_socket_id := socket_id, vd_ipv4 := Some Map.empty \<rparr>))"

definition vni_data_zero :: dp_vni_data where
  "vni_data_zero = \<lparr> vd_ipv4 = None, vd_ipv6 = None, vd_ref_count = 0, vd_socket_id = 0, vd_vni = 0 \<rparr>"

text \<open>The count is initialised through the pointer after the insertion.\<close>

definition dp_allocate_vni_route_tables ::
  "vni_lib \<Rightarrow> uint32 \<Rightarrow> int \<Rightarrow> vni_table \<Rightarrow> unit dp_result \<times> vni_table" where
  "dp_allocate_vni_route_tables lib vni socket_id t =
     (if \<not> vni_zmalloc lib then (Inl DP_ERROR, t)
      else case dp_create_rib lib vni socket_id vni_data_zero of
        (Inl _, _) \<Rightarrow> (Inl DP_ERROR, t)
      | (Inr _, vni_data) \<Rightarrow>
        (case dp_create_rib6 lib vni socket_id vni_data of
          (Inl _, _) \<Rightarrow> (Inl DP_ERROR, t)
        | (Inr _, vni_data) \<Rightarrow>
          (case rte_hash_add_key_data (vni_ops lib) t vni vni_data of
            Inl _ \<Rightarrow> (Inl DP_ERROR, t)
          | Inr t \<Rightarrow> (DP_OK, t(vni := map_option (vd_ref_count_update (\<lambda>_. dp_ref_init)) (t vni))))))"

definition dp_create_vni_route_tables ::
  "vni_lib \<Rightarrow> uint32 \<Rightarrow> int \<Rightarrow> vni_table \<Rightarrow> (unit dp_result \<times> vni_table) option" where
  "dp_create_vni_route_tables lib vni socket_id t =
     (case rte_hash_lookup_data (vni_ops lib) t vni of
       Inl ret \<Rightarrow> if ret \<noteq> - ENOENT then Some (Inl DP_ERROR, t)
         else Some (dp_allocate_vni_route_tables lib vni socket_id t)
     | Inr vni_data \<Rightarrow>
       (case dp_ref_inc (vd_ref_count vni_data) of
         None \<Rightarrow> None
       | Some ref \<Rightarrow> Some (DP_OK, t(vni \<mapsto> vni_data\<lparr> vd_ref_count := ref \<rparr>))))"

text \<open>The last reference frees the routing tables and the network's data and
  removes the neighbouring NAT entries of the network, which is code of another
  component: \<open>del_neigh_nat\<close> is \<open>dp_del_all_neigh_nat_entries_in_vni\<close> and \<open>nats\<close> the
  state it works on.\<close>

definition dp_free_vni_data :: "(uint32 \<Rightarrow> 'n \<Rightarrow> 'n) \<Rightarrow> dp_vni_data \<Rightarrow> 'n \<Rightarrow> 'n" where
  "dp_free_vni_data del_neigh_nat vni_data nats = del_neigh_nat (vd_vni vni_data) nats"

definition dp_delete_vni_route_tables ::
  "vni_lib \<Rightarrow> (uint32 \<Rightarrow> 'n \<Rightarrow> 'n) \<Rightarrow> uint32 \<Rightarrow> vni_table \<times> 'n \<Rightarrow> unit dp_result \<times> vni_table \<times> 'n" where
  "dp_delete_vni_route_tables lib del_neigh_nat vni st =
     (case st of (t, nats) \<Rightarrow>
       (case rte_hash_lookup_data (vni_ops lib) t vni of
         Inl ret \<Rightarrow> (Inl (ERRNO (- ret)), t, nats)
       | Inr vni_data \<Rightarrow>
         let (freed, ref) = dp_ref_dec_and_chk_freed (vd_ref_count vni_data) in
         if freed then
           let nats = dp_free_vni_data del_neigh_nat vni_data nats in
           (case rte_hash_del_key (vni_ops lib) t vni of
             Inl _ \<Rightarrow> (Inl DP_ERROR, t, nats)
           | Inr t \<Rightarrow> (DP_OK, t, nats))
         else (DP_OK, t(vni \<mapsto> vni_data\<lparr> vd_ref_count := ref \<rparr>), nats)))"

definition dp_reset_vni_data :: "vni_lib \<Rightarrow> uint32 \<Rightarrow> dp_vni_data \<Rightarrow> unit dp_result \<times> dp_vni_data" where
  "dp_reset_vni_data lib vni vni_data =
     (let socket_id = DP_SOCKETID (vd_socket_id vni_data);
          (r, vni_data) = (if vd_ipv4 vni_data \<noteq> None
            then dp_create_rib lib vni socket_id (dp_free_rib vni_data) else (DP_OK, vni_data)) in
      if r \<noteq> DP_OK then (Inl DP_ERROR, vni_data)
      else
        let (r, vni_data) = (if vd_ipv6 vni_data \<noteq> None
            then dp_create_rib6 lib vni socket_id (dp_free_rib6 vni_data) else (DP_OK, vni_data)) in
        if r \<noteq> DP_OK then (Inl DP_ERROR, vni_data) else (DP_OK, vni_data))"

definition dp_reset_vni_route_tables :: "vni_lib \<Rightarrow> uint32 \<Rightarrow> vni_table \<Rightarrow> unit dp_result \<times> vni_table" where
  "dp_reset_vni_route_tables lib vni t =
     (case rte_hash_lookup_data (vni_ops lib) t vni of
       Inl _ \<Rightarrow> (DP_OK, t)
     | Inr vni_data \<Rightarrow> (case dp_reset_vni_data lib vni vni_data of (r, vni_data) \<Rightarrow> (r, t(vni \<mapsto> vni_data))))"

text \<open>\<open>vnis\<close> are the keys the iteration delivers.\<close>

fun reset_vnis :: "vni_lib \<Rightarrow> uint32 list \<Rightarrow> vni_table \<Rightarrow> unit dp_result \<times> vni_table" where
  "reset_vnis lib [] t = (DP_OK, t)"
| "reset_vnis lib (vni # vnis) t =
     (case t vni of
       None \<Rightarrow> reset_vnis lib vnis t
     | Some vni_data \<Rightarrow>
       (case dp_reset_vni_data lib vni vni_data of
         (Inl _, vni_data) \<Rightarrow> (Inl DP_ERROR, t(vni \<mapsto> vni_data))
       | (Inr _, vni_data) \<Rightarrow> reset_vnis lib vnis (t(vni \<mapsto> vni_data))))"

definition dp_reset_all_vni_route_tables :: "vni_lib \<Rightarrow> uint32 list \<Rightarrow> vni_table \<Rightarrow> unit dp_result \<times> vni_table" where
  "dp_reset_all_vni_route_tables lib vnis t =
     (if dom t = {} then (DP_OK, t) else reset_vnis lib vnis t)"

section \<open>Lifetime of a network\<close>

definition vni_refs :: "vni_table \<Rightarrow> uint32 \<Rightarrow> nat" where
  "vni_refs t vni = (case t vni of None \<Rightarrow> 0 | Some d \<Rightarrow> unat (vd_ref_count d))"

definition vni_inv :: "vni_table \<Rightarrow> bool" where
  "vni_inv t \<longleftrightarrow> (\<forall>vni d. t vni = Some d \<longrightarrow> vd_ref_count d \<noteq> 0 \<and> vd_vni d = vni)"

lemma vni_inv_refs: "vni_inv t \<Longrightarrow> vni_refs t vni = 0 \<longleftrightarrow> t vni = None"
  by (auto simp: vni_inv_def vni_refs_def unat_eq_zero split: option.splits)

lemma vni_inv_upd: "vni_inv t \<Longrightarrow> vd_ref_count d \<noteq> 0 \<Longrightarrow> vd_vni d = vni \<Longrightarrow> vni_inv (t(vni \<mapsto> d))"
  by (simp add: vni_inv_def)

lemma vni_create_new:
  assumes ht: "hash_table (vni_ops lib)" and new: "t vni = None"
  shows "dp_create_vni_route_tables lib vni s t = Some (Inl DP_ERROR, t)
    \<or> dp_create_vni_route_tables lib vni s t = Some (DP_OK, t(vni \<mapsto>
        \<lparr> vd_ipv4 = Some Map.empty, vd_ipv6 = Some Map.empty, vd_ref_count = 1, vd_socket_id = s, vd_vni = vni \<rparr>))"
proof (cases "vni_zmalloc lib \<and> vni_rib_create lib \<and> vni_rib6_create lib")
  case False
  thus ?thesis using new
    by (auto simp: dp_create_vni_route_tables_def hash_table.lookup_data[OF ht] dp_allocate_vni_route_tables_def
        dp_create_rib_def dp_create_rib6_def)
next
  case True
  show ?thesis
    by (cases rule: hash_table.add_cases[OF ht, of t vni "vni_data_zero\<lparr> vd_vni := vni, vd_socket_id := s,
          vd_ipv4 := Some Map.empty, vd_ipv6 := Some Map.empty \<rparr>"])
      (use new True in \<open>simp_all add: dp_create_vni_route_tables_def hash_table.lookup_data[OF ht]
        dp_allocate_vni_route_tables_def dp_create_rib_def dp_create_rib6_def vni_data_zero_def dp_ref_init_def\<close>)
qed

lemma vni_create_again:
  assumes ht: "hash_table (vni_ops lib)" and inv: "vni_inv t" and old: "t vni = Some d"
  shows "dp_create_vni_route_tables lib vni s t = Some (DP_OK, t(vni \<mapsto> d\<lparr> vd_ref_count := vd_ref_count d + 1 \<rparr>))"
  using inv old by (simp add: dp_create_vni_route_tables_def hash_table.lookup_data[OF ht] dp_ref_inc_def vni_inv_def)

lemma vni_delete_eq:
  assumes ht: "hash_table (vni_ops lib)" and inv: "vni_inv t" and old: "t vni = Some d"
  shows "dp_delete_vni_route_tables lib del vni (t, nats) =
    (if vd_ref_count d = 1 then (DP_OK, t(vni := None), del vni nats)
     else (DP_OK, t(vni \<mapsto> d\<lparr> vd_ref_count := vd_ref_count d - 1 \<rparr>), nats))"
  using inv old by (simp add: dp_delete_vni_route_tables_def hash_table.lookup_data[OF ht] hash_table.del_key[OF ht]
      dp_ref_dec_and_chk_freed_def dp_free_vni_data_def vni_inv_def Let_def)

section \<open>Properties\<close>

text \<open>C29: the routing tables of a virtual network live exactly as long as they
  are referenced.  Each creation adds a reference and keeps the routes that are
  there (the first one starts with empty tables, or fails and changes nothing),
  each deletion drops one; with the last one the network and its neighbouring NAT
  entries are gone, before that they are untouched; deleting an unknown network
  is refused.  No assertion on the count can fail.\<close>

theorem vni_lifetime:
  assumes ht: "hash_table (vni_ops lib)" and inv: "vni_inv t" and bound: "vni_refs t vni < 2 ^ 32 - 1"
  shows "(\<exists>r t'. dp_create_vni_route_tables lib vni s t = Some (r, t') \<and> vni_inv t'
      \<and> (r = DP_OK \<longrightarrow> vni_refs t' vni = vni_refs t vni + 1
          \<and> dp_get_vni_route4_table lib vni t' = (if t vni = None then Some Map.empty else dp_get_vni_route4_table lib vni t)
          \<and> dp_get_vni_route6_table lib vni t' = (if t vni = None then Some Map.empty else dp_get_vni_route6_table lib vni t))
      \<and> (r \<noteq> DP_OK \<longrightarrow> t vni = None \<and> t' = t) \<and> (\<forall>v. v \<noteq> vni \<longrightarrow> t' v = t v))
    \<and> (case dp_delete_vni_route_tables lib del vni (t, nats) of (r, t', nats') \<Rightarrow>
        vni_inv t' \<and> (r = DP_OK \<longleftrightarrow> t vni \<noteq> None) \<and> vni_refs t' vni = vni_refs t vni - 1
        \<and> nats' = (if vni_refs t vni = 1 then del vni nats else nats)
        \<and> (1 < vni_refs t vni \<longrightarrow> dp_get_vni_route4_table lib vni t' = dp_get_vni_route4_table lib vni t
            \<and> dp_get_vni_route6_table lib vni t' = dp_get_vni_route6_table lib vni t)
        \<and> (\<forall>v. v \<noteq> vni \<longrightarrow> t' v = t v))"
proof (cases "t vni")
  case None
  have del: "dp_delete_vni_route_tables lib del vni (t, nats) = (Inl (ERRNO ENOENT), t, nats)"
    using None by (simp add: dp_delete_vni_route_tables_def hash_table.lookup_data[OF ht])
  consider "dp_create_vni_route_tables lib vni s t = Some (Inl DP_ERROR, t)"
    | "dp_create_vni_route_tables lib vni s t = Some (DP_OK, t(vni \<mapsto>
        \<lparr> vd_ipv4 = Some Map.empty, vd_ipv6 = Some Map.empty, vd_ref_count = 1, vd_socket_id = s, vd_vni = vni \<rparr>))"
    using vni_create_new[where t = t and vni = vni, OF ht None] by blast
  thus ?thesis
    using None del inv
    by cases (simp_all add: vni_refs_def vni_inv_upd dp_get_vni_route4_table_def dp_get_vni_route6_table_def
        hash_table.lookup_data[OF ht])
next
  case (Some d)
  have ref: "vd_ref_count d \<noteq> 0" "vd_vni d = vni" using inv Some by (auto simp: vni_inv_def)
  have refs: "vni_refs t vni = unat (vd_ref_count d)" using Some by (simp add: vni_refs_def)
  have inc: "unat (vd_ref_count d + 1) = unat (vd_ref_count d) + 1"
    using bound unfolding refs by (intro unat_inc) simp
  hence inc0: "vd_ref_count d + 1 \<noteq> 0" by (metis add_is_0 one_neq_zero unat_0)
  have dec: "unat (vd_ref_count d - 1) = unat (vd_ref_count d) - 1" using ref(1) by (simp add: unat_minus_one)
  have one: "vd_ref_count d = 1 \<longleftrightarrow> unat (vd_ref_count d) = 1" by (simp add: word_unat_eq_iff)
  show ?thesis
    using Some inv ref refs inc inc0 dec one vni_create_again[where t = t and vni = vni and s = s, OF ht inv Some] vni_delete_eq[where t = t and vni = vni and del = del and nats = nats, OF ht inv Some]
    by (cases "vd_ref_count d = 1")
      (auto simp: vni_inv_def vni_refs_def dp_get_vni_route4_table_def dp_get_vni_route6_table_def
        hash_table.lookup_data[OF ht] unat_eq_zero)
qed

definition ref_vni_lib :: vni_lib where
  "ref_vni_lib = \<lparr> vni_ops = ref_hash 512, vni_zmalloc = True, vni_rib_create = True, vni_rib6_create = True \<rparr>"

lemma ref_vni_ht: "hash_table (vni_ops ref_vni_lib)"
  by (simp add: ref_vni_lib_def refh.hash_table_axioms)

definition ex_vni_data :: "dp_ref \<Rightarrow> dp_vni_data" where
  "ex_vni_data n = \<lparr> vd_ipv4 = Some Map.empty, vd_ipv6 = Some Map.empty, vd_ref_count = n, vd_socket_id = 0, vd_vni = 100 \<rparr>"

theorem vni_lifetime_witness:
  "(\<exists>t'. dp_create_vni_route_tables ref_vni_lib 100 0 [100 \<mapsto> ex_vni_data 2] = Some (DP_OK, t') \<and> vni_refs t' 100 = 3)
   \<and> vni_refs (fst (snd (dp_delete_vni_route_tables ref_vni_lib (\<lambda>_ n. n) 100 ([100 \<mapsto> ex_vni_data 2], ())))) 100 = 1"
proof -
  have h: "vni_inv [100 \<mapsto> ex_vni_data 2]" "vni_refs [100 \<mapsto> ex_vni_data 2] 100 = 2"
    by (simp_all add: vni_inv_def vni_refs_def ex_vni_data_def)
  show ?thesis
    using vni_lifetime[OF ref_vni_ht h(1), of 100 0 "\<lambda>_ n. n" "()"] h(2)
    by (auto split: prod.splits)
qed

end
