(* ===== verification/Dp_Lpm.thy ===== *)
theory Dp_Lpm
  imports Dp_Vni
begin

text \<open>
  Routes (\<open>src/dp_lpm.c\<close>): insertion and removal in the routing tables of a
  virtual network, listing, reset, and the choice of the output port of a packet.
  The table of ports is an argument.  What \<open>rte_rib_get_nxt\<close> walks over is the
  argument \<open>walk\<close>.
\<close>

definition DP_LPM_DHCP_IP_DEPTH :: uint8 where "DP_LPM_DHCP_IP_DEPTH = 32"

record lpm_lib =
  lpm_vni :: vni_lib
  lpm_rib4 :: "uint32 rte_rib"
  lpm_rib6 :: "dp_ipv6 rte_rib"

definition put_rib4 :: "uint32 \<Rightarrow> uint32 rib \<Rightarrow> vni_table \<Rightarrow> vni_table" where
  "put_rib4 vni r t = t(vni := map_option (vd_ipv4_update (\<lambda>_. Some r)) (t vni))"

definition put_rib6 :: "uint32 \<Rightarrow> dp_ipv6 rib \<Rightarrow> vni_table \<Rightarrow> vni_table" where
  "put_rib6 vni r t = t(vni := map_option (vd_ipv6_update (\<lambda>_. Some r)) (t vni))"

text \<open>\<open>rte_rib_set_nh\<close>, and the contents of the node for an external route.\<close>

definition set_node :: "dp_port \<Rightarrow> uint32 \<Rightarrow> dp_ipv6 \<Rightarrow> rib_node \<Rightarrow> rib_node" where
  "set_node port t_vni t_ip6 node =
     (let node = node\<lparr> nd_nh := ucast (port_id port) \<rparr> in
      if is_pf port then node\<lparr> nd_ext := \<lparr> ir_vni = t_vni, ir_nh_ipv6 = t_ip6 \<rparr> \<rparr> else node)"

definition dp_add_route ::
  "lpm_lib \<Rightarrow> dp_port \<Rightarrow> uint32 \<Rightarrow> uint32 \<Rightarrow> uint32 \<Rightarrow> dp_ipv6 \<Rightarrow> uint8 \<Rightarrow> vni_table \<Rightarrow> unit dp_result \<times> vni_table" where
  "dp_add_route lib port vni t_vni ip t_ip6 depth t =
     (case dp_get_vni_route4_table (lpm_vni lib) vni t of
       None \<Rightarrow> (GRPC_FAIL DP_GRPC_ERR_NO_VNI, t)
     | Some root \<Rightarrow>
       (case rte_rib_lookup_exact (lpm_rib4 lib) root ip depth of
         Some _ \<Rightarrow> (GRPC_FAIL DP_GRPC_ERR_ROUTE_EXISTS, t)
       | None \<Rightarrow>
         (case rte_rib_insert (lpm_rib4 lib) root ip depth of
           None \<Rightarrow> (GRPC_FAIL DP_GRPC_ERR_ROUTE_INSERT, t)
         | Some (node, root) \<Rightarrow>
           (DP_OK, put_rib4 vni (root(node := map_option (set_node port t_vni t_ip6) (root node))) t))))"

definition dp_del_route ::
  "lpm_lib \<Rightarrow> dp_port \<Rightarrow> uint32 \<Rightarrow> uint32 \<Rightarrow> uint8 \<Rightarrow> vni_table \<Rightarrow> unit dp_result \<times> vni_table" where
  "dp_del_route lib port vni ip depth t =
     (case dp_get_vni_route4_table (lpm_vni lib) vni t of
       None \<Rightarrow> (GRPC_FAIL DP_GRPC_ERR_NO_VNI, t)
     | Some root \<Rightarrow>
       (case rte_rib_lookup_exact (lpm_rib4 lib) root ip depth of
         None \<Rightarrow> (GRPC_FAIL DP_GRPC_ERR_ROUTE_NOT_FOUND, t)
       | Some node \<Rightarrow>
         if map_option nd_nh (root node) \<noteq> Some (ucast (port_id port)) then (GRPC_FAIL DP_GRPC_ERR_ROUTE_BAD_PORT, t)
         else (DP_OK, put_rib4 vni (rte_rib_remove (lpm_rib4 lib) root ip depth) t)))"

definition dp_add_route6 ::
  "lpm_lib \<Rightarrow> dp_port \<Rightarrow> uint32 \<Rightarrow> uint32 \<Rightarrow> dp_ipv6 \<Rightarrow> dp_ipv6 \<Rightarrow> uint8 \<Rightarrow> vni_table \<Rightarrow> unit dp_result \<times> vni_table" where
  "dp_add_route6 lib port vni t_vni ipv6 t_ip6 depth t =
     (case dp_get_vni_route6_table (lpm_vni lib) vni t of
       None \<Rightarrow> (GRPC_FAIL DP_GRPC_ERR_NO_VNI, t)
     | Some root \<Rightarrow>
       (case rte_rib_lookup_exact (lpm_rib6 lib) root ipv6 depth of
         Some _ \<Rightarrow> (GRPC_FAIL DP_GRPC_ERR_ROUTE_EXISTS, t)
       | None \<Rightarrow>
         (case rte_rib_insert (lpm_rib6 lib) root ipv6 depth of
           None \<Rightarrow> (GRPC_FAIL DP_GRPC_ERR_ROUTE_INSERT, t)
         | Some (node, root) \<Rightarrow>
           (DP_OK, put_rib6 vni (root(node := map_option (set_node port t_vni t_ip6) (root node))) t))))"

definition dp_del_route6 ::
  "lpm_lib \<Rightarrow> dp_port \<Rightarrow> uint32 \<Rightarrow> dp_ipv6 \<Rightarrow> uint8 \<Rightarrow> vni_table \<Rightarrow> unit dp_result \<times> vni_table" where
  "dp_del_route6 lib port vni ipv6 depth t =
     (case dp_get_vni_route6_table (lpm_vni lib) vni t of
       None \<Rightarrow> (GRPC_FAIL DP_GRPC_ERR_NO_VNI, t)
     | Some root \<Rightarrow>
       (case rte_rib_lookup_exact (lpm_rib6 lib) root ipv6 depth of
         None \<Rightarrow> (GRPC_FAIL DP_GRPC_ERR_ROUTE_NOT_FOUND, t)
       | Some node \<Rightarrow>
         if map_option nd_nh (root node) \<noteq> Some (ucast (port_id port)) then (GRPC_FAIL DP_GRPC_ERR_ROUTE_BAD_PORT, t)
         else (DP_OK, put_rib6 vni (rte_rib_remove (lpm_rib6 lib) root ipv6 depth) t)))"

definition dp_lpm_fill_route_tables :: "lpm_lib \<Rightarrow> dp_port \<Rightarrow> vni_table \<Rightarrow> unit dp_result \<times> vni_table" where
  "dp_lpm_fill_route_tables lib port t =
     (case dp_add_route lib port (if_vni (iface port)) 0 (cfg_own_ip (if_cfg (iface port))) dp_empty_ipv6 32 t of
       (Inl ret, t) \<Rightarrow> (Inl ret, t)
     | (Inr _, t) \<Rightarrow>
       (case dp_add_route6 lib port (if_vni (iface port)) 0 (cfg_own_ipv6 (if_cfg (iface port))) dp_empty_ipv6 128 t of
         (Inl ret, t) \<Rightarrow> (Inl ret, t)
       | (Inr _, t) \<Rightarrow> (DP_OK, t)))"

fun fill_ports :: "lpm_lib \<Rightarrow> (dp_port \<Rightarrow> bool) \<Rightarrow> dp_port list \<Rightarrow> vni_table \<Rightarrow> unit dp_result \<times> vni_table" where
  "fill_ports lib sel [] t = (DP_OK, t)"
| "fill_ports lib sel (port # ports) t =
     (if \<not> sel port then fill_ports lib sel ports t
      else case dp_lpm_fill_route_tables lib port t of
        (Inl ret, t) \<Rightarrow> (Inl ret, t)
      | (Inr _, t) \<Rightarrow> fill_ports lib sel ports t)"

text \<open>\<open>vnis\<close> are the keys the iteration over the table of networks delivers.\<close>

definition dp_lpm_reset_all_route_tables ::
  "lpm_lib \<Rightarrow> uint32 list \<Rightarrow> dp_port list \<Rightarrow> vni_table \<Rightarrow> unit dp_result \<times> vni_table" where
  "dp_lpm_reset_all_route_tables lib vnis ports t =
     (case dp_reset_all_vni_route_tables (lpm_vni lib) vnis t of
       (Inl _, t) \<Rightarrow> (GRPC_FAIL DP_GRPC_ERR_ROUTE_RESET, t)
     | (Inr _, t) \<Rightarrow> fill_ports lib (\<lambda>port. if_ready (iface port)) ports t)"

definition dp_lpm_reset_route_tables ::
  "lpm_lib \<Rightarrow> dp_port list \<Rightarrow> uint32 \<Rightarrow> vni_table \<Rightarrow> unit dp_result \<times> vni_table" where
  "dp_lpm_reset_route_tables lib ports vni t =
     (case dp_reset_vni_route_tables (lpm_vni lib) vni t of
       (Inl _, t) \<Rightarrow> (GRPC_FAIL DP_GRPC_ERR_ROUTE_RESET, t)
     | (Inr _, t) \<Rightarrow> fill_ports lib (\<lambda>port. if_ready (iface port) \<and> if_vni (iface port) = vni) ports t)"

definition dp_router_gw_ip4 :: uint32 where "dp_router_gw_ip4 = 0xa9fe0001"

definition dp_router_gw_ip6 :: dp_ipv6 where
  "dp_router_gw_ip6 = \<lparr> ip6_prefix = 0xfe80000000000000, ip6_suffix = 1 \<rparr>"

section \<open>Listing\<close>

text \<open>The target is written for external routes only.\<close>

record dpgrpc_route =
  rt_pfx_addr :: dp_ip_address
  rt_pfx_length :: uint8
  rt_trgt :: "(dp_ip_address \<times> uint32) option"

definition dp_route_in_dhcp_range :: "uint32 \<times> uint8 \<Rightarrow> dp_port \<Rightarrow> bool" where
  "dp_route_in_dhcp_range node port \<longleftrightarrow>
     cfg_own_ip (if_cfg (iface port)) = fst node \<and> snd node = DP_LPM_DHCP_IP_DEPTH"

text \<open>One entry, with the number of replies before it.\<close>

definition dp_list_route_entry ::
  "(nat \<Rightarrow> bool) \<Rightarrow> dp_port option list \<Rightarrow> nat \<Rightarrow> (uint32 \<times> uint8) \<Rightarrow> rib_node \<Rightarrow> dp_port \<Rightarrow> bool \<Rightarrow>
   unit dp_result \<times> dpgrpc_route list" where
  "dp_list_route_entry room ports n node contents port ext_routes =
     (case dp_get_port_by_id ports (ucast (nd_nh contents)) of
       None \<Rightarrow> (GRPC_FAIL DP_GRPC_ERR_NO_VM, [])
     | Some dst_port \<Rightarrow>
       if (ext_routes \<and> is_pf dst_port)
          \<or> (\<not> ext_routes \<and> port_id dst_port = port_id port \<and> \<not> dp_route_in_dhcp_range node port)
       then if \<not> room n then (GRPC_FAIL DP_GRPC_ERR_OUT_OF_MEMORY, [])
         else (DP_OK, [\<lparr> rt_pfx_addr = dp_set_ipaddr4 (fst node), rt_pfx_length = snd node,
           rt_trgt = (if ext_routes
             then Some (dp_set_ipaddr6 (ir_nh_ipv6 (nd_ext contents)), ir_vni (nd_ext contents)) else None) \<rparr>])
       else (DP_OK, []))"

fun list_nodes ::
  "(nat \<Rightarrow> bool) \<Rightarrow> dp_port option list \<Rightarrow> dp_port \<Rightarrow> bool \<Rightarrow> uint32 rib \<Rightarrow> nat \<Rightarrow> (uint32 \<times> uint8) list \<Rightarrow>
   unit dp_result \<times> dpgrpc_route list" where
  "list_nodes room ports port ext_routes root n [] = (DP_OK, [])"
| "list_nodes room ports port ext_routes root n (node # nodes) =
     (case root node of
       None \<Rightarrow> list_nodes room ports port ext_routes root n nodes
     | Some contents \<Rightarrow>
       (case dp_list_route_entry room ports n node contents port ext_routes of
         (Inl ret, replies) \<Rightarrow> (Inl ret, replies)
       | (Inr _, replies) \<Rightarrow>
         apsnd ((@) replies) (list_nodes room ports port ext_routes root (n + length replies) nodes)))"

definition dp_list_route_table ::
  "(nat \<Rightarrow> bool) \<Rightarrow> (uint32 rib \<Rightarrow> (uint32 \<times> uint8) list) \<Rightarrow> lpm_lib \<Rightarrow> dp_port option list \<Rightarrow> dp_port \<Rightarrow>
   uint32 rib \<Rightarrow> bool \<Rightarrow> nat \<Rightarrow> unit dp_result \<times> dpgrpc_route list" where
  "dp_list_route_table room walk lib ports port root ext_routes n =
     (case rte_rib_lookup_exact (lpm_rib4 lib) root 0 0 of
       None \<Rightarrow> list_nodes room ports port ext_routes root n (walk root)
     | Some node \<Rightarrow> list_nodes room ports port ext_routes root n (node # walk root))"

definition dp_list_single_route_table ::
  "(nat \<Rightarrow> bool) \<Rightarrow> (uint32 rib \<Rightarrow> (uint32 \<times> uint8) list) \<Rightarrow> lpm_lib \<Rightarrow> dp_port option list \<Rightarrow> dp_port \<Rightarrow>
   uint32 \<Rightarrow> bool \<Rightarrow> nat \<Rightarrow> vni_table \<Rightarrow> unit dp_result \<times> dpgrpc_route list" where
  "dp_list_single_route_table room walk lib ports port vni ext_routes n t =
     (case dp_get_vni_route4_table (lpm_vni lib) vni t of
       None \<Rightarrow> (GRPC_FAIL DP_GRPC_ERR_NO_VNI, [])
     | Some root \<Rightarrow> dp_list_route_table room walk lib ports port root ext_routes n)"

fun list_vnis ::
  "(nat \<Rightarrow> bool) \<Rightarrow> (uint32 rib \<Rightarrow> (uint32 \<times> uint8) list) \<Rightarrow> lpm_lib \<Rightarrow> dp_port option list \<Rightarrow> dp_port \<Rightarrow>
   bool \<Rightarrow> nat \<Rightarrow> uint32 list \<Rightarrow> vni_table \<Rightarrow> dpgrpc_route list" where
  "list_vnis room walk lib ports port ext_routes n [] t = []"
| "list_vnis room walk lib ports port ext_routes n (vni # vnis) t =
     (let replies = snd (dp_list_single_route_table room walk lib ports port vni ext_routes n t) in
      replies @ list_vnis room walk lib ports port ext_routes (n + length replies) vnis t)"

definition dp_list_all_route_tables ::
  "(nat \<Rightarrow> bool) \<Rightarrow> (uint32 rib \<Rightarrow> (uint32 \<times> uint8) list) \<Rightarrow> lpm_lib \<Rightarrow> dp_port option list \<Rightarrow> dp_port \<Rightarrow>
   bool \<Rightarrow> uint32 list \<Rightarrow> vni_table \<Rightarrow> unit dp_result \<times> dpgrpc_route list" where
  "dp_list_all_route_tables room walk lib ports port ext_routes vnis t =
     (DP_OK, if dom t = {} then [] else list_vnis room walk lib ports port ext_routes 0 vnis t)"

definition dp_list_routes ::
  "(nat \<Rightarrow> bool) \<Rightarrow> (uint32 rib \<Rightarrow> (uint32 \<times> uint8) list) \<Rightarrow> lpm_lib \<Rightarrow> dp_port option list \<Rightarrow> uint32 list \<Rightarrow>
   dp_port \<Rightarrow> uint32 \<Rightarrow> bool \<Rightarrow> vni_table \<Rightarrow> unit dp_result \<times> dpgrpc_route list" where
  "dp_list_routes room walk lib ports vnis port vni ext_routes t =
     (if vni = 0 then dp_list_all_route_tables room walk lib ports port ext_routes vnis t
      else dp_list_single_route_table room walk lib ports port vni ext_routes 0 t)"

section \<open>The output port of a packet\<close>

text \<open>The port, the route that is written for a physical port, and whether the
  default route was taken; \<open>None\<close> is \<open>NULL\<close>.\<close>

definition dp_get_ip4_out_port ::
  "lpm_lib \<Rightarrow> dp_port option list \<Rightarrow> dp_port \<Rightarrow> uint32 \<Rightarrow> dp_flow \<Rightarrow> vni_table \<Rightarrow>
   (dp_port \<times> dp_iface_route option \<times> bool) option" where
  "dp_get_ip4_out_port lib ports in_port t_vni df t =
     (let t_vni = (if t_vni = 0 then if_vni (iface in_port) else t_vni) in
      case dp_get_vni_route4_table (lpm_vni lib) t_vni t of
        None \<Rightarrow> None
      | Some root \<Rightarrow>
        (case rte_rib_lookup (lpm_rib4 lib) root (df_dst_addr df) of
          None \<Rightarrow> None
        | Some node \<Rightarrow>
          (case root node of
            None \<Rightarrow> None
          | Some contents \<Rightarrow>
            (case dp_get_port_by_id ports (ucast (nd_nh contents)) of
              None \<Rightarrow> None
            | Some dst_port \<Rightarrow>
              Some (dst_port, if is_pf dst_port then Some (nd_ext contents) else None, snd node = 0)))))"

definition dp_get_ip6_out_port ::
  "lpm_lib \<Rightarrow> dp_port option list \<Rightarrow> dp_port \<Rightarrow> uint32 \<Rightarrow> dp_flow \<Rightarrow> vni_table \<Rightarrow>
   (dp_port \<times> dp_iface_route option \<times> bool) option" where
  "dp_get_ip6_out_port lib ports in_port t_vni df t =
     (let t_vni = (if t_vni = 0 then if_vni (iface in_port) else t_vni) in
      case dp_get_vni_route6_table (lpm_vni lib) t_vni t of
        None \<Rightarrow> None
      | Some root \<Rightarrow>
        (case rte_rib_lookup (lpm_rib6 lib) root (df_dst df) of
          None \<Rightarrow> None
        | Some node \<Rightarrow>
          (case root node of
            None \<Rightarrow> None
          | Some contents \<Rightarrow>
            (case dp_get_port_by_id ports (ucast (nd_nh contents)) of
              None \<Rightarrow> None
            | Some dst_port \<Rightarrow>
              Some (dst_port, if is_pf dst_port then Some (nd_ext contents) else None, snd node = 0)))))"

section \<open>Lemmas\<close>

lemma nh_of_port: "ucast p = (ucast q :: uint64) \<longleftrightarrow> p = (q :: uint16)"
proof
  assume "ucast p = (ucast q :: uint64)"
  hence "(ucast (ucast p :: uint64) :: uint16) = ucast (ucast q :: uint64)" by simp
  thus "p = q" by (simp add: ucast_up_ucast_id is_up)
qed simp

lemma route4_table_eq:
  assumes "hash_table (vni_ops lib)"
  shows "dp_get_vni_route4_table lib vni t = Option.bind (t vni) vd_ipv4"
  by (cases "t vni") (simp_all add: dp_get_vni_route4_table_def hash_table.lookup_data[OF assms])

lemma put_rib4_table [simp]:
  assumes "hash_table (vni_ops lib)"
  shows "dp_get_vni_route4_table lib vni' (put_rib4 vni r t) =
    (if vni' = vni \<and> t vni \<noteq> None then Some r else dp_get_vni_route4_table lib vni' t)"
  by (cases "t vni") (auto simp: route4_table_eq[OF assms] put_rib4_def)

lemma put_rib4_same [simp]:
  "put_rib4 vni r (put_rib4 vni r' t) = put_rib4 vni r t"
  "t vni = Some d \<Longrightarrow> vd_ipv4 d = Some r \<Longrightarrow> put_rib4 vni r t = t"
  by (cases "t vni"; simp add: put_rib4_def) (simp add: put_rib4_def fun_upd_idem)

text \<open>The two outcomes of an insertion into an existing table.\<close>

lemma add_route_cases:
  assumes rib: "rib_library (lpm_rib4 lib) 32 net4" and ht: "hash_table (vni_ops (lpm_vni lib))"
    and add: "dp_add_route lib port vni t_vni ip t_ip6 depth t = (r, t')"
  obtains (refused) "r \<noteq> DP_OK" "t' = t"
  | (added) d root n where "r = DP_OK" "t vni = Some d" "vd_ipv4 d = Some root" "unat depth \<le> 32"
      "root (net4 ip depth, depth) = None"
      "t' = put_rib4 vni (root((net4 ip depth, depth) \<mapsto> set_node port t_vni t_ip6 n)) t"
proof (cases "dp_get_vni_route4_table (lpm_vni lib) vni t")
  case None
  thus ?thesis using add refused by (auto simp: dp_add_route_def)
next
  case (Some root)
  then obtain d where d: "t vni = Some d" "vd_ipv4 d = Some root"
    by (auto simp: route4_table_eq[OF ht] split: bind_splits)
  show ?thesis
  proof (cases "rte_rib_lookup_exact (lpm_rib4 lib) root ip depth")
    case (Some k)
    thus ?thesis using add refused \<open>dp_get_vni_route4_table (lpm_vni lib) vni t = Some root\<close>
      by (auto simp: dp_add_route_def)
  next
    case None
    show ?thesis
    proof (cases "rte_rib_insert (lpm_rib4 lib) root ip depth")
      case None
      thus ?thesis using add refused Some \<open>rte_rib_lookup_exact _ root ip depth = None\<close>
        by (auto simp: dp_add_route_def)
    next
      case (Some kr)
      then obtain k root' where ins: "rte_rib_insert (lpm_rib4 lib) root ip depth = Some (k, root')"
        by (cases kr) simp
      from rib_library.insert[OF rib ins] obtain n where
        n: "unat depth \<le> 32" "k = (net4 ip depth, depth)" "root k = None" "root' = root(k \<mapsto> n)" by blast
      show ?thesis
        by (rule added[OF _ d n(1), of n])
          (use add n ins None \<open>dp_get_vni_route4_table (lpm_vni lib) vni t = Some root\<close>
            in \<open>simp_all add: dp_add_route_def\<close>)
    qed
  qed
qed

section \<open>Properties\<close>

text \<open>C20: the output port of an IPv4 packet is decided by the longest prefix of its
  destination in the routing table of its virtual network (the one it was sent to,
  or the one of the port it came from): the port is the one the route names, the
  underlay route is handed out exactly for a physical port, and the default route is
  reported exactly when no other prefix covers the destination.\<close>

theorem out_port_longest_prefix:
  assumes rib: "rib_library (lpm_rib4 lib) 32 net4" and ht: "hash_table (vni_ops (lpm_vni lib))"
    and root: "t (if t_vni = 0 then if_vni (iface in_port) else t_vni) = Some d" "vd_ipv4 d = Some root"
  shows "dp_get_ip4_out_port lib ports in_port t_vni df t = Some (dst_port, route, dflt) \<longleftrightarrow>
    (\<exists>depth contents.
       unat depth \<le> 32 \<and> root (net4 (df_dst_addr df) depth, depth) = Some contents
       \<and> (\<forall>d'. unat d' \<le> 32 \<longrightarrow> root (net4 (df_dst_addr df) d', d') \<noteq> None \<longrightarrow> d' \<le> depth)
       \<and> dp_get_port_by_id ports (ucast (nd_nh contents)) = Some dst_port
       \<and> route = (if is_pf dst_port then Some (nd_ext contents) else None)
       \<and> dflt = (depth = 0))" (is "_ \<longleftrightarrow> ?R")
proof -
  have tbl: "dp_get_vni_route4_table (lpm_vni lib) (if t_vni = 0 then if_vni (iface in_port) else t_vni) t = Some root"
    using root by (simp add: route4_table_eq[OF ht])
  show ?thesis
  proof (cases "rte_rib_lookup (lpm_rib4 lib) root (df_dst_addr df)")
    case None
    have "root (net4 (df_dst_addr df) d', d') = None" if "unat d' \<le> 32" for d'
      by (rule rib_library.lookup_none[OF rib None that])
    thus ?thesis using None tbl by (auto simp: dp_get_ip4_out_port_def Let_def)
  next
    case (Some k)
    note best = rib_library.lookup[OF rib Some]
    obtain depth where k: "k = (net4 (df_dst_addr df) depth, depth)" using best by (cases k) auto
    obtain contents where c: "root k = Some contents" using best by auto
    have L: "dp_get_ip4_out_port lib ports in_port t_vni df t = Some (dst_port, route, dflt) \<longleftrightarrow>
        dp_get_port_by_id ports (ucast (nd_nh contents)) = Some dst_port
        \<and> route = (if is_pf dst_port then Some (nd_ext contents) else None) \<and> dflt = (depth = 0)"
      using Some tbl c k by (auto simp: dp_get_ip4_out_port_def Let_def split: option.splits)
    have uniq: "d' = depth" if "unat d' \<le> 32" "root (net4 (df_dst_addr df) d', d') \<noteq> None"
      "\<forall>e. unat e \<le> 32 \<longrightarrow> root (net4 (df_dst_addr df) e, e) \<noteq> None \<longrightarrow> e \<le> d'" for d'
      using best that k c by (intro order_antisym) auto
    show ?thesis
    proof
      assume "dp_get_ip4_out_port lib ports in_port t_vni df t = Some (dst_port, route, dflt)"
      thus ?R using L best k c by (intro exI[of _ depth] exI[of _ contents]) auto
    next
      assume ?R
      then obtain d' c' where r: "unat d' \<le> 32" "root (net4 (df_dst_addr df) d', d') = Some c'"
        "\<forall>e. unat e \<le> 32 \<longrightarrow> root (net4 (df_dst_addr df) e, e) \<noteq> None \<longrightarrow> e \<le> d'"
        "dp_get_port_by_id ports (ucast (nd_nh c')) = Some dst_port"
        "route = (if is_pf dst_port then Some (nd_ext c') else None)" "dflt = (d' = 0)" by blast
      have "d' = depth" using uniq[OF r(1) _ r(3)] r(2) by simp
      thus "dp_get_ip4_out_port lib ports in_port t_vni df t = Some (dst_port, route, dflt)"
        using r L c k by simp
    qed
  qed
qed

text \<open>C21: insertion and removal of a route.  A refused insertion changes nothing;
  after a successful one the same prefix (host bits aside) is refused, a removal for
  another port is refused, the removal for the port it was inserted for restores the
  tables exactly, and no other network is affected.\<close>

theorem route_add_delete:
  assumes rib: "rib_library (lpm_rib4 lib) 32 net4" and ht: "hash_table (vni_ops (lpm_vni lib))"
    and add: "dp_add_route lib port vni t_vni ip hop depth t = (r, t')"
  shows "(r \<noteq> DP_OK \<longrightarrow> t' = t)
    \<and> (r = DP_OK \<longrightarrow>
        (net4 ip' depth = net4 ip depth \<longrightarrow>
          dp_add_route lib port' vni t_vni' ip' hop' depth t' = (GRPC_FAIL DP_GRPC_ERR_ROUTE_EXISTS, t')
          \<and> dp_del_route lib port' vni ip' depth t' =
             (if port_id port' = port_id port then (DP_OK, t) else (GRPC_FAIL DP_GRPC_ERR_ROUTE_BAD_PORT, t')))
        \<and> (vni' \<noteq> vni \<longrightarrow> t' vni' = t vni'))"
proof (rule add_route_cases[OF rib ht add])
  assume "r \<noteq> DP_OK" "t' = t"
  thus ?thesis by simp
next
  fix d root n
  assume ok: "r = DP_OK" "t vni = Some d" "vd_ipv4 d = Some root" "unat depth \<le> 32"
    and fresh: "root (net4 ip depth, depth) = None"
    and t': "t' = put_rib4 vni (root((net4 ip depth, depth) \<mapsto> set_node port t_vni hop n)) t"
  have same: "ucast (port_id port) = (ucast (port_id port') :: uint64) \<longleftrightarrow> port_id port = port_id port'"
    by (rule nh_of_port)
  have nh: "nd_nh (set_node port t_vni hop n) = ucast (port_id port)"
    by (simp add: set_node_def Let_def)
  have "dp_add_route lib port' vni t_vni' ip' hop' depth t' = (GRPC_FAIL DP_GRPC_ERR_ROUTE_EXISTS, t')"
    if "net4 ip' depth = net4 ip depth"
    using ok that t' by (simp add: dp_add_route_def put_rib4_table[OF ht] rib_library.lookup_exact[OF rib])
  moreover have "dp_del_route lib port' vni ip' depth t' =
      (if port_id port' = port_id port then (DP_OK, t) else (GRPC_FAIL DP_GRPC_ERR_ROUTE_BAD_PORT, t'))"
    if "net4 ip' depth = net4 ip depth"
    using ok that t' fresh
    by (auto simp: dp_del_route_def put_rib4_table[OF ht] rib_library.lookup_exact[OF rib]
        rib_library.remove[OF rib] nh same fun_upd_idem)
  moreover have "t' vni' = t vni'" if "vni' \<noteq> vni" using that t' by (simp add: put_rib4_def)
  ultimately show ?thesis using ok(1) by blast
qed

text \<open>a failed reset is permanent.  When the new IPv4 table of a network cannot
  be allocated, the network stays registered without one; later resets report success
  without creating it, further references do not create it either, and routes
  are refused as if the network did not exist.\<close>

theorem reset_failure_permanent:
  assumes ht: "hash_table (vni_ops lib)" and ht': "hash_table (vni_ops (lpm_vni lib'))"
    and old: "t vni = Some d" "vd_ipv4 d \<noteq> None" and full: "\<not> vni_rib_create lib"
    and reset: "dp_reset_vni_route_tables lib vni t = (r, t')"
  shows "r = Inl DP_ERROR
    \<and> dp_get_vni_route4_table (lpm_vni lib') vni (snd (dp_reset_vni_route_tables (lpm_vni lib') vni t')) = None
    \<and> (vni_rib6_create (lpm_vni lib') \<longrightarrow> fst (dp_reset_vni_route_tables (lpm_vni lib') vni t') = DP_OK)
    \<and> (\<forall>t''. dp_create_vni_route_tables (lpm_vni lib') vni s t' = Some (DP_OK, t'') \<longrightarrow>
          dp_get_vni_route4_table (lpm_vni lib') vni t'' = None)
    \<and> dp_add_route lib' port vni t_vni ip t_ip6 depth t' = (GRPC_FAIL DP_GRPC_ERR_NO_VNI, t')"
proof -
  have r: "r = Inl DP_ERROR" and t': "t' = t(vni \<mapsto> dp_free_rib d)"
    using reset old full by (auto simp: dp_reset_vni_route_tables_def hash_table.lookup_data[OF ht]
        dp_reset_vni_data_def dp_create_rib_def Let_def)
  have none: "vd_ipv4 (dp_free_rib d) = None" by (simp add: dp_free_rib_def)
  have "snd (dp_reset_vni_data (lpm_vni lib') vni (dp_free_rib d)) = d' \<Longrightarrow> vd_ipv4 d' = None" for d'
    by (auto simp: dp_reset_vni_data_def none dp_create_rib6_def dp_free_rib6_def Let_def split: if_splits)
  hence "dp_get_vni_route4_table (lpm_vni lib') vni (snd (dp_reset_vni_route_tables (lpm_vni lib') vni t')) = None"
    by (auto simp: t' dp_reset_vni_route_tables_def route4_table_eq[OF ht'] hash_table.lookup_data[OF ht']
        split: prod.splits)
  moreover have "vni_rib6_create (lpm_vni lib') \<longrightarrow> fst (dp_reset_vni_route_tables (lpm_vni lib') vni t') = DP_OK"
    by (auto simp: t' dp_reset_vni_route_tables_def hash_table.lookup_data[OF ht'] dp_reset_vni_data_def none
        dp_create_rib6_def Let_def)
  moreover have "dp_get_vni_route4_table (lpm_vni lib') vni t'' = None"
    if "dp_create_vni_route_tables (lpm_vni lib') vni s t' = Some (DP_OK, t'')" for t''
    using that by (auto simp: t' dp_create_vni_route_tables_def hash_table.lookup_data[OF ht']
        route4_table_eq[OF ht'] none split: option.splits)
  moreover have "dp_add_route lib' port vni t_vni ip t_ip6 depth t' = (GRPC_FAIL DP_GRPC_ERR_NO_VNI, t')"
    by (simp add: dp_add_route_def route4_table_eq[OF ht'] t' none)
  ultimately show ?thesis using r by blast
qed

section \<open>Concrete inputs\<close>

definition ref_lpm_lib :: lpm_lib where
  "ref_lpm_lib = \<lparr> lpm_vni = ref_vni_lib, lpm_rib4 = ref_rib 32 net4, lpm_rib6 = ref_rib 128 net6 \<rparr>"

lemma ref_lpm: "rib_library (lpm_rib4 ref_lpm_lib) 32 net4" "hash_table (vni_ops (lpm_vni ref_lpm_lib))"
  by (simp_all add: ref_lpm_lib_def rib4.rib_library_axioms ref_vni_ht)

definition ex_lpm_port :: "uint16 \<Rightarrow> dp_port" where
  "ex_lpm_port pid = dp_port_zero\<lparr> port_id := pid, is_pf := pid = 0 \<rparr>"

definition ex_routes :: "uint32 rib" where
  "ex_routes = [(0, 0) \<mapsto> \<lparr> nd_nh = 0, nd_ext = \<lparr> ir_vni = 200, ir_nh_ipv6 = dp_empty_ipv6 \<rparr> \<rparr>,
     (0x0a000000, 8) \<mapsto> \<lparr> nd_nh = 1, nd_ext = \<lparr> ir_vni = 0, ir_nh_ipv6 = dp_empty_ipv6 \<rparr> \<rparr>]"

lemma ex_routes_depth: "ex_routes (a, d) = Some n \<Longrightarrow> d \<le> 8"
  by (auto simp: ex_routes_def split: if_splits)

theorem out_port_longest_prefix_witness:
  "dp_get_ip4_out_port ref_lpm_lib [Some (ex_lpm_port 0), Some (ex_lpm_port 1)] (ex_lpm_port 1) 100
     (dp_init_flow_ptr\<lparr> df_dst := \<lparr> ip6_prefix = 0x0a00000500000000, ip6_suffix = 0 \<rparr> \<rparr>)
     [100 \<mapsto> (ex_vni_data 1)\<lparr> vd_ipv4 := Some ex_routes \<rparr>] = Some (ex_lpm_port 1, None, False)"
proof -
  let ?df = "dp_init_flow_ptr\<lparr> df_dst := \<lparr> ip6_prefix = 0x0a00000500000000, ip6_suffix = 0 \<rparr> \<rparr>"
  have dst: "df_dst_addr ?df = 0x0a000005" by (simp add: df_dst_addr_def union_ipv4_def drop_bit_eq_div)
  have net: "net4 0x0a000005 8 = 0x0a000000" by (simp add: net4_def push_bit_eq_mult drop_bit_eq_div)
  have root: "ex_routes (0x0a000000, 8) = Some \<lparr> nd_nh = 1, nd_ext = \<lparr> ir_vni = 0, ir_nh_ipv6 = dp_empty_ipv6 \<rparr> \<rparr>"
    by (simp add: ex_routes_def)
  show ?thesis
    by (subst out_port_longest_prefix[OF ref_lpm, of _ _ _ "(ex_vni_data 1)\<lparr> vd_ipv4 := Some ex_routes \<rparr>" ex_routes])
      (auto simp: dst net root ex_routes_depth dp_get_port_by_id_def ex_lpm_port_def dp_port_zero_def
        intro!: exI[of _ 8] exI[of _ "\<lparr> nd_nh = 1, nd_ext = \<lparr> ir_vni = 0, ir_nh_ipv6 = dp_empty_ipv6 \<rparr> \<rparr>"])
qed

theorem route_add_delete_witness:
  "dp_del_route ref_lpm_lib (ex_lpm_port 2) 100 0x0a000007 8
     (snd (dp_add_route ref_lpm_lib (ex_lpm_port 1) 100 0 0x0a000005 dp_empty_ipv6 8 [100 \<mapsto> ex_vni_data 1]))
   = (GRPC_FAIL DP_GRPC_ERR_ROUTE_BAD_PORT,
      snd (dp_add_route ref_lpm_lib (ex_lpm_port 1) 100 0 0x0a000005 dp_empty_ipv6 8 [100 \<mapsto> ex_vni_data 1]))
   \<and> dp_del_route ref_lpm_lib (ex_lpm_port 1) 100 0x0a000007 8
     (snd (dp_add_route ref_lpm_lib (ex_lpm_port 1) 100 0 0x0a000005 dp_empty_ipv6 8 [100 \<mapsto> ex_vni_data 1]))
   = (DP_OK, [100 \<mapsto> ex_vni_data 1])"
proof -
  let ?a = "dp_add_route ref_lpm_lib (ex_lpm_port 1) 100 0 0x0a000005 dp_empty_ipv6 8 [100 \<mapsto> ex_vni_data 1]"
  have net: "net4 0x0a000005 8 = 0x0a000000" "net4 0x0a000007 8 = 0x0a000000"
    by (simp_all add: net4_def push_bit_eq_mult drop_bit_eq_div)
  have "fst ?a = DP_OK"
    by (simp add: dp_add_route_def ref_lpm_lib_def route4_table_eq[OF ref_vni_ht] ex_vni_data_def ref_rib_def)
  moreover have "?a = (fst ?a, snd ?a)" by simp
  ultimately show ?thesis
    using route_add_delete[OF ref_lpm, where port = "ex_lpm_port 1" and vni = 100 and t = "[100 \<mapsto> ex_vni_data 1]"
        and ip' = "0x0a000007" and r = "fst ?a" and t' = "snd ?a" and depth = 8 and t_vni = 0 and ip = "0x0a000005"
        and hop = dp_empty_ipv6] net
    by (simp add: ex_lpm_port_def)
qed

theorem reset_failure_permanent_witness:
  "fst (dp_reset_vni_route_tables (ref_vni_lib\<lparr> vni_rib_create := False \<rparr>) 100 [100 \<mapsto> ex_vni_data 1]) = Inl DP_ERROR
   \<and> fst (dp_reset_vni_route_tables ref_vni_lib 100
       (snd (dp_reset_vni_route_tables (ref_vni_lib\<lparr> vni_rib_create := False \<rparr>) 100 [100 \<mapsto> ex_vni_data 1]))) = DP_OK"
proof -
  let ?a = "dp_reset_vni_route_tables (ref_vni_lib\<lparr> vni_rib_create := False \<rparr>) 100 [100 \<mapsto> ex_vni_data 1]"
  have "?a = (fst ?a, snd ?a)" by simp
  moreover have "hash_table (vni_ops (ref_vni_lib\<lparr> vni_rib_create := False \<rparr>))" using ref_vni_ht by simp
  ultimately show ?thesis
    using reset_failure_permanent[OF _ ref_lpm(2), of "ref_vni_lib\<lparr> vni_rib_create := False \<rparr>"
        "[100 \<mapsto> ex_vni_data 1]" 100 "ex_vni_data 1" "fst ?a" "snd ?a" 0]
    by (simp add: ref_lpm_lib_def ex_vni_data_def ref_vni_lib_def)
qed

end
