(* ===== verification/Dp_Packet.thy ===== *)
theory Dp_Packet
  imports Dp_Types
begin

text \<open>
  Packets: a buffer of bytes with the offset and the length of its data, as an
  \<open>rte_mbuf\<close> of one segment has them, the offload and type fields of the buffer, and
  the private data (\<open>struct dp_flow\<close>, \<open>struct dp_pkt_mark\<close>) behind it.  A header pointer is a position in
  the buffer and keeps its meaning when data is added or removed at the front.  On it the
  header rewriting of \<open>src/dp_nat.c\<close> and \<open>src/rte_flow/dp_rte_flow.c\<close>.

  A field in network byte order is read as the number it encodes (\<open>get16\<close>,
  \<open>get32\<close>); where the code computes with the bytes as they lie in memory, the
  little-endian \<open>get16le\<close> is used.  Reads outside the buffer, which the code does not
  guard against, give zero.
\<close>

section \<open>Bytes\<close>

type_synonym bytes = "uint8 list"

definition get8 :: "bytes \<Rightarrow> nat \<Rightarrow> uint8" where
  "get8 b p = (if p < length b then b ! p else 0)"

definition get16 :: "bytes \<Rightarrow> nat \<Rightarrow> uint16" where
  "get16 b p = word_cat (get8 b p) (get8 b (p + 1))"

definition get16le :: "bytes \<Rightarrow> nat \<Rightarrow> uint16" where
  "get16le b p = word_cat (get8 b (p + 1)) (get8 b p)"

definition get32 :: "bytes \<Rightarrow> nat \<Rightarrow> uint32" where
  "get32 b p = word_cat (get16 b p) (get16 b (p + 2))"

definition get64 :: "bytes \<Rightarrow> nat \<Rightarrow> uint64" where
  "get64 b p = word_cat (get32 b p) (get32 b (p + 4))"

definition get_ipv6 :: "bytes \<Rightarrow> nat \<Rightarrow> dp_ipv6" where
  "get_ipv6 b p = \<lparr> ip6_prefix = get64 b p, ip6_suffix = get64 b (p + 8) \<rparr>"

primrec put_bytes :: "nat \<Rightarrow> bytes \<Rightarrow> bytes \<Rightarrow> bytes" where
  "put_bytes p [] b = b"
| "put_bytes p (x # xs) b = put_bytes (Suc p) xs (b[p := x])"

definition be16 :: "uint16 \<Rightarrow> bytes" where
  "be16 v = [ucast (drop_bit 8 v), ucast v]"

definition le16 :: "uint16 \<Rightarrow> bytes" where
  "le16 v = [ucast v, ucast (drop_bit 8 v)]"

definition be32 :: "uint32 \<Rightarrow> bytes" where
  "be32 v = be16 (ucast (drop_bit 16 v)) @ be16 (ucast v)"

definition be64 :: "uint64 \<Rightarrow> bytes" where
  "be64 v = be32 (ucast (drop_bit 32 v)) @ be32 (ucast v)"

definition be_ipv6 :: "dp_ipv6 \<Rightarrow> bytes" where
  "be_ipv6 a = be64 (ip6_prefix a) @ be64 (ip6_suffix a)"

lemma length_be [simp]: "length (be16 v) = 2" "length (le16 v) = 2" "length (be32 w) = 4" "length (be64 x) = 8"
  "length (be_ipv6 a) = 16"
  by (simp_all add: be16_def le16_def be32_def be64_def be_ipv6_def)

lemma length_put [simp]: "length (put_bytes p xs b) = length b"
  by (induction xs arbitrary: p b) simp_all

lemma get8_upd: "get8 (b[p := x]) q = (if q = p \<and> p < length b then x else get8 b q)"
  by (simp add: get8_def nth_list_update)

lemma get8_put: "get8 (put_bytes p xs b) q =
    (if p \<le> q \<and> q < p + length xs \<and> q < length b then xs ! (q - p) else get8 b q)"
proof (induction xs arbitrary: p b)
  case (Cons x xs)
  show ?case unfolding put_bytes.simps Cons get8_upd by (auto simp: nth_Cons')
qed auto

lemma get8_put_before: "q < p \<Longrightarrow> get8 (put_bytes p xs b) q = get8 b q"
  and get8_put_after: "p + length xs \<le> q \<Longrightarrow> get8 (put_bytes p xs b) q = get8 b q"
  by (simp_all add: get8_put)

lemma get16_other:
  "q + 2 \<le> p \<or> p + length xs \<le> q \<Longrightarrow> get16 (put_bytes p xs b) q = get16 b q"
  "q + 2 \<le> p \<or> p + length xs \<le> q \<Longrightarrow> get16le (put_bytes p xs b) q = get16le b q"
  by (auto simp: get16_def get16le_def get8_put)

lemma get32_other: "q + 4 \<le> p \<or> p + length xs \<le> q \<Longrightarrow> get32 (put_bytes p xs b) q = get32 b q"
  by (auto simp: get32_def get16_other)

lemma get64_other: "q + 8 \<le> p \<or> p + length xs \<le> q \<Longrightarrow> get64 (put_bytes p xs b) q = get64 b q"
  by (auto simp: get64_def get32_other)

lemma get_ipv6_other: "q + 16 \<le> p \<or> p + length xs \<le> q \<Longrightarrow> get_ipv6 (put_bytes p xs b) q = get_ipv6 b q"
  by (auto simp: get_ipv6_def get64_other)

lemma put_nil [simp]: "put_bytes p [] b = b"
  by simp

declare put_bytes.simps [simp del]

lemma cat16 [simp]: "word_cat (ucast (drop_bit 8 v) :: uint8) (ucast v :: uint8) = (v :: uint16)"
  by (rule bit_word_eqI) (auto simp: bit_word_cat_iff bit_simps)

lemma cat32 [simp]: "word_cat (ucast (drop_bit 16 v) :: uint16) (ucast v :: uint16) = (v :: uint32)"
  by (rule bit_word_eqI) (auto simp: bit_word_cat_iff bit_simps)

lemma cat64 [simp]: "word_cat (ucast (drop_bit 32 v) :: uint32) (ucast v :: uint32) = (v :: uint64)"
  by (rule bit_word_eqI) (auto simp: bit_word_cat_iff bit_simps)

lemma get16_put [simp]: "p + 2 \<le> length b \<Longrightarrow> get16 (put_bytes p (be16 v) b) p = v"
  "p + 2 \<le> length b \<Longrightarrow> get16le (put_bytes p (le16 v) b) p = v"
  by (simp_all add: get16_def get16le_def be16_def le16_def get8_put)

lemma put_append: "put_bytes p (xs @ ys) b = put_bytes (p + length xs) ys (put_bytes p xs b)"
  by (induction xs arbitrary: p b) (simp_all add: put_bytes.simps)

lemma get32_put [simp]: "p + 4 \<le> length b \<Longrightarrow> get32 (put_bytes p (be32 v) b) p = v"
  by (simp add: get32_def be32_def put_append get16_other)

lemma get64_put [simp]: "p + 8 \<le> length b \<Longrightarrow> get64 (put_bytes p (be64 v) b) p = v"
  by (simp add: get64_def be64_def put_append get32_other)

lemma get_ipv6_put [simp]: "p + 16 \<le> length b \<Longrightarrow> get_ipv6 (put_bytes p (be_ipv6 a) b) p = a"
  by (simp add: get_ipv6_def be_ipv6_def put_append get64_other)

lemmas get_other = get8_put_before get8_put_after get16_other get32_other get64_other get_ipv6_other

section \<open>Buffers\<close>

text \<open>The offload flags of a buffer.\<close>

datatype ol_flag = TX_IPV4 | TX_IPV6 | TX_IP_CKSUM | TX_TCP_CKSUM | TX_UDP_CKSUM | TX_OUTER_IPV6 | TX_TUNNEL_IP
  | RX_SEC_OFFLOAD | RX_SEC_OFFLOAD_FAILED

record rte_mbuf =
  mb_buf :: bytes
  mb_off :: nat
  mb_len :: nat
  mb_port :: uint16
  mb_packet_type :: uint32
  mb_ol_flags :: "ol_flag set"
  mb_l2_len :: nat
  mb_l3_len :: nat
  mb_l4_len :: nat
  mb_outer_l2_len :: nat
  mb_outer_l3_len :: nat
  mb_df :: dp_flow
  mb_mark :: dp_pkt_mark

abbreviation (input) "RTE_PTYPE_L2_MASK \<equiv> 0x0000000f :: uint32"
abbreviation (input) "RTE_PTYPE_L2_ETHER \<equiv> 0x00000001 :: uint32"
abbreviation (input) "RTE_PTYPE_L3_MASK \<equiv> 0x000000f0 :: uint32"
abbreviation (input) "RTE_PTYPE_L3_IPV4 \<equiv> 0x00000010 :: uint32"
abbreviation (input) "RTE_PTYPE_L3_IPV6 \<equiv> 0x00000040 :: uint32"
abbreviation (input) "RTE_PTYPE_L4_MASK \<equiv> 0x00000f00 :: uint32"
abbreviation (input) "RTE_PTYPE_TUNNEL_IP \<equiv> 0x00001000 :: uint32"
abbreviation (input) "RTE_PTYPE_INNER_L3_IPV4 \<equiv> 0x00100000 :: uint32"
abbreviation (input) "RTE_PTYPE_INNER_L3_IPV6 \<equiv> 0x00300000 :: uint32"
abbreviation (input) "RTE_PTYPE_INNER_L4_MASK \<equiv> 0x0f000000 :: uint32"

abbreviation (input) "ETHER_HDR_LEN \<equiv> 14 :: nat"
abbreviation (input) "IPV4_HDR_LEN \<equiv> 20 :: nat"
abbreviation (input) "IPV6_HDR_LEN \<equiv> 40 :: nat"

definition rte_pktmbuf_adj :: "nat \<Rightarrow> rte_mbuf \<Rightarrow> rte_mbuf option" where
  "rte_pktmbuf_adj n m = (if mb_len m < n then None
     else Some (m\<lparr> mb_off := mb_off m + n, mb_len := mb_len m - n \<rparr>))"

definition rte_pktmbuf_prepend :: "nat \<Rightarrow> rte_mbuf \<Rightarrow> rte_mbuf option" where
  "rte_pktmbuf_prepend n m = (if mb_off m < n then None
     else Some (m\<lparr> mb_off := mb_off m - n, mb_len := mb_len m + n \<rparr>))"

definition put :: "nat \<Rightarrow> bytes \<Rightarrow> rte_mbuf \<Rightarrow> rte_mbuf" where
  "put p xs m = m\<lparr> mb_buf := put_bytes p xs (mb_buf m) \<rparr>"

lemma put_simps [simp]:
  "mb_buf (put p xs m) = put_bytes p xs (mb_buf m)" "mb_off (put p xs m) = mb_off m" "mb_len (put p xs m) = mb_len m"
  "mb_port (put p xs m) = mb_port m" "mb_packet_type (put p xs m) = mb_packet_type m"
  "mb_ol_flags (put p xs m) = mb_ol_flags m" "mb_df (put p xs m) = mb_df m" "mb_mark (put p xs m) = mb_mark m"
  by (simp_all add: put_def)

text \<open>The IP header of a frame: its position.\<close>

definition dp_get_ipv4_hdr :: "rte_mbuf \<Rightarrow> nat" where "dp_get_ipv4_hdr m = mb_off m + ETHER_HDR_LEN"

definition dp_get_ipv6_hdr :: "rte_mbuf \<Rightarrow> nat" where "dp_get_ipv6_hdr m = mb_off m + ETHER_HDR_LEN"

definition ipv4_hdr_at :: "bytes \<Rightarrow> nat \<Rightarrow> rte_ipv4_hdr" where
  "ipv4_hdr_at b p = \<lparr> ip4_src_addr = get32 b (p + 12), ip4_dst_addr = get32 b (p + 16), ip4_next_proto_id = get8 b (p + 9) \<rparr>"

definition ipv6_hdr_at :: "bytes \<Rightarrow> nat \<Rightarrow> rte_ipv6_hdr" where
  "ipv6_hdr_at b p = \<lparr> ip6h_src_addr = get_ipv6 b (p + 8), ip6h_dst_addr = get_ipv6 b (p + 24), ip6h_proto = get8 b (p + 6) \<rparr>"

definition l4_hdr_at :: "bytes \<Rightarrow> nat \<Rightarrow> l4_hdr" where
  "l4_hdr_at b p = \<lparr> l4_word0 = get16 b p, l4_word1 = get16 b (p + 2), l4_icmp_ident = get16 b (p + 4) \<rparr>"

section \<open>Checksums\<close>

abbreviation (input) "RTE_ICMP_TYPE_ECHO_REPLY \<equiv> 0 :: uint8"
abbreviation (input) "RTE_ICMP_TYPE_ECHO_REQUEST \<equiv> 8 :: uint8"
abbreviation (input) "DP_ICMPV6_ECHO_REQUEST \<equiv> 128 :: uint8"
abbreviation (input) "DP_ICMPV6_ECHO_REPLY \<equiv> 129 :: uint8"
abbreviation (input) "DP_IP_ICMP_TYPE_ERROR \<equiv> 3 :: uint8"

definition cksum_fold :: "uint32 \<Rightarrow> uint32" where
  "cksum_fold c = (c AND 0xffff) + drop_bit 16 c"

text \<open>\<open>while (sum >> 16)\<close>: two rounds are enough for the sums that occur, the
  model keeps the loop.\<close>

function cksum_fold_loop :: "uint32 \<Rightarrow> uint32" where
  "cksum_fold_loop c = (if drop_bit 16 c \<noteq> 0 then cksum_fold_loop (cksum_fold c) else c)"
  by pat_completeness auto

lemma cksum_fold_unat: "unat (cksum_fold c) = unat c mod 65536 + unat c div 65536"
proof -
  have a: "unat (c AND 0xffff) = unat c mod 65536"
  proof -
    have m: "(0xffff :: uint32) = mask 16" by (simp add: mask_eq_exp_minus_1)
    have "unat (c AND mask 16) = unat c mod 2 ^ 16"
      unfolding take_bit_eq_mask[symmetric] unsigned_take_bit_eq by (simp add: take_bit_eq_mod)
    thus ?thesis unfolding m by simp
  qed
  have b: "unat (drop_bit 16 c) = unat c div 65536" by (simp add: drop_bit_eq_div unat_div)
  have "unat c < 2 ^ 32" using unsigned_less[of c] by simp
  hence "unat c div 65536 < 65536" by (simp add: div_less_iff_less_mult)
  hence "unat (c AND 0xffff) + unat (drop_bit 16 c) < 2 ^ LENGTH(32)" unfolding a b by simp
  thus ?thesis unfolding cksum_fold_def a[symmetric] b[symmetric]
    by (simp add: unat_add_lem[THEN iffD1])
qed

lemma drop16_nonzero: "drop_bit 16 (c :: uint32) \<noteq> 0 \<longleftrightarrow> unat c \<ge> 65536"
proof -
  have "unat (drop_bit 16 c) = unat c div 65536" by (simp add: drop_bit_eq_div unat_div)
  thus ?thesis by (metis div_eq_0_iff not_less unat_eq_zero zero_neq_numeral)
qed

termination cksum_fold_loop
proof (relation "measure unat")
  fix c :: uint32
  assume "drop_bit 16 c \<noteq> 0"
  hence "unat c \<ge> 65536" by (simp add: drop16_nonzero)
  hence "unat c div 65536 > 0" by (simp add: div_greater_zero_iff)
  moreover have "unat c = 65536 * (unat c div 65536) + unat c mod 65536" by simp
  ultimately have "unat c mod 65536 + unat c div 65536 < unat c" by linarith
  thus "(cksum_fold c, c) \<in> measure unat" by (simp add: cksum_fold_unat)
qed simp

declare cksum_fold_loop.simps [simp del]

text \<open>The sum of the 16-bit words of a message (the last byte of an odd length with
  the byte behind it), as \<open>dp_calculate_icmp_checksum\<close> adds them up.  A frame is taken to be
  at least as long as its headers.\<close>

fun add_words :: "bytes \<Rightarrow> nat \<Rightarrow> nat \<Rightarrow> uint32 \<Rightarrow> uint32" where
  "add_words b p 0 acc = acc"
| "add_words b p (Suc 0) acc = acc + ucast (get16le b p)"
| "add_words b p (Suc (Suc n)) acc = add_words b (p + 2) n (acc + ucast (get16le b p))"

definition dp_calculate_icmp_checksum :: "nat \<Rightarrow> nat \<Rightarrow> rte_mbuf \<Rightarrow> rte_mbuf" where
  "dp_calculate_icmp_checksum icmp_hdr icmp_len m =
     (let m = put (icmp_hdr + 2) (le16 0) m;
          sum = cksum_fold_loop (add_words (mb_buf m) icmp_hdr icmp_len 0) in
      put (icmp_hdr + 2) (le16 (NOT (ucast sum))) m)"

definition dp_change_icmp_identifier :: "rte_mbuf \<Rightarrow> uint16 \<Rightarrow> rte_mbuf" where
  "dp_change_icmp_identifier m new_val =
     (let icmp_hdr = dp_get_ipv4_hdr m + IPV4_HDR_LEN;
          old_identifier = get16le (mb_buf m) (icmp_hdr + 4);
          m = put (icmp_hdr + 4) (be16 new_val) m;
          cksum = ucast (NOT (get16le (mb_buf m) (icmp_hdr + 2))) :: uint32;
          cksum = cksum + ucast (NOT old_identifier);
          cksum = cksum + ucast (get16le (mb_buf m) (icmp_hdr + 4));
          cksum = cksum_fold cksum;
          cksum = cksum_fold cksum in
      put (icmp_hdr + 2) (le16 (ucast (NOT cksum))) m)"

definition DP_L4_PORT_DIR_SRC :: uint8 where "DP_L4_PORT_DIR_SRC = 1"
definition DP_L4_PORT_DIR_DST :: uint8 where "DP_L4_PORT_DIR_DST = 2"

text \<open>The ports have the same place in both headers.\<close>

definition dp_change_l4_hdr_port :: "rte_mbuf \<Rightarrow> uint8 \<Rightarrow> uint16 \<Rightarrow> rte_mbuf" where
  "dp_change_l4_hdr_port m port_type new_val =
     (let l4_hdr = dp_get_ipv4_hdr m + IPV4_HDR_LEN in
      if port_type = DP_L4_PORT_DIR_SRC then put l4_hdr (be16 new_val) m
      else put (l4_hdr + 2) (be16 new_val) m)"

text \<open>The header an ICMP error message quotes: its position, and the ports behind
  it where it is TCP or UDP (zero otherwise).\<close>

definition err_ihl :: "bytes \<Rightarrow> nat \<Rightarrow> nat" where
  "err_ihl b p = unat (get8 b p AND 0x0f) * 4"

definition dp_get_icmp_err_ip_hdr :: "rte_mbuf \<Rightarrow> nat option \<times> uint16 \<times> uint16" where
  "dp_get_icmp_err_ip_hdr m =
     (let b = mb_buf m; icmp_hdr = dp_get_ipv4_hdr m + IPV4_HDR_LEN; err_ipv4_hdr = icmp_hdr + 8 in
      if df_l4_type (mb_df m) = IPPROTO_ICMP \<and> get8 b icmp_hdr = DP_IP_ICMP_TYPE_ERROR
      then if get8 b (err_ipv4_hdr + 9) = IPPROTO_TCP \<or> get8 b (err_ipv4_hdr + 9) = IPPROTO_UDP
        then (Some err_ipv4_hdr, get16 b (err_ipv4_hdr + err_ihl b err_ipv4_hdr),
              get16 b (err_ipv4_hdr + err_ihl b err_ipv4_hdr + 2))
        else (Some err_ipv4_hdr, 0, 0)
      else (None, 0, 0))"

definition dp_change_icmp_err_l4_src_port :: "rte_mbuf \<Rightarrow> uint16 \<Rightarrow> rte_mbuf" where
  "dp_change_icmp_err_l4_src_port m new_val =
     (let b = mb_buf m; icmp_hdr = dp_get_ipv4_hdr m + IPV4_HDR_LEN; err_ipv4_hdr = icmp_hdr + 8 in
      if get8 b icmp_hdr = DP_IP_ICMP_TYPE_ERROR
         \<and> (get8 b (err_ipv4_hdr + 9) = IPPROTO_TCP \<or> get8 b (err_ipv4_hdr + 9) = IPPROTO_UDP)
      then put (err_ipv4_hdr + err_ihl b err_ipv4_hdr) (be16 new_val) m else m)"

section \<open>Address translation in the headers\<close>

text \<open>The checksum functions of the library, over the buffer.\<close>

record cksum_lib =
  rte_ipv4_cksum :: "bytes \<Rightarrow> nat \<Rightarrow> uint16"
  rte_ipv4_udptcp_cksum :: "bytes \<Rightarrow> nat \<Rightarrow> nat \<Rightarrow> uint16"
  rte_ipv6_udptcp_cksum :: "bytes \<Rightarrow> nat \<Rightarrow> nat \<Rightarrow> uint16"

record dp_conf =
  conf_tap_mode :: bool
  conf_ipsec_enabled :: bool
  conf_offload_enabled :: bool
  conf_sync_enabled :: bool
  conf_virtsvc_present :: bool

definition DP_TCP_HDR_LEN :: "bytes \<Rightarrow> nat \<Rightarrow> nat" where
  "DP_TCP_HDR_LEN b tcp_hdr = unat (drop_bit 2 (get8 b (tcp_hdr + 12) AND 0xf0))"

definition rte_ipv4_hdr_len :: "bytes \<Rightarrow> nat \<Rightarrow> nat" where
  "rte_ipv4_hdr_len b ipv4_hdr = unat (get8 b ipv4_hdr AND 0x0f) * 4"

definition add_flag :: "ol_flag \<Rightarrow> rte_mbuf \<Rightarrow> rte_mbuf" where
  "add_flag f m = m\<lparr> mb_ol_flags := insert f (mb_ol_flags m) \<rparr>"

definition zero_tx_offload :: "rte_mbuf \<Rightarrow> rte_mbuf" where
  "zero_tx_offload m = m\<lparr> mb_l2_len := 0, mb_l3_len := 0, mb_l4_len := 0, mb_outer_l2_len := 0, mb_outer_l3_len := 0 \<rparr>"

definition dp_nat_chg_ip :: "cksum_lib \<Rightarrow> dp_conf \<Rightarrow> nat \<Rightarrow> rte_mbuf \<Rightarrow> rte_mbuf" where
  "dp_nat_chg_ip L conf ipv4_hdr m =
     (let no_offload = conf_tap_mode conf \<or> conf_ipsec_enabled conf;
          m = put (ipv4_hdr + 10) (be16 0) m;
          m = zero_tx_offload (add_flag TX_IPV4 m);
          m = m\<lparr> mb_l2_len := ETHER_HDR_LEN, mb_l3_len := rte_ipv4_hdr_len (mb_buf m) ipv4_hdr, mb_l4_len := 0 \<rparr>;
          l4_hdr = ipv4_hdr + IPV4_HDR_LEN; l4_type = df_l4_type (mb_df m);
          m = (if l4_type = IPPROTO_TCP then
                 let m = m\<lparr> mb_l4_len := DP_TCP_HDR_LEN (mb_buf m) l4_hdr \<rparr>; m = put (l4_hdr + 16) (be16 0) m in
                 if no_offload then put (l4_hdr + 16) (le16 (rte_ipv4_udptcp_cksum L (mb_buf m) ipv4_hdr l4_hdr)) m
                 else add_flag TX_TCP_CKSUM m
               else if l4_type = IPPROTO_UDP then
                 let m = m\<lparr> mb_l4_len := 8 \<rparr>; m = put (l4_hdr + 6) (be16 0) m in
                 if no_offload then put (l4_hdr + 6) (le16 (rte_ipv4_udptcp_cksum L (mb_buf m) ipv4_hdr l4_hdr)) m
                 else add_flag TX_UDP_CKSUM m
               else if l4_type = IPPROTO_ICMP then m\<lparr> mb_l4_len := 8 \<rparr>
               else m) in
      if no_offload then put (ipv4_hdr + 10) (le16 (rte_ipv4_cksum L (mb_buf m) ipv4_hdr)) m
      else add_flag TX_IP_CKSUM m)"

definition update_df :: "(dp_flow \<Rightarrow> dp_flow) \<Rightarrow> rte_mbuf \<Rightarrow> rte_mbuf" where
  "update_df f m = m\<lparr> mb_df := f (mb_df m) \<rparr>"

text \<open>The outcome, the destination address, and the packet; after a failure the
  packet is in the state it was left in.\<close>

definition dp_nat_chg_ipv6_to_ipv4_hdr :: "uint32 \<Rightarrow> rte_mbuf \<Rightarrow> unit dp_result \<times> ipv4 \<times> rte_mbuf" where
  "dp_nat_chg_ipv6_to_ipv4_hdr nat_ip m =
     (let eth_hdr = mb_off m;
          m = put (eth_hdr + 12) (be16 RTE_ETHER_TYPE_IPV4) m;
          ipv6_hdr = dp_get_ipv6_hdr m;
          dest_ip = dp_get_ipv6_nat64 (get_ipv6 (mb_buf m) (ipv6_hdr + 24));
          l4_proto = get8 (mb_buf m) (ipv6_hdr + 6) in
      case rte_pktmbuf_adj (IPV6_HDR_LEN - IPV4_HDR_LEN) m of
        None \<Rightarrow> (Inl DP_ERROR, dest_ip, m)
      | Some m \<Rightarrow>
        let m = put (mb_off m) (take ETHER_HDR_LEN (drop eth_hdr (mb_buf m))) m;
            ipv4_hdr = dp_get_ipv4_hdr m;
            m = put ipv4_hdr [0x45] m;
            m = put (ipv4_hdr + 1) [ucast (drop_bit 20 (get32 (mb_buf m) ipv6_hdr))] m;
            m = put (ipv4_hdr + 2) (be16 (of_nat (mb_len m) - 14)) m;
            m = put (ipv4_hdr + 4) (be16 0) m;
            m = put (ipv4_hdr + 6) (be16 0) m;
            m = put (ipv4_hdr + 8) [get8 (mb_buf m) (ipv6_hdr + 7)] m;
            m = put (ipv4_hdr + 9) [l4_proto] m;
            m = put (ipv4_hdr + 12) (be32 nat_ip) m;
            m = put (ipv4_hdr + 16) (be32 dest_ip) m;
            m = put (ipv4_hdr + 10) (be16 0) m;
            m = m\<lparr> mb_packet_type := (mb_packet_type m AND NOT RTE_PTYPE_L3_MASK) OR RTE_PTYPE_L3_IPV4 \<rparr>;
            m = zero_tx_offload (add_flag TX_IP_CKSUM (add_flag TX_IPV4 m));
            m = m\<lparr> mb_l2_len := ETHER_HDR_LEN, mb_l3_len := rte_ipv4_hdr_len (mb_buf m) ipv4_hdr, mb_l4_len := 0 \<rparr>;
            m = update_df (\<lambda>df. df\<lparr> df_l3_type := RTE_ETHER_TYPE_IPV4 \<rparr>) m;
            l4_hdr = ipv4_hdr + IPV4_HDR_LEN; l4_type = df_l4_type (mb_df m) in
        if l4_type = IPPROTO_TCP then
          let m = add_flag TX_TCP_CKSUM (put (l4_hdr + 16) (be16 0) m) in
          (DP_OK, dest_ip, m\<lparr> mb_l4_len := DP_TCP_HDR_LEN (mb_buf m) l4_hdr \<rparr>)
        else if l4_type = IPPROTO_UDP then
          (DP_OK, dest_ip, (add_flag TX_UDP_CKSUM (put (l4_hdr + 6) (be16 0) m))\<lparr> mb_l4_len := 8 \<rparr>)
        else if l4_type = IPPROTO_ICMPV6 then
          let m = update_df (\<lambda>df. df\<lparr> df_l4_type := IPPROTO_ICMP \<rparr>) m;
              m = put (ipv4_hdr + 9) [IPPROTO_ICMP] m;
              m = m\<lparr> mb_l4_len := 8, mb_packet_type := (mb_packet_type m AND NOT RTE_PTYPE_L4_MASK) OR 0x100 \<rparr>;
              m = put (l4_hdr + 1) [0] m;
              icmp_type = get8 (mb_buf m) l4_hdr;
              icmp_len = unat (get16 (mb_buf m) (ipv4_hdr + 2)) - unat (get8 (mb_buf m) ipv4_hdr AND 0x0f) * 4 in
          if icmp_type = DP_ICMPV6_ECHO_REQUEST
          then (DP_OK, dest_ip, dp_calculate_icmp_checksum l4_hdr icmp_len (put l4_hdr [RTE_ICMP_TYPE_ECHO_REQUEST] m))
          else if icmp_type = DP_ICMPV6_ECHO_REPLY
          then (DP_OK, dest_ip, dp_calculate_icmp_checksum l4_hdr icmp_len (put l4_hdr [RTE_ICMP_TYPE_ECHO_REPLY] m))
          else (Inl DP_ERROR, dest_ip, m)
        else (Inl DP_ERROR, dest_ip, m))"

definition dp_nat_chg_ipv4_to_ipv6_hdr :: "cksum_lib \<Rightarrow> dp_ipv6 \<Rightarrow> rte_mbuf \<Rightarrow> unit dp_result \<times> rte_mbuf" where
  "dp_nat_chg_ipv4_to_ipv6_hdr L ipv6_addr m =
     (let eth_hdr = mb_off m;
          m = put (eth_hdr + 12) (be16 RTE_ETHER_TYPE_IPV6) m;
          ipv4_hdr = dp_get_ipv4_hdr m;
          src_ipv4 = get32 (mb_buf m) (ipv4_hdr + 12);
          l4_proto = get8 (mb_buf m) (ipv4_hdr + 9) in
      case rte_pktmbuf_prepend (IPV6_HDR_LEN - IPV4_HDR_LEN) m of
        None \<Rightarrow> (Inl DP_ERROR, m)
      | Some m \<Rightarrow>
        let m = put (mb_off m) (take ETHER_HDR_LEN (drop eth_hdr (mb_buf m))) m;
            ipv6_hdr = dp_get_ipv6_hdr m;
            m = put ipv6_hdr (be32 (0x60000000 OR push_bit 20 (ucast (get8 (mb_buf m) (ipv4_hdr + 1))))) m;
            m = put (ipv6_hdr + 4) (be16 (of_nat (mb_len m) - 14 - 40)) m;
            m = put (ipv6_hdr + 6) [l4_proto] m;
            m = put (ipv6_hdr + 7) [get8 (mb_buf m) (ipv4_hdr + 8)] m;
            m = put (ipv6_hdr + 8) (be_ipv6 (dp_set_ipv6_nat64 src_ipv4)) m;
            m = put (ipv6_hdr + 24) (be_ipv6 ipv6_addr) m;
            m = update_df (\<lambda>df. df\<lparr> df_dst := ipv6_addr \<rparr>) m;
            m = add_flag TX_IPV6 (m\<lparr> mb_packet_type := (mb_packet_type m AND NOT RTE_PTYPE_L3_MASK) OR RTE_PTYPE_L3_IPV6 \<rparr>);
            m = m\<lparr> mb_l2_len := ETHER_HDR_LEN, mb_l3_len := IPV6_HDR_LEN, mb_l4_len := 0 \<rparr>;
            l4_hdr = ipv6_hdr + IPV6_HDR_LEN; l4_type = df_l4_type (mb_df m) in
        if l4_type = IPPROTO_TCP then
          let m = add_flag TX_TCP_CKSUM (put (l4_hdr + 16) (be16 0) m) in
          (DP_OK, m\<lparr> mb_l4_len := DP_TCP_HDR_LEN (mb_buf m) l4_hdr \<rparr>)
        else if l4_type = IPPROTO_UDP then
          (DP_OK, (add_flag TX_UDP_CKSUM (put (l4_hdr + 6) (be16 0) m))\<lparr> mb_l4_len := 8 \<rparr>)
        else if l4_type = IPPROTO_ICMP then
          let m = update_df (\<lambda>df. df\<lparr> df_l4_type := IPPROTO_ICMPV6 \<rparr>) m;
              m = m\<lparr> mb_l4_len := 8 \<rparr>;
              m = put (ipv6_hdr + 6) [IPPROTO_ICMPV6] m;
              m = put (l4_hdr + 1) [0] m;
              m = put (l4_hdr + 2) (be16 0) m;
              icmp_type = get8 (mb_buf m) l4_hdr in
          if icmp_type = RTE_ICMP_TYPE_ECHO_REQUEST then
            let m = put l4_hdr [DP_ICMPV6_ECHO_REQUEST] m in
            (DP_OK, put (l4_hdr + 2) (le16 (rte_ipv6_udptcp_cksum L (mb_buf m) ipv6_hdr l4_hdr)) m)
          else if icmp_type = RTE_ICMP_TYPE_ECHO_REPLY then
            let m = put l4_hdr [DP_ICMPV6_ECHO_REPLY] m in
            (DP_OK, put (l4_hdr + 2) (le16 (rte_ipv6_udptcp_cksum L (mb_buf m) ipv6_hdr l4_hdr)) m)
          else (Inl DP_ERROR, m)
        else (Inl DP_ERROR, m))"

section \<open>Properties\<close>

text \<open>The sum of the first \<open>k\<close> words of a message; it is valid when the sum is a
  multiple of 65535, which is what a receiver checks.\<close>

definition word_sum :: "bytes \<Rightarrow> nat \<Rightarrow> nat \<Rightarrow> nat" where
  "word_sum b p k = (\<Sum>i<k. unat (get16le b (p + 2 * i)))"

lemma word_sum_put:
  assumes fit: "p + 2 * j + 2 \<le> length b" and j: "j < k"
  shows "word_sum (put_bytes (p + 2 * j) (le16 v) b) p k + unat (get16le b (p + 2 * j)) = word_sum b p k + unat v"
proof -
  let ?b = "put_bytes (p + 2 * j) (le16 v) b"
  have other: "get16le ?b (p + 2 * i) = get16le b (p + 2 * i)" if "i \<noteq> j" for i
    using that by (intro get16_other) (auto simp: nat_neq_iff)
  have "word_sum ?b p k = unat v + (\<Sum>i\<in>{..<k} - {j}. unat (get16le b (p + 2 * i)))"
    unfolding word_sum_def using j fit by (subst sum.remove[of _ j]) (simp_all add: other)
  moreover have "word_sum b p k = unat (get16le b (p + 2 * j)) + (\<Sum>i\<in>{..<k} - {j}. unat (get16le b (p + 2 * i)))"
    unfolding word_sum_def using j by (subst sum.remove[of _ j]) simp_all
  ultimately show ?thesis by simp
qed

definition bswap16 :: "uint16 \<Rightarrow> uint16" where
  "bswap16 v = word_cat (ucast v :: uint8) (ucast (drop_bit 8 v) :: uint8)"

lemma be16_bswap: "be16 v = le16 (bswap16 v)"
proof -
  have "ucast (bswap16 v) = (ucast (drop_bit 8 v) :: uint8)"
    by (rule bit_word_eqI) (simp add: bswap16_def bit_word_cat_iff bit_simps)
  moreover have "ucast (drop_bit 8 (bswap16 v)) = (ucast v :: uint8)"
    by (rule bit_word_eqI) (simp add: bswap16_def bit_word_cat_iff bit_simps)
  ultimately show ?thesis by (simp add: be16_def le16_def)
qed

lemma fold_mod: "unat (cksum_fold c) mod 65535 = unat c mod 65535"
proof -
  have "unat c = (unat c mod 65536 + unat c div 65536) + 65535 * (unat c div 65536)"
    using div_mult_mod_eq[of "unat c" 65536] by linarith
  hence "unat c mod 65535 = (unat c mod 65536 + unat c div 65536) mod 65535" by (metis mod_mult_self2)
  thus ?thesis unfolding cksum_fold_unat by simp
qed

lemma unat_NOT: "unat (NOT w) + unat w = 2 ^ LENGTH('a) - 1" for w :: "'a::len word"
proof -
  have "NOT w = - 1 - w" by (simp add: not_eq_complement)
  moreover have "unat (- 1 - w) = unat (- 1 :: 'a word) - unat w" by (rule unat_sub) simp
  moreover have "unat w \<le> unat (- 1 :: 'a word)" by (simp add: word_le_nat_alt[symmetric])
  ultimately show ?thesis by (simp add: unsigned_minus_1_eq_mask mask_eq_exp_minus_1)
qed

lemma NOT_ucast: "(ucast (NOT c) :: uint16) = NOT (ucast c)" for c :: uint32
  by (rule bit_word_eqI) (simp add: bit_simps)

lemma unat_NOT_low:
  fixes c :: uint32
  assumes "unat c < 65536"
  shows "unat (ucast (NOT c) :: uint16) + unat c = 65535"
proof -
  note NOT_ucast[of c]
  moreover have "unat (ucast c :: uint16) = unat c"
    using assms by (simp add: unsigned_ucast_eq take_bit_eq_mod)
  ultimately show ?thesis using unat_NOT[of "ucast c :: uint16"] by simp
qed

lemma fold_twice_bound: "unat c < 3 * 65536 \<Longrightarrow> unat (cksum_fold (cksum_fold c)) < 65536"
proof -
  assume c: "unat c < 3 * 65536"
  have "unat c div 65536 < 3" using c by (simp add: div_less_iff_less_mult)
  moreover have "unat c mod 65536 < 65536" by simp
  ultimately have n: "unat (cksum_fold c) < 65536 + 2" unfolding cksum_fold_unat by linarith
  show ?thesis
  proof (cases "unat (cksum_fold c) < 65536")
    case False
    then obtain k where "unat (cksum_fold c) = 65536 + k" "k < 2"
      using n by (metis add_less_cancel_left le_Suc_ex linorder_not_less)
    thus ?thesis by (simp add: cksum_fold_unat[of "cksum_fold c"])
  qed (simp add: cksum_fold_unat[of "cksum_fold c"])
qed

lemma mod_cancel: "(x + c) mod n = (y + c) mod n \<Longrightarrow> x mod n = (y :: nat) mod n"
proof -
  assume "(x + c) mod n = (y + c) mod n"
  hence "(int x + int c) mod int n = (int y + int c) mod int n" by (metis of_nat_add zmod_int)
  hence "(int x + int c - int c) mod int n = (int y + int c - int c) mod int n" by (rule mod_diff_cong) simp
  thus ?thesis by (simp flip: zmod_int)
qed

text \<open>The incremental update of a checksum when one word of the message changes.\<close>

lemma cksum_update:
  fixes ck old new :: uint16
  defines "c \<equiv> cksum_fold (cksum_fold (ucast (NOT ck) + ucast (NOT old) + ucast new))"
  shows "(unat (ucast (NOT c) :: uint16) + unat new) mod 65535 = (unat ck + unat old) mod 65535"
proof -
  let ?s = "ucast (NOT ck) + ucast (NOT old) + ucast new :: uint32"
  have u: "unat (ucast w :: uint32) = unat w" for w :: uint16
  proof -
    have "unat w < 2 ^ LENGTH(16)" by (rule unsigned_less)
    thus ?thesis by (simp add: unsigned_ucast_eq take_bit_eq_mod)
  qed
  have ck: "unat (NOT ck) + unat ck = 65535" "unat (NOT old) + unat old = 65535"
    using unat_NOT[of ck] unat_NOT[of old] by simp_all
  have nb: "unat new < 65536" using unsigned_less[of new] by simp
  have s1: "unat (ucast (NOT ck) + ucast (NOT old) :: uint32) = unat (NOT ck) + unat (NOT old)"
    unfolding u[symmetric] by (rule unat_add_lem[THEN iffD1]) (use ck u in simp)
  have s: "unat ?s = unat (NOT ck) + unat (NOT old) + unat new"
    using unat_add_lem[THEN iffD1, of "ucast (NOT ck) + ucast (NOT old)" "ucast new :: uint32"] ck nb s1 u by simp
  have c: "unat c < 65536" unfolding c_def by (rule fold_twice_bound) (use s ck nb in simp)
  have cm: "unat c mod 65535 = unat ?s mod 65535" unfolding c_def by (simp add: fold_mod)
  have r: "unat (ucast (NOT c) :: uint16) + unat c = 65535" by (rule unat_NOT_low[OF c])
  have "(unat (ucast (NOT c) :: uint16) + unat new + unat c) mod 65535 = (unat ck + unat old + unat ?s) mod 65535"
  proof -
    have a: "unat (ucast (NOT c) :: uint16) + unat new + unat c = unat new + 65535 * 1" using r by simp
    have b: "unat ck + unat old + unat ?s = unat new + 65535 * 2" using s ck by simp
    show ?thesis unfolding a b by (simp only: mod_mult_self2)
  qed
  also have "\<dots> = (unat ck + unat old + unat c) mod 65535" using cm by (metis mod_add_right_eq)
  finally show ?thesis by (rule mod_cancel)
qed

text \<open>C26: rewriting the identifier of an ICMP message (an address translation with
  port translation does that) keeps the checksum of the message valid without reading
  the payload: the one's complement sum over the message does not change, the
  identifier is the new one, and no byte but the identifier and the checksum is touched.\<close>

theorem icmp_identifier_checksum:
  assumes fit: "dp_get_ipv4_hdr m + IPV4_HDR_LEN + 2 * k \<le> length (mb_buf m)" and k: "3 \<le> k"
  defines "p \<equiv> dp_get_ipv4_hdr m + IPV4_HDR_LEN"
  shows "word_sum (mb_buf (dp_change_icmp_identifier m v)) p k mod 65535 = word_sum (mb_buf m) p k mod 65535
    \<and> get16 (mb_buf (dp_change_icmp_identifier m v)) (p + 4) = v
    \<and> (\<forall>q. q < p + 2 \<or> p + 6 \<le> q \<longrightarrow> get8 (mb_buf (dp_change_icmp_identifier m v)) q = get8 (mb_buf m) q)"
proof -
  let ?b = "mb_buf m"
  let ?b1 = "put_bytes (p + 4) (be16 v) ?b"
  let ?ck = "get16le ?b (p + 2)" and ?old = "get16le ?b (p + 4)"
  let ?c = "cksum_fold (cksum_fold (ucast (NOT ?ck) + ucast (NOT ?old) + ucast (bswap16 v)))"
  have p: "p + 6 \<le> length ?b" using fit k p_def by simp
  have ck1: "get16le ?b1 (p + 2) = ?ck" by (rule get16_other) simp
  have id1: "get16le ?b1 (p + 4) = bswap16 v" unfolding be16_bswap using p by simp
  have res: "mb_buf (dp_change_icmp_identifier m v) = put_bytes (p + 2) (le16 (ucast (NOT ?c))) ?b1"
    by (simp add: dp_change_icmp_identifier_def Let_def ck1 id1 get16_other flip: p_def)
  have s1: "word_sum ?b1 p k + unat ?old = word_sum ?b p k + unat (bswap16 v)"
    using word_sum_put[of p 2 ?b k "bswap16 v"] p k unfolding be16_bswap by simp
  have s2: "word_sum (put_bytes (p + 2) (le16 (ucast (NOT ?c))) ?b1) p k + unat ?ck
      = word_sum ?b1 p k + unat (ucast (NOT ?c) :: uint16)"
    using word_sum_put[of p 1 ?b1 k "ucast (NOT ?c)"] p k ck1 by simp
  have "(word_sum (mb_buf (dp_change_icmp_identifier m v)) p k + (unat ?ck + unat ?old)) mod 65535
      = (word_sum ?b p k + (unat (ucast (NOT ?c) :: uint16) + unat (bswap16 v))) mod 65535"
    unfolding res using s1 s2 by (intro arg_cong[of _ _ "\<lambda>x. x mod 65535"]) linarith
  also have "\<dots> = (word_sum ?b p k + (unat ?ck + unat ?old)) mod 65535"
    using cksum_update[of ?ck ?old "bswap16 v"] by (metis mod_add_right_eq)
  finally have "word_sum (mb_buf (dp_change_icmp_identifier m v)) p k mod 65535 = word_sum ?b p k mod 65535"
    by (rule mod_cancel)
  moreover have "get16 (mb_buf (dp_change_icmp_identifier m v)) (p + 4) = v"
    unfolding res using p by (subst get16_other) simp_all
  moreover have "get8 (mb_buf (dp_change_icmp_identifier m v)) q = get8 ?b q" if "q < p + 2 \<or> p + 6 \<le> q" for q
    unfolding res using that by (auto simp: get8_put)
  ultimately show ?thesis by blast
qed

lemma add_words_sum:
  "unat acc + word_sum b p k < 2 ^ 32 \<Longrightarrow> unat (add_words b p (2 * k) acc) = unat acc + word_sum b p k"
proof (induction k arbitrary: p acc)
  case 0
  show ?case by (simp add: word_sum_def)
next
  case (Suc k)
  let ?w = "get16le b p"
  have split: "word_sum b p (Suc k) = unat ?w + word_sum b (p + 2) k"
    unfolding word_sum_def by (subst sum.lessThan_Suc_shift) (simp add: algebra_simps)
  have u: "unat (ucast ?w :: uint32) = unat ?w"
  proof -
    have "unat ?w < 2 ^ LENGTH(16)" by (rule unsigned_less)
    thus ?thesis by (simp add: unsigned_ucast_eq take_bit_eq_mod)
  qed
  have acc: "unat (acc + ucast ?w) = unat acc + unat ?w"
    using unat_add_lem[THEN iffD1, of acc "ucast ?w :: uint32"] Suc.prems split u by simp
  have "unat (add_words b (p + 2) (2 * k) (acc + ucast ?w)) = unat acc + unat ?w + word_sum b (p + 2) k"
    using Suc.IH[of "acc + ucast ?w" "p + 2"] Suc.prems split acc by simp
  thus ?case using split by simp
qed

lemma cksum_fold_loop_spec:
  "unat (cksum_fold_loop c) < 65536 \<and> unat (cksum_fold_loop c) mod 65535 = unat c mod 65535"
proof (induction c rule: cksum_fold_loop.induct)
  case (1 c)
  show ?case
  proof (cases "drop_bit 16 c = 0")
    case True
    thus ?thesis using drop16_nonzero[of c] by (subst (1 2) cksum_fold_loop.simps) simp
  next
    case False
    thus ?thesis using 1[OF False] by (subst (1 2) cksum_fold_loop.simps) (simp add: fold_mod)
  qed
qed

lemma word_bound: "unat (w :: uint16) \<le> 65535"
  using unsigned_less[of w, where 'a = nat] by simp

text \<open>the checksum that is computed from scratch for an ICMP message after a
  change of the IP version is valid: with it the one's complement sum over the
  message is a multiple of 65535, for every message of even length.  (For an odd
  length the loop adds the byte behind the message.)\<close>

theorem icmp_checksum_valid:
  assumes fit: "p + 2 * k \<le> length (mb_buf m)" and k: "2 \<le> k" "2 * k < 65536"
  shows "word_sum (mb_buf (dp_calculate_icmp_checksum p (2 * k) m)) p k mod 65535 = 0"
proof -
  let ?b0 = "put_bytes (p + 2) (le16 0) (mb_buf m)"
  let ?s = "cksum_fold_loop (add_words ?b0 p (2 * k) 0)"
  have fit2: "p + 4 \<le> length ?b0" using fit k by simp
  have ck0: "get16le ?b0 (p + 2) = 0" using fit k by simp
  have res: "mb_buf (dp_calculate_icmp_checksum p (2 * k) m) = put_bytes (p + 2) (le16 (ucast (NOT ?s))) ?b0"
    by (simp add: dp_calculate_icmp_checksum_def Let_def NOT_ucast)
  have "word_sum ?b0 p k \<le> (\<Sum>i<k. 65535)"
    unfolding word_sum_def by (rule sum_mono) (rule word_bound)
  hence "word_sum ?b0 p k < 2 ^ 32" using k by simp
  hence s: "unat (add_words ?b0 p (2 * k) 0) = word_sum ?b0 p k" using add_words_sum[of 0 ?b0 p k] by simp
  note f = cksum_fold_loop_spec[of "add_words ?b0 p (2 * k) 0"]
  have r: "unat (ucast (NOT ?s) :: uint16) + unat ?s = 65535" by (rule unat_NOT_low) (use f in blast)
  have "word_sum (put_bytes (p + 2) (le16 (ucast (NOT ?s))) ?b0) p k = word_sum ?b0 p k + unat (ucast (NOT ?s) :: uint16)"
    using word_sum_put[of p 1 ?b0 k "ucast (NOT ?s)"] fit2 k ck0 by simp
  hence "word_sum (mb_buf (dp_calculate_icmp_checksum p (2 * k) m)) p k mod 65535
      = (word_sum ?b0 p k + unat (ucast (NOT ?s) :: uint16)) mod 65535" unfolding res by (rule arg_cong)
  also have "\<dots> = (unat ?s + unat (ucast (NOT ?s) :: uint16)) mod 65535"
    using f unfolding s by (metis mod_add_left_eq)
  also have "\<dots> = 0" using r by (simp add: add.commute)
  finally show ?thesis .
qed


section \<open>Concrete packets\<close>

definition ex_mbuf :: "uint8 \<Rightarrow> nat \<Rightarrow> bytes \<Rightarrow> rte_mbuf" where
  "ex_mbuf l4 off data = \<lparr> mb_buf = replicate off 0 @ data, mb_off = off, mb_len = length data, mb_port = 1,
     mb_packet_type = 0x11, mb_ol_flags = {}, mb_l2_len = 0, mb_l3_len = 0, mb_l4_len = 0, mb_outer_l2_len = 0,
     mb_outer_l3_len = 0, mb_df = dp_init_flow_ptr\<lparr> df_l4_type := l4 \<rparr>,
     mb_mark = \<lparr> mark_id = 1, mark_is_recirc = False, mark_crypto_failed = False \<rparr> \<rparr>"

text \<open>An echo request with identifier 0x1234 and its checksum.\<close>

definition ex_echo :: rte_mbuf where
  "ex_echo = ex_mbuf IPPROTO_ICMP 0 (replicate 34 0 @ [8, 0, 0xe5, 0xca, 0x12, 0x34, 0, 1])"

lemma ex_echo_buf: "length (mb_buf ex_echo) = 42" "dp_get_ipv4_hdr ex_echo + 20 = 34"
  "word_sum (mb_buf ex_echo) 34 4 = 65535"
proof -
  show "length (mb_buf ex_echo) = 42" "dp_get_ipv4_hdr ex_echo + 20 = 34"
    by (simp_all add: ex_echo_def ex_mbuf_def dp_get_ipv4_hdr_def)
  have "get16le (mb_buf ex_echo) 34 = 0x0008" "get16le (mb_buf ex_echo) 36 = 0xcae5"
    "get16le (mb_buf ex_echo) 38 = 0x3412" "get16le (mb_buf ex_echo) 40 = 0x0100"
    by (simp_all add: ex_echo_def ex_mbuf_def get16le_def get8_def nth_append word_cat_eq)
  moreover have "{..<4} = {0 :: nat, 1, 2, 3}" by auto
  ultimately show "word_sum (mb_buf ex_echo) 34 4 = 65535" by (simp add: word_sum_def)
qed

theorem icmp_identifier_checksum_witness:
  "word_sum (mb_buf (dp_change_icmp_identifier ex_echo 0x0050)) 34 4 mod 65535 = 0
   \<and> get16 (mb_buf (dp_change_icmp_identifier ex_echo 0x0050)) 38 = 0x0050"
  using icmp_identifier_checksum[of ex_echo 4 "0x0050"] unfolding ex_echo_buf by simp

theorem icmp_checksum_valid_witness:
  "word_sum (mb_buf (dp_calculate_icmp_checksum 34 8 ex_echo)) 34 4 mod 65535 = 0"
  using icmp_checksum_valid[of 34 4 ex_echo] ex_echo_buf by simp

text \<open>A UDP packet over IPv6 with hop limit 64, sent to the MAC address 02:07:..\<close>

definition ex_udp6 :: rte_mbuf where
  "ex_udp6 = ex_mbuf IPPROTO_UDP 0
     ([2, 7, 0, 0, 0, 1, 2, 0, 0, 0, 0, 2, 0x86, 0xdd, 0x60, 0, 0, 0, 0, 20, 17, 64] @ replicate 28 0 @ [10, 0, 0, 9]
      @ replicate 20 0)"


end
