(* ===== verification/Dp_Nat.thy ===== *)
theory Dp_Nat
  imports Dp_Packet Dp_Vni
begin

text \<open>
  Network address translation (\<open>src/dp_nat.c\<close>, \<open>include/dp_nat.h\<close>): the tables of
  translated interfaces, of translated destinations and of allocated ports, the list of
  neighbouring translators, and the messages that keep a backup instance in step
  (\<open>src/dp_sync.c\<close>, the sending side).  The hash tables and the hash function are
  parameters; \<open>mem\<close> arguments say whether an allocation succeeds.  The time stamp that
  limits the rate of a log message is left out.
\<close>

section \<open>Data\<close>

record nat_key =
  nk_ip :: uint32
  nk_vni :: uint32

record nat_entry =
  ne_nat_ip :: uint32
  ne_min_port :: uint16
  ne_max_port :: uint16
  ne_vni :: uint32
  ne_dst_ipv6 :: dp_ipv6

record snat_data =
  sd_vip_ip :: uint32
  sd_nat_ip :: uint32
  sd_min_port :: uint16
  sd_max_port :: uint16
  sd_ul_vip_ip6 :: dp_ipv6
  sd_ul_nat_ip6 :: dp_ipv6

record dnat_data =
  dd_dnat_ip :: uint32

record netnat_portmap_key =
  pmk_vni :: uint32
  pmk_src_ip :: dp_ip_address
  pmk_iface_src_port :: uint16

record netnat_portmap_data =
  pmd_nat_ip :: uint32
  pmd_nat_port :: uint16
  pmd_flow_cnt :: uint16

record netnat_portoverload_tbl_key =
  pok_nat_ip :: uint32
  pok_nat_port :: uint16
  pok_dst_ip :: uint32
  pok_dst_port :: uint16
  pok_l4_type :: uint8

record netnat_portoverload_sync_metadata =
  md_portmap_key :: netnat_portmap_key
  md_created_port_id :: uint16
  md_icmp_type_src :: uint16
  md_icmp_err_ip_cksum :: uint16

section \<open>Messages to the backup instance\<close>

datatype dp_sync_msg =
    SYNC_NAT_CREATE netnat_portmap_key netnat_portoverload_tbl_key uint16 uint16 uint16
  | SYNC_NAT_DELETE netnat_portmap_key netnat_portoverload_tbl_key
  | SYNC_VIRTSVC_CONN uint32 uint16 uint8 uint16 uint32 uint16 uint16
  | SYNC_PORT_MAC uint16 mac
  | SYNC_REQUEST_DUMP

text \<open>Whether a message can be allocated and whether the link takes it.\<close>

record sync_link =
  sync_alloc :: bool
  sync_tx :: bool

definition dp_sync_alloc_message :: "sync_link \<Rightarrow> dp_sync_msg \<Rightarrow> dp_sync_msg option" where
  "dp_sync_alloc_message link msg = (if sync_alloc link then Some msg else None)"

definition dp_sync_send_message :: "sync_link \<Rightarrow> dp_sync_msg \<Rightarrow> dp_sync_msg list \<Rightarrow> unit dp_result \<times> dp_sync_msg list" where
  "dp_sync_send_message link pkt out = (DP_OK, if sync_tx link then out @ [pkt] else out)"

definition dp_sync_send_nat_create ::
  "sync_link \<Rightarrow> netnat_portmap_key \<Rightarrow> netnat_portoverload_tbl_key \<Rightarrow> uint16 \<Rightarrow> uint16 \<Rightarrow> uint16 \<Rightarrow>
   dp_sync_msg list \<Rightarrow> unit dp_result \<times> dp_sync_msg list" where
  "dp_sync_send_nat_create link portmap_key portoverload_key created_port_id icmp_type_src icmp_err_ip_cksum out =
     (case dp_sync_alloc_message link
         (SYNC_NAT_CREATE portmap_key portoverload_key created_port_id icmp_type_src icmp_err_ip_cksum) of
       None \<Rightarrow> (Inl DP_ERROR, out)
     | Some pkt \<Rightarrow> dp_sync_send_message link pkt out)"

definition dp_sync_send_nat_delete ::
  "sync_link \<Rightarrow> netnat_portmap_key \<Rightarrow> netnat_portoverload_tbl_key \<Rightarrow> dp_sync_msg list \<Rightarrow>
   unit dp_result \<times> dp_sync_msg list" where
  "dp_sync_send_nat_delete link portmap_key portoverload_key out =
     (case dp_sync_alloc_message link (SYNC_NAT_DELETE portmap_key portoverload_key) of
       None \<Rightarrow> (Inl DP_ERROR, out)
     | Some pkt \<Rightarrow> dp_sync_send_message link pkt out)"

definition dp_sync_send_virtsvc_conn ::
  "sync_link \<Rightarrow> uint32 \<Rightarrow> uint16 \<Rightarrow> uint8 \<Rightarrow> uint16 \<Rightarrow> uint32 \<Rightarrow> uint16 \<Rightarrow> uint16 \<Rightarrow> dp_sync_msg list \<Rightarrow>
   unit dp_result \<times> dp_sync_msg list" where
  "dp_sync_send_virtsvc_conn link virtual_addr virtual_port proto conn_port vf_ip vf_l4_port vf_port_id out =
     (case dp_sync_alloc_message link
         (SYNC_VIRTSVC_CONN virtual_addr virtual_port proto conn_port vf_ip vf_l4_port vf_port_id) of
       None \<Rightarrow> (Inl DP_ERROR, out)
     | Some pkt \<Rightarrow> dp_sync_send_message link pkt out)"

definition dp_sync_send_mac :: "sync_link \<Rightarrow> uint16 \<Rightarrow> mac \<Rightarrow> dp_sync_msg list \<Rightarrow> unit dp_result \<times> dp_sync_msg list" where
  "dp_sync_send_mac link pid m out =
     (case dp_sync_alloc_message link (SYNC_PORT_MAC pid m) of
       None \<Rightarrow> (Inl DP_ERROR, out)
     | Some pkt \<Rightarrow> dp_sync_send_message link pkt out)"

definition dp_sync_send_request_dump :: "sync_link \<Rightarrow> dp_sync_msg list \<Rightarrow> unit dp_result \<times> dp_sync_msg list" where
  "dp_sync_send_request_dump link out =
     (case dp_sync_alloc_message link SYNC_REQUEST_DUMP of
       None \<Rightarrow> (Inl DP_ERROR, out)
     | Some pkt \<Rightarrow> dp_sync_send_message link pkt out)"

section \<open>State\<close>

text \<open>The tables, the list of neighbours, the counters of used ports by port
  identifier, and the messages that were sent.\<close>

record nat_state =
  ns_snat :: "nat_key \<rightharpoonup> snat_data"
  ns_dnat :: "nat_key \<rightharpoonup> dnat_data"
  ns_portmap :: "netnat_portmap_key \<rightharpoonup> netnat_portmap_data"
  ns_portoverload :: "netnat_portoverload_tbl_key \<rightharpoonup> netnat_portoverload_sync_metadata option"
  ns_neighnat :: "nat_entry list"
  ns_used_port_cnt :: "uint16 \<Rightarrow> uint16"
  ns_sync :: "dp_sync_msg list"

record nat_lib =
  snat_ops :: "(nat_key, snat_data) rte_hash"
  dnat_ops :: "(nat_key, dnat_data) rte_hash"
  portmap_ops :: "(netnat_portmap_key, netnat_portmap_data) rte_hash"
  portoverload_ops :: "(netnat_portoverload_tbl_key, netnat_portoverload_sync_metadata option) rte_hash"
  portmap_hash :: "netnat_portmap_key \<Rightarrow> uint32"

definition DP_NETWORK_NAT_ALL_VNI :: uint32 where "DP_NETWORK_NAT_ALL_VNI = 0"

definition dp_nat_init :: "bool \<Rightarrow> bool \<Rightarrow> bool \<Rightarrow> bool \<Rightarrow> nat_state dp_result" where
  "dp_nat_init snat_created dnat_created portmap_created portoverload_created =
     (if \<not> snat_created then Inl DP_ERROR
      else if \<not> dnat_created then Inl DP_ERROR
      else if \<not> portmap_created then Inl DP_ERROR
      else if \<not> portoverload_created then Inl DP_ERROR
      else Inr \<lparr> ns_snat = Map.empty, ns_dnat = Map.empty, ns_portmap = Map.empty, ns_portoverload = Map.empty,
        ns_neighnat = [], ns_used_port_cnt = (\<lambda>_. 0), ns_sync = [] \<rparr>)"

section \<open>Translated interfaces\<close>

definition dp_get_iface_snat_data :: "nat_lib \<Rightarrow> uint32 \<Rightarrow> uint32 \<Rightarrow> nat_state \<Rightarrow> snat_data option" where
  "dp_get_iface_snat_data lib iface_ip vni st =
     (case rte_hash_lookup_data (snat_ops lib) (ns_snat st) \<lparr> nk_ip = iface_ip, nk_vni = vni \<rparr> of
       Inl _ \<Rightarrow> None | Inr data \<Rightarrow> Some data)"

definition snat_data_zero :: snat_data where
  "snat_data_zero = \<lparr> sd_vip_ip = 0, sd_nat_ip = 0, sd_min_port = 0, sd_max_port = 0,
     sd_ul_vip_ip6 = dp_empty_ipv6, sd_ul_nat_ip6 = dp_empty_ipv6 \<rparr>"

definition dp_create_snat_data :: "nat_lib \<Rightarrow> bool \<Rightarrow> uint32 \<Rightarrow> uint32 \<Rightarrow> nat_state \<Rightarrow> (snat_data \<times> nat_state) option" where
  "dp_create_snat_data lib mem iface_ip vni st =
     (if \<not> mem then None
      else case rte_hash_add_key_data (snat_ops lib) (ns_snat st) \<lparr> nk_ip = iface_ip, nk_vni = vni \<rparr> snat_data_zero of
        Inl _ \<Rightarrow> None
      | Inr t \<Rightarrow> Some (snat_data_zero, st\<lparr> ns_snat := t \<rparr>))"

definition dp_delete_snat_data :: "nat_lib \<Rightarrow> uint32 \<Rightarrow> uint32 \<Rightarrow> nat_state \<Rightarrow> nat_state" where
  "dp_delete_snat_data lib iface_ip vni st =
     (case rte_hash_del_key (snat_ops lib) (ns_snat st) \<lparr> nk_ip = iface_ip, nk_vni = vni \<rparr> of
       Inl _ \<Rightarrow> st | Inr t \<Rightarrow> st\<lparr> ns_snat := t \<rparr>)"

text \<open>A write through the pointer the table holds.\<close>

definition put_snat :: "uint32 \<Rightarrow> uint32 \<Rightarrow> snat_data \<Rightarrow> nat_state \<Rightarrow> nat_state" where
  "put_snat iface_ip vni data st = st\<lparr> ns_snat := (ns_snat st)(\<lparr> nk_ip = iface_ip, nk_vni = vni \<rparr> \<mapsto> data) \<rparr>"

definition dp_set_iface_vip_ip ::
  "nat_lib \<Rightarrow> bool \<Rightarrow> uint32 \<Rightarrow> uint32 \<Rightarrow> uint32 \<Rightarrow> dp_ipv6 \<Rightarrow> nat_state \<Rightarrow> unit dp_result \<times> nat_state" where
  "dp_set_iface_vip_ip lib mem iface_ip vip_ip vni ul_ipv6 st =
     (case dp_get_iface_snat_data lib iface_ip vni st of
       None \<Rightarrow>
         (case dp_create_snat_data lib mem iface_ip vni st of
           None \<Rightarrow> (GRPC_FAIL DP_GRPC_ERR_SNAT_CREATE, st)
         | Some (data, st) \<Rightarrow>
           (DP_OK, put_snat iface_ip vni (data\<lparr> sd_vip_ip := vip_ip, sd_ul_vip_ip6 := ul_ipv6 \<rparr>) st))
     | Some data \<Rightarrow>
         if sd_vip_ip data \<noteq> 0 then (GRPC_FAIL DP_GRPC_ERR_SNAT_EXISTS, st)
         else (DP_OK, put_snat iface_ip vni (data\<lparr> sd_vip_ip := vip_ip, sd_ul_vip_ip6 := ul_ipv6 \<rparr>) st))"

definition dp_set_iface_nat_ip ::
  "nat_lib \<Rightarrow> bool \<Rightarrow> uint32 \<Rightarrow> uint32 \<Rightarrow> uint32 \<Rightarrow> uint16 \<Rightarrow> uint16 \<Rightarrow> dp_ipv6 \<Rightarrow> nat_state \<Rightarrow> unit dp_result \<times> nat_state" where
  "dp_set_iface_nat_ip lib mem iface_ip nat_ip vni min_port max_port ul_ipv6 st =
     (let set = (\<lambda>data. data\<lparr> sd_ul_nat_ip6 := ul_ipv6, sd_nat_ip := nat_ip, sd_min_port := min_port, sd_max_port := max_port \<rparr>) in
      case dp_get_iface_snat_data lib iface_ip vni st of
       None \<Rightarrow>
         (case dp_create_snat_data lib mem iface_ip vni st of
           None \<Rightarrow> (GRPC_FAIL DP_GRPC_ERR_SNAT_CREATE, st)
         | Some (data, st) \<Rightarrow> (DP_OK, put_snat iface_ip vni (set data) st))
     | Some data \<Rightarrow>
         if sd_nat_ip data \<noteq> 0 then (GRPC_FAIL DP_GRPC_ERR_SNAT_EXISTS, st)
         else (DP_OK, put_snat iface_ip vni (set data) st))"

definition dp_del_iface_vip_ip :: "nat_lib \<Rightarrow> uint32 \<Rightarrow> uint32 \<Rightarrow> nat_state \<Rightarrow> unit dp_result \<times> nat_state" where
  "dp_del_iface_vip_ip lib iface_ip vni st =
     (case dp_get_iface_snat_data lib iface_ip vni st of
       None \<Rightarrow> (GRPC_FAIL DP_GRPC_ERR_SNAT_NO_DATA, st)
     | Some data \<Rightarrow>
       if sd_nat_ip data \<noteq> 0 then (DP_OK, put_snat iface_ip vni (data\<lparr> sd_vip_ip := 0 \<rparr>) st)
       else (DP_OK, dp_delete_snat_data lib iface_ip vni st))"

definition dp_del_iface_nat_ip :: "nat_lib \<Rightarrow> uint32 \<Rightarrow> uint32 \<Rightarrow> nat_state \<Rightarrow> unit dp_result \<times> nat_state" where
  "dp_del_iface_nat_ip lib iface_ip vni st =
     (case dp_get_iface_snat_data lib iface_ip vni st of
       None \<Rightarrow> (GRPC_FAIL DP_GRPC_ERR_SNAT_NO_DATA, st)
     | Some data \<Rightarrow>
       if sd_vip_ip data \<noteq> 0
       then (DP_OK, put_snat iface_ip vni (data\<lparr> sd_nat_ip := 0, sd_min_port := 0, sd_max_port := 0 \<rparr>) st)
       else (DP_OK, dp_delete_snat_data lib iface_ip vni st))"

section \<open>Translated destinations\<close>

definition dp_get_dnat_data :: "nat_lib \<Rightarrow> uint32 \<Rightarrow> uint32 \<Rightarrow> nat_state \<Rightarrow> dnat_data option" where
  "dp_get_dnat_data lib d_ip vni st =
     (case rte_hash_lookup_data (dnat_ops lib) (ns_dnat st) \<lparr> nk_ip = d_ip, nk_vni = vni \<rparr> of
       Inl _ \<Rightarrow> None | Inr data \<Rightarrow> Some data)"

text \<open>The address is written through the pointer after the insertion.\<close>

definition dp_set_dnat_ip :: "nat_lib \<Rightarrow> bool \<Rightarrow> uint32 \<Rightarrow> uint32 \<Rightarrow> uint32 \<Rightarrow> nat_state \<Rightarrow> unit dp_result \<times> nat_state" where
  "dp_set_dnat_ip lib mem d_ip dnat_ip vni st =
     (let nkey = \<lparr> nk_ip = d_ip, nk_vni = vni \<rparr> in
      case dp_get_dnat_data lib d_ip vni st of
        Some _ \<Rightarrow> (GRPC_FAIL DP_GRPC_ERR_DNAT_EXISTS, st)
      | None \<Rightarrow>
        if \<not> mem then (GRPC_FAIL DP_GRPC_ERR_DNAT_CREATE, st)
        else case rte_hash_add_key_data (dnat_ops lib) (ns_dnat st) nkey \<lparr> dd_dnat_ip = 0 \<rparr> of
          Inl _ \<Rightarrow> (GRPC_FAIL DP_GRPC_ERR_DNAT_CREATE, st)
        | Inr t \<Rightarrow> (DP_OK, st\<lparr> ns_dnat := t(nkey \<mapsto> \<lparr> dd_dnat_ip = dnat_ip \<rparr>) \<rparr>))"

definition dp_del_dnat_ip :: "nat_lib \<Rightarrow> uint32 \<Rightarrow> uint32 \<Rightarrow> nat_state \<Rightarrow> unit dp_result \<times> nat_state" where
  "dp_del_dnat_ip lib d_ip vni st =
     (let nkey = \<lparr> nk_ip = d_ip, nk_vni = vni \<rparr> in
      case rte_hash_lookup_data (dnat_ops lib) (ns_dnat st) nkey of
        Inl _ \<Rightarrow> (GRPC_FAIL DP_GRPC_ERR_DNAT_NO_DATA, st)
      | Inr _ \<Rightarrow>
        (case rte_hash_del_key (dnat_ops lib) (ns_dnat st) nkey of
          Inl _ \<Rightarrow> (DP_OK, st)
        | Inr t \<Rightarrow> (DP_OK, st\<lparr> ns_dnat := t \<rparr>)))"

section \<open>Neighbouring translators\<close>

definition dp_is_same_network_nat_entry :: "nat_entry \<Rightarrow> uint32 \<Rightarrow> uint32 \<Rightarrow> uint16 \<Rightarrow> uint16 \<Rightarrow> bool" where
  "dp_is_same_network_nat_entry e nat_ip vni min_port max_port \<longleftrightarrow>
     ne_vni e = vni \<and> ne_nat_ip e = nat_ip \<and> ne_min_port e = min_port \<and> ne_max_port e = max_port"

definition dp_is_network_nat_entry_port_overlap :: "nat_entry \<Rightarrow> uint32 \<Rightarrow> uint16 \<Rightarrow> uint16 \<Rightarrow> bool" where
  "dp_is_network_nat_entry_port_overlap e nat_ip min_port max_port \<longleftrightarrow>
     ne_nat_ip e = nat_ip \<and> max_port > ne_min_port e \<and> min_port < ne_max_port e"

definition dp_is_network_nat_port :: "nat_entry \<Rightarrow> uint32 \<Rightarrow> uint32 \<Rightarrow> uint16 \<Rightarrow> bool" where
  "dp_is_network_nat_port e nat_ip vni port \<longleftrightarrow>
     ne_vni e = vni \<and> ne_nat_ip e = nat_ip \<and> ne_min_port e \<le> port \<and> ne_max_port e > port"

definition dp_del_vip_from_dnat :: "nat_lib \<Rightarrow> uint32 \<Rightarrow> uint32 \<Rightarrow> nat_state \<Rightarrow> nat_state" where
  "dp_del_vip_from_dnat lib d_ip vni st =
     (if \<exists>e \<in> set (ns_neighnat st). ne_vni e = vni \<and> ne_nat_ip e = d_ip then st
      else snd (dp_del_dnat_ip lib d_ip vni st))"

definition dp_add_neighnat_entry ::
  "bool \<Rightarrow> uint32 \<Rightarrow> uint32 \<Rightarrow> uint16 \<Rightarrow> uint16 \<Rightarrow> dp_ipv6 \<Rightarrow> nat_state \<Rightarrow> unit dp_result \<times> nat_state" where
  "dp_add_neighnat_entry mem nat_ip vni min_port max_port ul_ipv6 st =
     (if \<exists>e \<in> set (ns_neighnat st). dp_is_network_nat_entry_port_overlap e nat_ip min_port max_port
      then (GRPC_FAIL DP_GRPC_ERR_ALREADY_EXISTS, st)
      else if \<not> mem then (GRPC_FAIL DP_GRPC_ERR_OUT_OF_MEMORY, st)
      else (DP_OK, st\<lparr> ns_neighnat := ns_neighnat st @
        [\<lparr> ne_nat_ip = nat_ip, ne_min_port = min_port, ne_max_port = max_port, ne_vni = vni, ne_dst_ipv6 = ul_ipv6 \<rparr>] \<rparr>))"

text \<open>The first entry with the property is taken out of the list.\<close>

primrec remove_first :: "('a \<Rightarrow> bool) \<Rightarrow> 'a list \<Rightarrow> 'a list option" where
  "remove_first P [] = None"
| "remove_first P (x # xs) = (if P x then Some xs else map_option ((#) x) (remove_first P xs))"

definition dp_del_neighnat_entry ::
  "uint32 \<Rightarrow> uint32 \<Rightarrow> uint16 \<Rightarrow> uint16 \<Rightarrow> nat_state \<Rightarrow> unit dp_result \<times> nat_state" where
  "dp_del_neighnat_entry nat_ip vni min_port max_port st =
     (case remove_first (\<lambda>e. dp_is_same_network_nat_entry e nat_ip vni min_port max_port) (ns_neighnat st) of
       None \<Rightarrow> (GRPC_FAIL DP_GRPC_ERR_NOT_FOUND, st)
     | Some es \<Rightarrow> (DP_OK, st\<lparr> ns_neighnat := es \<rparr>))"

definition dp_lookup_neighnat_underlay_ip :: "dp_flow \<Rightarrow> nat_state \<Rightarrow> dp_ipv6 option" where
  "dp_lookup_neighnat_underlay_ip df st =
     (let dst_port = (if df_l4_type df = IPPROTO_ICMP \<or> df_l4_type df = IPPROTO_ICMPV6
            then df_icmp_identifier df else df_l4_dst_port df) in
      map_option ne_dst_ipv6
        (find (\<lambda>e. dp_is_network_nat_port e (df_dst_addr df) (df_tun_dst_vni df) dst_port) (ns_neighnat st)))"

section \<open>Port allocation\<close>

text \<open>The ports are tried from a position given by the hash of the source; \<open>p\<close> is
  the loop counter.  The sum of hash and counter is computed in 32 bits.\<close>

definition candidate_port :: "uint32 \<Rightarrow> uint16 \<Rightarrow> uint16 \<Rightarrow> nat \<Rightarrow> uint16" where
  "candidate_port hash min_port port_range p =
     min_port + ucast ((hash + of_nat p) mod ucast port_range)"

fun try_ports ::
  "nat_lib \<Rightarrow> nat_state \<Rightarrow> uint32 \<Rightarrow> uint16 \<Rightarrow> uint16 \<Rightarrow> netnat_portoverload_tbl_key \<Rightarrow> nat list \<Rightarrow>
   netnat_portoverload_tbl_key dp_result" where
  "try_ports lib st hash min_port port_range key [] = Inl (ERRNO ENOENT)"
| "try_ports lib st hash min_port port_range key (p # ps) =
     (let key = key\<lparr> pok_nat_port := candidate_port hash min_port port_range p \<rparr> in
      case rte_hash_lookup_data (portoverload_ops lib) (ns_portoverload st) key of
        Inl ret \<Rightarrow> if ret = - ENOENT then Inr key else Inl (ERRNO (- ret))
      | Inr _ \<Rightarrow> try_ports lib st hash min_port port_range key ps)"

definition dp_find_new_port ::
  "nat_lib \<Rightarrow> snat_data \<Rightarrow> netnat_portmap_key \<Rightarrow> netnat_portoverload_tbl_key \<Rightarrow> nat_state \<Rightarrow>
   netnat_portoverload_tbl_key dp_result" where
  "dp_find_new_port lib snat_data portmap_key portoverload_tbl_key st =
     (let min_port = sd_min_port snat_data; port_range = sd_max_port snat_data - min_port in
      try_ports lib st (portmap_hash lib portmap_key) min_port port_range portoverload_tbl_key [0..<unat port_range])"

definition dp_create_new_portmap_entry ::
  "nat_lib \<Rightarrow> bool \<Rightarrow> netnat_portmap_key \<Rightarrow> netnat_portoverload_tbl_key \<Rightarrow> netnat_portoverload_sync_metadata option \<Rightarrow>
   nat_state \<Rightarrow> unit dp_result \<times> nat_state" where
  "dp_create_new_portmap_entry lib mem portmap_key portoverload_key portoverload_data st =
     (case rte_hash_add_key_data (portoverload_ops lib) (ns_portoverload st) portoverload_key portoverload_data of
       Inl ret \<Rightarrow> (Inl (ERRNO (- ret)), st)
     | Inr po \<Rightarrow>
       let undo = (case rte_hash_del_key (portoverload_ops lib) po portoverload_key of Inl _ \<Rightarrow> po | Inr po \<Rightarrow> po);
           portmap_data = \<lparr> pmd_nat_ip = pok_nat_ip portoverload_key, pmd_nat_port = pok_nat_port portoverload_key,
             pmd_flow_cnt = 1 \<rparr> in
       if \<not> mem then (Inl DP_ERROR, st\<lparr> ns_portoverload := undo \<rparr>)
       else case rte_hash_add_key_data (portmap_ops lib) (ns_portmap st) portmap_key portmap_data of
         Inl ret \<Rightarrow> (Inl (ERRNO (- ret)), st\<lparr> ns_portoverload := undo \<rparr>)
       | Inr pm \<Rightarrow> (DP_OK, st\<lparr> ns_portoverload := po, ns_portmap := pm \<rparr>))"

text \<open>The key comes back with the port of the source filled in as soon as the
  source is known.\<close>

definition dp_use_existing_portmap_entry ::
  "nat_lib \<Rightarrow> netnat_portmap_key \<Rightarrow> netnat_portoverload_tbl_key \<Rightarrow> netnat_portoverload_sync_metadata option \<Rightarrow>
   nat_state \<Rightarrow> unit dp_result \<times> netnat_portoverload_tbl_key \<times> nat_state" where
  "dp_use_existing_portmap_entry lib portmap_key portoverload_key portoverload_data st =
     (case rte_hash_lookup_data (portmap_ops lib) (ns_portmap st) portmap_key of
       Inl ret \<Rightarrow> (Inl (ERRNO (- ret)), portoverload_key, st)
     | Inr portmap_data \<Rightarrow>
       let key = portoverload_key\<lparr> pok_nat_port := pmd_nat_port portmap_data \<rparr> in
       (case rte_hash_lookup_data (portoverload_ops lib) (ns_portoverload st) key of
         Inr _ \<Rightarrow> (Inl (ERRNO EEXIST), key, st)
       | Inl ret \<Rightarrow>
         if ret \<noteq> - ENOENT then (Inl (ERRNO (- ret)), key, st)
         else case rte_hash_add_key_data (portoverload_ops lib) (ns_portoverload st) key portoverload_data of
           Inl ret \<Rightarrow> (Inl (ERRNO (- ret)), key, st)
         | Inr po \<Rightarrow> (DP_OK, key, st\<lparr> ns_portoverload := po,
             ns_portmap := (ns_portmap st)(portmap_key \<mapsto> portmap_data\<lparr> pmd_flow_cnt := pmd_flow_cnt portmap_data + 1 \<rparr>) \<rparr>)))"

text \<open>The two keys a packet of an interface is accounted under; the port is not
  known yet.\<close>

definition snat_keys :: "uint32 \<Rightarrow> dp_flow \<Rightarrow> dp_port \<Rightarrow> (netnat_portmap_key \<times> netnat_portoverload_tbl_key) option" where
  "snat_keys nat_ip df port =
     (let icmp = (df_l4_type df = IPPROTO_ICMP \<or> df_l4_type df = IPPROTO_ICMPV6);
          pm = \<lparr> pmk_vni = if_vni (iface port), pmk_src_ip = IPADDR4 (df_src_addr df),
                 pmk_iface_src_port = (if icmp then df_icmp_identifier df else df_l4_src_port df) \<rparr>;
          po = \<lparr> pok_nat_ip = nat_ip, pok_nat_port = 0, pok_dst_ip = df_dst_addr df,
                 pok_dst_port = (if icmp then df_icmp_identifier df else df_l4_dst_port df),
                 pok_l4_type = df_l4_type df \<rparr> in
      if df_l3_type df = RTE_ETHER_TYPE_IPV4 then Some (pm, po)
      else if df_l3_type df = RTE_ETHER_TYPE_IPV6
      then Some (pm\<lparr> pmk_src_ip := dp_set_ipaddr6 (df_src df) \<rparr>, po\<lparr> pok_dst_ip := dp_get_ipv6_nat64 (df_dst df) \<rparr>)
      else None)"

definition inc_used :: "uint16 \<Rightarrow> nat_state \<Rightarrow> nat_state" where
  "inc_used pid st = st\<lparr> ns_used_port_cnt := (ns_used_port_cnt st)(pid := ns_used_port_cnt st pid + 1) \<rparr>"

definition dec_used :: "uint16 \<Rightarrow> nat_state \<Rightarrow> nat_state" where
  "dec_used pid st = st\<lparr> ns_used_port_cnt := (ns_used_port_cnt st)(pid := ns_used_port_cnt st pid - 1) \<rparr>"

definition dp_allocate_network_snat_port ::
  "nat_lib \<Rightarrow> dp_conf \<Rightarrow> sync_link \<Rightarrow> bool \<Rightarrow> snat_data \<Rightarrow> dp_flow \<Rightarrow> dp_port \<Rightarrow> uint16 \<Rightarrow> nat_state \<Rightarrow>
   uint16 dp_result \<times> nat_state" where
  "dp_allocate_network_snat_port lib conf link mem snat_data df port icmp_err_ip_cksum st =
     (case snat_keys (sd_nat_ip snat_data) df port of
       None \<Rightarrow> (Inl DP_ERROR, st)
     | Some (portmap_key, key) \<Rightarrow>
       let fin = (\<lambda>key st.
             let st = (if conf_sync_enabled conf
                   then st\<lparr> ns_sync := snd (dp_sync_send_nat_create link portmap_key key (port_id port)
                     (ucast (df_icmp_type df)) icmp_err_ip_cksum (ns_sync st)) \<rparr> else st) in
             (Inr (pok_nat_port key), inc_used (port_id port) st)) in
       (case dp_use_existing_portmap_entry lib portmap_key key None st of
         (Inr _, key, st) \<Rightarrow> fin key st
       | (Inl ret, key, st) \<Rightarrow>
         if ret \<noteq> ERRNO ENOENT then (Inl ret, st)
         else (case dp_find_new_port lib snat_data portmap_key key st of
           Inl ret \<Rightarrow> (Inl ret, st)
         | Inr key \<Rightarrow>
           (case dp_create_new_portmap_entry lib mem portmap_key key None st of
             (Inl ret, st) \<Rightarrow> (Inl ret, st)
           | (Inr _, st) \<Rightarrow> fin key st))))"

text \<open>\<open>mem\<close> is the allocation of the metadata, \<open>mem'\<close> that of the port data.\<close>

definition dp_allocate_sync_snat_port ::
  "nat_lib \<Rightarrow> bool \<Rightarrow> bool \<Rightarrow> netnat_portmap_key \<Rightarrow> netnat_portoverload_tbl_key \<Rightarrow> uint16 \<Rightarrow> uint16 \<Rightarrow> uint16 \<Rightarrow>
   nat_state \<Rightarrow> unit dp_result \<times> nat_state" where
  "dp_allocate_sync_snat_port lib mem mem' portmap_key portoverload_key created_port_id icmp_type_src icmp_err_ip_cksum st =
     (if \<not> mem then (Inl DP_ERROR, st)
      else
        let sync_metadata = \<lparr> md_portmap_key = portmap_key, md_created_port_id = created_port_id,
              md_icmp_type_src = icmp_type_src, md_icmp_err_ip_cksum = icmp_err_ip_cksum \<rparr> in
        (case dp_use_existing_portmap_entry lib portmap_key portoverload_key (Some sync_metadata) st of
          (Inr _, _, st) \<Rightarrow> (DP_OK, st)
        | (Inl ret, key, st) \<Rightarrow>
          if ret = ERRNO EEXIST then (DP_OK, st)
          else if ret \<noteq> ERRNO ENOENT then (Inl ret, st)
          else (case dp_create_new_portmap_entry lib mem' portmap_key key (Some sync_metadata) st of
            (Inl ret, st) \<Rightarrow> (Inl ret, st)
          | (Inr _, st) \<Rightarrow> (DP_OK, st))))"

text \<open>The second half: the count of the source's flows, and the port with the last.\<close>

definition release_portmap :: "nat_lib \<Rightarrow> netnat_portmap_key \<Rightarrow> nat_state \<Rightarrow> unit dp_result \<times> nat_state" where
  "release_portmap lib portmap_key st =
     (case rte_hash_lookup_data (portmap_ops lib) (ns_portmap st) portmap_key of
       Inl ret \<Rightarrow> if ret = - ENOENT then (DP_OK, st) else (Inl (ERRNO (- ret)), st)
     | Inr portmap_data \<Rightarrow>
       let cnt = pmd_flow_cnt portmap_data - 1 in
       if cnt = 0 then
         (case rte_hash_del_key (portmap_ops lib) (ns_portmap st) portmap_key of
           Inl _ \<Rightarrow> (Inl DP_ERROR, st)
         | Inr pm \<Rightarrow> (DP_OK, st\<lparr> ns_portmap := pm \<rparr>))
       else (DP_OK, st\<lparr> ns_portmap := (ns_portmap st)(portmap_key \<mapsto> portmap_data\<lparr> pmd_flow_cnt := cnt \<rparr>) \<rparr>))"

definition dp_delete_snat_entries ::
  "nat_lib \<Rightarrow> netnat_portmap_key \<Rightarrow> netnat_portoverload_tbl_key \<Rightarrow> nat_state \<Rightarrow> unit dp_result \<times> nat_state" where
  "dp_delete_snat_entries lib portmap_key portoverload_key st =
     (case rte_hash_lookup_data (portoverload_ops lib) (ns_portoverload st) portoverload_key of
       Inl ret \<Rightarrow> if ret \<noteq> - ENOENT then (Inl (ERRNO (- ret)), st) else release_portmap lib portmap_key st
     | Inr _ \<Rightarrow>
       (case rte_hash_del_key (portoverload_ops lib) (ns_portoverload st) portoverload_key of
         Inl ret \<Rightarrow> (Inl (ERRNO (- ret)), st)
       | Inr po \<Rightarrow> release_portmap lib portmap_key (st\<lparr> ns_portoverload := po \<rparr>)))"

definition ipaddr4_of :: "dp_ip_address \<Rightarrow> ipv4" where
  "ipaddr4_of a = (case a of IPADDR4 v \<Rightarrow> v | IPADDR6 v \<Rightarrow> union_ipv4 v)"

definition dp_flow_to_snat_keys ::
  "flow_value \<Rightarrow> (netnat_portmap_key \<times> netnat_portoverload_tbl_key) option" where
  "dp_flow_to_snat_keys flow_val =
     (let org = fv_key_org flow_val; reply = fv_key_reply flow_val in
      case fk_l3_dst reply of
        IPADDR6 _ \<Rightarrow> None
      | IPADDR4 nat_ip \<Rightarrow> Some
        (\<lparr> pmk_vni = nf_vni (fv_nf_info flow_val), pmk_src_ip = fk_l3_src org,
           pmk_iface_src_port = (if fk_proto org = IPPROTO_ICMP \<or> fk_proto org = IPPROTO_ICMPV6
             then fk_port_dst org else fk_src org) \<rparr>,
         \<lparr> pok_nat_ip = nat_ip, pok_nat_port = fk_port_dst reply,
           pok_dst_ip = (case dp_ipv6_from_ipaddr (fk_l3_dst org) of
             Inl _ \<Rightarrow> ipaddr4_of (fk_l3_dst org) | Inr dst_nat64 \<Rightarrow> dp_get_ipv6_nat64 dst_nat64),
           pok_dst_port = fk_port_dst org, pok_l4_type = fk_proto org \<rparr>))"

definition dp_remove_network_snat_port ::
  "nat_lib \<Rightarrow> dp_conf \<Rightarrow> sync_link \<Rightarrow> dp_port option list \<Rightarrow> flow_value \<Rightarrow> nat_state \<Rightarrow> unit dp_result \<times> nat_state" where
  "dp_remove_network_snat_port lib conf link ports cntrack st =
     (case dp_flow_to_snat_keys cntrack of
       None \<Rightarrow> (Inl DP_ERROR, st)
     | Some (portmap_key, portoverload_key) \<Rightarrow>
       (case dp_delete_snat_entries lib portmap_key portoverload_key st of
         (Inl _, st) \<Rightarrow> (Inl DP_ERROR, st)
       | (Inr _, st) \<Rightarrow>
         let st = (if conf_sync_enabled conf
               then st\<lparr> ns_sync := snd (dp_sync_send_nat_delete link portmap_key portoverload_key (ns_sync st)) \<rparr> else st) in
         (case dp_get_port_by_id ports (fv_created_port_id cntrack) of
           None \<Rightarrow> (Inl DP_ERROR, st)
         | Some created_port \<Rightarrow> (DP_OK, dec_used (port_id created_port) st))))"

definition dp_remove_sync_snat_port ::
  "nat_lib \<Rightarrow> netnat_portmap_key \<Rightarrow> netnat_portoverload_tbl_key \<Rightarrow> nat_state \<Rightarrow> unit dp_result \<times> nat_state" where
  "dp_remove_sync_snat_port lib portmap_key portoverload_key st =
     (case dp_delete_snat_entries lib portmap_key portoverload_key st of
       (Inl ret, st) \<Rightarrow> (Inl ret, st)
     | (Inr _, st) \<Rightarrow> (DP_OK, st))"

definition dp_sync_snat_flow :: "sync_link \<Rightarrow> flow_value \<Rightarrow> nat_state \<Rightarrow> unit dp_result \<times> nat_state" where
  "dp_sync_snat_flow link flow_val st =
     (case dp_flow_to_snat_keys flow_val of
       None \<Rightarrow> (Inl DP_ERROR, st)
     | Some (portmap_key, portoverload_key) \<Rightarrow>
       (case dp_sync_send_nat_create link portmap_key portoverload_key (fv_created_port_id flow_val)
           (fk_src (fv_key_org flow_val)) (nf_icmp_err_ip_cksum (fv_nf_info flow_val)) (ns_sync st) of
         (ret, out) \<Rightarrow> (ret, st\<lparr> ns_sync := out \<rparr>)))"

section \<open>Listing and bulk removal\<close>

record dpgrpc_nat =
  gn_natted_ip :: "dp_ip_address option"
  gn_min_port :: uint16
  gn_max_port :: uint16
  gn_vni :: uint32
  gn_ul_addr6 :: "dp_ipv6 option"
  gn_addr :: dp_ip_address

text \<open>\<open>es\<close> is what the iteration over the table delivers.\<close>

fun list_local ::
  "(nat \<Rightarrow> bool) \<Rightarrow> uint32 \<Rightarrow> nat \<Rightarrow> (nat_key \<times> snat_data) list \<Rightarrow> unit dp_result \<times> dpgrpc_nat list" where
  "list_local room nat_ip n [] = (DP_OK, [])"
| "list_local room nat_ip n ((nkey, data) # es) =
     (if sd_nat_ip data \<noteq> 0 \<and> (nat_ip = 0 \<or> sd_nat_ip data = nat_ip) then
        if \<not> room n then (GRPC_FAIL DP_GRPC_ERR_OUT_OF_MEMORY, [])
        else apsnd ((#) \<lparr> gn_natted_ip = Some (dp_set_ipaddr4 (nk_ip nkey)), gn_min_port = sd_min_port data,
               gn_max_port = sd_max_port data, gn_vni = nk_vni nkey, gn_ul_addr6 = None,
               gn_addr = dp_set_ipaddr4 (sd_nat_ip data) \<rparr>) (list_local room nat_ip (n + 1) es)
      else list_local room nat_ip n es)"

definition dp_list_nat_local_entries ::
  "(nat \<Rightarrow> bool) \<Rightarrow> (nat_key \<times> snat_data) list \<Rightarrow> uint32 \<Rightarrow> nat_state \<Rightarrow> unit dp_result \<times> dpgrpc_nat list" where
  "dp_list_nat_local_entries room es nat_ip st =
     (if dom (ns_snat st) = {} then (DP_OK, []) else list_local room nat_ip 0 es)"

fun list_neigh :: "(nat \<Rightarrow> bool) \<Rightarrow> uint32 \<Rightarrow> nat \<Rightarrow> nat_entry list \<Rightarrow> unit dp_result \<times> dpgrpc_nat list" where
  "list_neigh room nat_ip n [] = (DP_OK, [])"
| "list_neigh room nat_ip n (e # es) =
     (if nat_ip = 0 \<or> ne_nat_ip e = nat_ip then
        if \<not> room n then (GRPC_FAIL DP_GRPC_ERR_OUT_OF_MEMORY, [])
        else apsnd ((#) \<lparr> gn_natted_ip = None, gn_min_port = ne_min_port e, gn_max_port = ne_max_port e,
               gn_vni = ne_vni e, gn_ul_addr6 = Some (ne_dst_ipv6 e), gn_addr = dp_set_ipaddr4 (ne_nat_ip e) \<rparr>)
             (list_neigh room nat_ip (n + 1) es)
      else list_neigh room nat_ip n es)"

definition dp_list_nat_neigh_entries :: "(nat \<Rightarrow> bool) \<Rightarrow> uint32 \<Rightarrow> nat_state \<Rightarrow> unit dp_result \<times> dpgrpc_nat list" where
  "dp_list_nat_neigh_entries room nat_ip st = list_neigh room nat_ip 0 (ns_neighnat st)"

fun dp_del_dnat_by_vni :: "nat_lib \<Rightarrow> uint32 \<Rightarrow> nat_key list \<Rightarrow> nat_state \<Rightarrow> nat_state" where
  "dp_del_dnat_by_vni lib vni [] st = st"
| "dp_del_dnat_by_vni lib vni (key # ks) st =
     (if nk_vni key = vni then
        case rte_hash_del_key (dnat_ops lib) (ns_dnat st) key of
          Inl _ \<Rightarrow> dp_del_dnat_by_vni lib vni ks st
        | Inr t \<Rightarrow> dp_del_dnat_by_vni lib vni ks (st\<lparr> ns_dnat := t \<rparr>)
      else dp_del_dnat_by_vni lib vni ks st)"

definition dp_del_all_neigh_nat_entries_in_vni :: "nat_lib \<Rightarrow> nat_key list \<Rightarrow> uint32 \<Rightarrow> nat_state \<Rightarrow> nat_state" where
  "dp_del_all_neigh_nat_entries_in_vni lib ks vni st =
     dp_del_dnat_by_vni lib vni ks (st\<lparr> ns_neighnat :=
       filter (\<lambda>item. \<not> (ne_vni item = vni \<or> vni = DP_NETWORK_NAT_ALL_VNI)) (ns_neighnat st) \<rparr>)"

section \<open>Lemmas\<close>

locale nat_library =
  fixes lib :: nat_lib
  assumes snat_ht: "hash_table (snat_ops lib)"
    and dnat_ht: "hash_table (dnat_ops lib)"
    and portmap_ht: "hash_table (portmap_ops lib)"
    and portoverload_ht: "hash_table (portoverload_ops lib)"

sublocale nat_library \<subseteq> sn: hash_table "snat_ops lib"
  by (rule snat_ht)

sublocale nat_library \<subseteq> dn: hash_table "dnat_ops lib"
  by (rule dnat_ht)

sublocale nat_library \<subseteq> pm: hash_table "portmap_ops lib"
  by (rule portmap_ht)

sublocale nat_library \<subseteq> po: hash_table "portoverload_ops lib"
  by (rule portoverload_ht)

lemma set_port_twice [simp]: "(k\<lparr> pok_nat_port := a \<rparr>)\<lparr> pok_nat_port := b \<rparr> = k\<lparr> pok_nat_port := b \<rparr>"
  by (cases k) simp

context nat_library
begin

lemma get_iface_snat_eq:
  "dp_get_iface_snat_data lib ip vni st = ns_snat st \<lparr> nk_ip = ip, nk_vni = vni \<rparr>"
  by (simp add: dp_get_iface_snat_data_def sn.lookup_data split: option.splits)

lemma get_dnat_eq: "dp_get_dnat_data lib ip vni st = ns_dnat st \<lparr> nk_ip = ip, nk_vni = vni \<rparr>"
  by (simp add: dp_get_dnat_data_def dn.lookup_data split: option.splits)

lemma try_ports_eq:
  "try_ports lib st hash mn rng key ps =
    (case find (\<lambda>p. ns_portoverload st (key\<lparr> pok_nat_port := candidate_port hash mn rng p \<rparr>) = None) ps of
       None \<Rightarrow> Inl (ERRNO ENOENT)
     | Some p \<Rightarrow> Inr (key\<lparr> pok_nat_port := candidate_port hash mn rng p \<rparr>))"
proof (induction ps arbitrary: key)
  case (Cons p ps)
  show ?case
    by (cases "ns_portoverload st (key\<lparr> pok_nat_port := candidate_port hash mn rng p \<rparr>)")
      (simp_all add: Let_def po.lookup_data Cons split: option.splits)
qed simp

lemma find_new_port_eq:
  "dp_find_new_port lib sd pm key st =
    (let rng = sd_max_port sd - sd_min_port sd; port = candidate_port (portmap_hash lib pm) (sd_min_port sd) rng in
     case find (\<lambda>p. ns_portoverload st (key\<lparr> pok_nat_port := port p \<rparr>) = None) [0..<unat rng] of
       None \<Rightarrow> Inl (ERRNO ENOENT)
     | Some p \<Rightarrow> Inr (key\<lparr> pok_nat_port := port p \<rparr>))"
  by (simp add: dp_find_new_port_def try_ports_eq Let_def)

lemma create_cases:
  assumes "ns_portoverload st key = None"
  obtains (fails) e where "dp_create_new_portmap_entry lib mem pm key data st = (Inl e, st)"
  | (stored) "dp_create_new_portmap_entry lib mem pm key data st = (DP_OK, st\<lparr>
      ns_portoverload := (ns_portoverload st)(key \<mapsto> data),
      ns_portmap := (ns_portmap st)(pm \<mapsto> \<lparr> pmd_nat_ip = pok_nat_ip key, pmd_nat_port = pok_nat_port key, pmd_flow_cnt = 1 \<rparr>) \<rparr>)"
proof -
  have undo: "(ns_portoverload st)(key := None) = ns_portoverload st" using assms by auto
  let ?d = "\<lparr> pmd_nat_ip = pok_nat_ip key, pmd_nat_port = pok_nat_port key, pmd_flow_cnt = 1 \<rparr>"
  show thesis
  proof (cases rule: po.add_cases[of "ns_portoverload st" key data])
    case (fails e)
    thus thesis using that(1) by (simp add: dp_create_new_portmap_entry_def)
  next
    case stored
    show thesis
    proof (cases mem)
      case False
      thus thesis using stored that(1) undo
        by (simp add: dp_create_new_portmap_entry_def Let_def po.del_key)
    next
      case True
      show thesis
        by (cases rule: pm.add_cases[of "ns_portmap st" pm ?d])
          (use True stored that undo in \<open>simp_all add: dp_create_new_portmap_entry_def Let_def
            po.del_key\<close>)
    qed
  qed
qed

text \<open>A source that already has a port: the flow is accounted under that port, or
  nothing happens.\<close>

lemma use_existing_cases:
  fixes key :: netnat_portoverload_tbl_key
  assumes "ns_portmap st pm = Some d"
  defines "k \<equiv> key\<lparr> pok_nat_port := pmd_nat_port d \<rparr>"
  obtains (fails) e where "e \<noteq> ERRNO ENOENT"
      "dp_use_existing_portmap_entry lib pm key data st = (Inl e, k, st)"
  | (stored) "ns_portoverload st k = None" "dp_use_existing_portmap_entry lib pm key data st = (DP_OK, k, st\<lparr>
      ns_portoverload := (ns_portoverload st)(k \<mapsto> data),
      ns_portmap := (ns_portmap st)(pm \<mapsto> d\<lparr> pmd_flow_cnt := pmd_flow_cnt d + 1 \<rparr>) \<rparr>)"
proof (cases "ns_portoverload st k")
  case (Some v)
  thus thesis using that(1)[of "ERRNO EEXIST"] assms
    by (simp add: dp_use_existing_portmap_entry_def Let_def pm.lookup_data
        po.lookup_data)
next
  case None
  show thesis
  proof (cases rule: po.add_cases[of "ns_portoverload st" k data])
    case (fails e)
    thus thesis using that(1)[of "ERRNO (- e)"] None assms
      by (simp add: dp_use_existing_portmap_entry_def Let_def pm.lookup_data po.lookup_data)
  next
    case stored
    thus thesis using that(2) None assms
      by (simp add: dp_use_existing_portmap_entry_def Let_def pm.lookup_data po.lookup_data)
  qed
qed

lemma use_existing_unknown:
  "ns_portmap st pm = None \<Longrightarrow> dp_use_existing_portmap_entry lib pm key data st = (Inl (ERRNO ENOENT), key, st)"
  by (simp add: dp_use_existing_portmap_entry_def pm.lookup_data)

end

lemma unat_ucast_up [simp]: "unat (ucast (w :: uint16) :: uint32) = unat w"
proof -
  have "unat w < 2 ^ LENGTH(16)" by (rule unsigned_less)
  thus ?thesis by (simp add: unsigned_ucast_eq take_bit_eq_mod)
qed

lemma candidate_unat:
  assumes "mn < mx"
  shows "unat (candidate_port hash mn (mx - mn) p) = unat mn + unat (hash + of_nat p) mod (unat mx - unat mn)"
proof -
  have rng: "unat (mx - mn) = unat mx - unat mn" using assms by (intro unat_sub) simp
  have pos: "unat mx - unat mn > 0" using assms by (simp add: word_less_nat_alt)
  have mx: "unat mx < 65536" using unsigned_less[of mx, where 'a = nat] by simp
  let ?x = "(hash + of_nat p) mod ucast (mx - mn)"
  have x: "unat ?x = unat (hash + of_nat p) mod (unat mx - unat mn)" by (simp add: unat_mod rng)
  hence lt: "unat ?x < unat mx - unat mn" using pos by simp
  have u: "unat (ucast ?x :: uint16) = unat ?x" using lt mx by (simp add: unsigned_ucast_eq take_bit_eq_mod)
  have "unat (mn + ucast ?x) = unat mn + unat (ucast ?x :: uint16)"
    by (rule unat_add_lem[THEN iffD1]) (use u lt mx in simp)
  thus ?thesis unfolding candidate_port_def u x .
qed

text \<open>Both ways of an allocation at once.\<close>

context nat_library
begin

lemma allocate_cases:
  assumes keys: "snat_keys (sd_nat_ip sd) df port = Some (pm, po)"
    and res: "dp_allocate_network_snat_port lib conf link mem sd df port ck st = (r, st')"
  obtains (fails) e where "r = Inl e" "st' = st"
  | (known) q d where "r = Inr q" "ns_portmap st pm = Some d" "q = pmd_nat_port d"
      "ns_portoverload st (po\<lparr> pok_nat_port := q \<rparr>) = None"
      "ns_portoverload st' = (ns_portoverload st)(po\<lparr> pok_nat_port := q \<rparr> \<mapsto> None)"
      "ns_portmap st' = (ns_portmap st)(pm \<mapsto> d\<lparr> pmd_flow_cnt := pmd_flow_cnt d + 1 \<rparr>)"
      "ns_used_port_cnt st' = (ns_used_port_cnt st)(port_id port := ns_used_port_cnt st (port_id port) + 1)"
      "st' = st\<lparr> ns_portoverload := ns_portoverload st', ns_portmap := ns_portmap st',
        ns_used_port_cnt := ns_used_port_cnt st', ns_sync := ns_sync st' \<rparr>"
  | (fresh) q where "r = Inr q" "ns_portmap st pm = None"
      "dp_find_new_port lib sd pm po st = Inr (po\<lparr> pok_nat_port := q \<rparr>)"
      "ns_portoverload st (po\<lparr> pok_nat_port := q \<rparr>) = None"
      "ns_portoverload st' = (ns_portoverload st)(po\<lparr> pok_nat_port := q \<rparr> \<mapsto> None)"
      "ns_portmap st' = (ns_portmap st)(pm \<mapsto> \<lparr> pmd_nat_ip = pok_nat_ip po, pmd_nat_port = q, pmd_flow_cnt = 1 \<rparr>)"
      "ns_used_port_cnt st' = (ns_used_port_cnt st)(port_id port := ns_used_port_cnt st (port_id port) + 1)"
      "st' = st\<lparr> ns_portoverload := ns_portoverload st', ns_portmap := ns_portmap st',
        ns_used_port_cnt := ns_used_port_cnt st', ns_sync := ns_sync st' \<rparr>"
proof (cases "ns_portmap st pm")
  case (Some d)
  show thesis
  proof (cases rule: use_existing_cases[OF Some, of po None])
    case (1 e)
    thus thesis using res keys fails by (auto simp: dp_allocate_network_snat_port_def Let_def)
  next
    case 2
    show thesis
      by (rule known[of "pmd_nat_port d" d])
        (use 2 res keys Some in \<open>auto simp: dp_allocate_network_snat_port_def Let_def inc_used_def\<close>)
  qed
next
  case None
  note unk = use_existing_unknown[OF None, of po "None"]
  show thesis
  proof (cases "dp_find_new_port lib sd pm po st")
    case (Inl e)
    thus thesis using res keys fails unk by (auto simp: dp_allocate_network_snat_port_def Let_def)
  next
    case (Inr key)
    then obtain q where key: "key = po\<lparr> pok_nat_port := q \<rparr>" "ns_portoverload st key = None"
      by (auto simp: find_new_port_eq Let_def find_Some_iff split: option.splits)
    show thesis
    proof (cases rule: create_cases[OF key(2), of mem pm None])
      case (1 e)
      thus thesis using res keys fails unk Inr by (auto simp: dp_allocate_network_snat_port_def Let_def)
    next
      case 2
      show thesis
        by (rule fresh[of q])
          (use 2 res keys None Inr key unk in \<open>auto simp: dp_allocate_network_snat_port_def Let_def inc_used_def\<close>)
    qed
  qed
qed

text \<open>A port that was found lies in the range.\<close>

lemma found_in_range:
  assumes "dp_find_new_port lib sd pm po st = Inr (po\<lparr> pok_nat_port := q \<rparr>)" "sd_min_port sd \<le> sd_max_port sd"
  shows "sd_min_port sd \<le> q \<and> q < sd_max_port sd"
proof -
  obtain p where p: "p < unat (sd_max_port sd - sd_min_port sd)"
    "po\<lparr> pok_nat_port := q \<rparr> = po\<lparr> pok_nat_port := candidate_port (portmap_hash lib pm) (sd_min_port sd)
        (sd_max_port sd - sd_min_port sd) p \<rparr>"
    using assms(1) by (auto simp: find_new_port_eq Let_def find_Some_iff split: option.splits)
  have q: "q = candidate_port (portmap_hash lib pm) (sd_min_port sd) (sd_max_port sd - sd_min_port sd) p"
    using arg_cong[OF p(2), of pok_nat_port] by simp
  have lt: "sd_min_port sd < sd_max_port sd" using p(1) assms(2) by (cases "sd_min_port sd = sd_max_port sd") simp_all
  have "unat (portmap_hash lib pm + of_nat p) mod (unat (sd_max_port sd) - unat (sd_min_port sd))
      < unat (sd_max_port sd) - unat (sd_min_port sd)" using lt by (simp add: word_less_nat_alt)
  thus ?thesis
    using candidate_unat[OF lt, of "portmap_hash lib pm" p] unfolding q word_le_nat_alt word_less_nat_alt by linarith
qed

end

lemma residue_reached: "t < n \<Longrightarrow> \<exists>p<n. (h + p) mod n = (t :: nat)"
proof (intro exI conjI)
  assume t: "t < n"
  let ?p = "(t + (n - h mod n)) mod n"
  show "?p < n" using t by simp
  have "h mod n < n" using t by simp
  hence "h mod n + (t + (n - h mod n)) = t + n" by linarith
  hence "(h mod n + (t + (n - h mod n))) mod n = t" using t by simp
  thus "(h + ?p) mod n = t" by (simp add: mod_simps)
qed

section \<open>Properties\<close>

text \<open>C22: allocation of a port for a translated flow.  An error leaves all tables as
  they were.  A port that is returned was not in use towards the same destination
  (address, port, protocol) before and is from then on, and nothing else is; a source that
  already has a port keeps it, with one more flow counted, and a new source gets a port of
  the interface's range.  So no two flows of one translated address to the same destination share a port.\<close>

theorem nat_port_allocation:
  assumes lib: "nat_library lib" and keys: "snat_keys (sd_nat_ip sd) df port = Some (pm, po)"
    and res: "dp_allocate_network_snat_port lib conf link mem sd df port ck st = (r, st')"
  shows "case r of
      Inl e \<Rightarrow> st' = st
    | Inr q \<Rightarrow>
        ns_portoverload st (po\<lparr> pok_nat_port := q \<rparr>) = None
        \<and> ns_portoverload st' = (ns_portoverload st)(po\<lparr> pok_nat_port := q \<rparr> \<mapsto> None)
        \<and> (case ns_portmap st pm of
             Some d \<Rightarrow> q = pmd_nat_port d
               \<and> ns_portmap st' = (ns_portmap st)(pm \<mapsto> d\<lparr> pmd_flow_cnt := pmd_flow_cnt d + 1 \<rparr>)
           | None \<Rightarrow> ns_portmap st' = (ns_portmap st)(pm \<mapsto> \<lparr> pmd_nat_ip = sd_nat_ip sd, pmd_nat_port = q, pmd_flow_cnt = 1 \<rparr>)
               \<and> (sd_min_port sd \<le> sd_max_port sd \<longrightarrow> sd_min_port sd \<le> q \<and> q < sd_max_port sd))
        \<and> ns_used_port_cnt st' = (ns_used_port_cnt st)(port_id port := ns_used_port_cnt st (port_id port) + 1)
        \<and> ns_snat st' = ns_snat st \<and> ns_dnat st' = ns_dnat st \<and> ns_neighnat st' = ns_neighnat st"
proof (rule nat_library.allocate_cases[OF lib keys res])
  fix e assume "r = Inl e" "st' = st"
  thus ?thesis by simp
next
  fix q d
  assume "r = Inr q" "ns_portmap st pm = Some d" "q = pmd_nat_port d"
    "ns_portoverload st (po\<lparr> pok_nat_port := q \<rparr>) = None"
    "ns_portoverload st' = (ns_portoverload st)(po\<lparr> pok_nat_port := q \<rparr> \<mapsto> None)"
    "ns_portmap st' = (ns_portmap st)(pm \<mapsto> d\<lparr> pmd_flow_cnt := pmd_flow_cnt d + 1 \<rparr>)"
    "ns_used_port_cnt st' = (ns_used_port_cnt st)(port_id port := ns_used_port_cnt st (port_id port) + 1)"
    and frame: "st' = st\<lparr> ns_portoverload := ns_portoverload st', ns_portmap := ns_portmap st',
        ns_used_port_cnt := ns_used_port_cnt st', ns_sync := ns_sync st' \<rparr>"
  moreover have "ns_snat st' = ns_snat st" "ns_dnat st' = ns_dnat st" "ns_neighnat st' = ns_neighnat st"
    by (subst frame, simp)+
  ultimately show ?thesis by simp
next
  fix q
  assume r: "r = Inr q" and pm: "ns_portmap st pm = None"
    and find: "dp_find_new_port lib sd pm po st = Inr (po\<lparr> pok_nat_port := q \<rparr>)"
    and st: "ns_portoverload st (po\<lparr> pok_nat_port := q \<rparr>) = None"
    "ns_portoverload st' = (ns_portoverload st)(po\<lparr> pok_nat_port := q \<rparr> \<mapsto> None)"
    "ns_portmap st' = (ns_portmap st)(pm \<mapsto> \<lparr> pmd_nat_ip = pok_nat_ip po, pmd_nat_port = q, pmd_flow_cnt = 1 \<rparr>)"
    "ns_used_port_cnt st' = (ns_used_port_cnt st)(port_id port := ns_used_port_cnt st (port_id port) + 1)"
    and frame: "st' = st\<lparr> ns_portoverload := ns_portoverload st', ns_portmap := ns_portmap st',
        ns_used_port_cnt := ns_used_port_cnt st', ns_sync := ns_sync st' \<rparr>"
  have "ns_snat st' = ns_snat st" "ns_dnat st' = ns_dnat st" "ns_neighnat st' = ns_neighnat st"
    by (subst frame, simp)+
  moreover have "pok_nat_ip po = sd_nat_ip sd"
    using keys by (auto simp: snat_keys_def Let_def split: if_splits)
  moreover have "sd_min_port sd \<le> sd_max_port sd \<longrightarrow> sd_min_port sd \<le> q \<and> q < sd_max_port sd"
    using nat_library.found_in_range[OF lib find] by blast
  ultimately show ?thesis using r pm st by simp
qed

text \<open>C23: the search for a free port succeeds exactly when the range has one, as long as
  the sum of the hash and the size of the range fits into 32 bits.\<close>

theorem nat_port_search_complete:
  assumes lib: "nat_library lib" and range: "sd_min_port sd < sd_max_port sd"
    and nowrap: "unat (portmap_hash lib pm) + (unat (sd_max_port sd) - unat (sd_min_port sd)) \<le> 2 ^ 32"
  shows "(\<exists>key. dp_find_new_port lib sd pm po st = Inr key) \<longleftrightarrow>
    (\<exists>q. sd_min_port sd \<le> q \<and> q < sd_max_port sd \<and> ns_portoverload st (po\<lparr> pok_nat_port := q \<rparr>) = None)"
    (is "?L \<longleftrightarrow> ?R")
proof
  assume ?L
  then obtain key where key: "dp_find_new_port lib sd pm po st = Inr key" by blast
  then obtain q where q: "key = po\<lparr> pok_nat_port := q \<rparr>" "ns_portoverload st key = None"
    by (auto simp: nat_library.find_new_port_eq[OF lib] Let_def find_Some_iff split: option.splits)
  show ?R using nat_library.found_in_range[OF lib key[unfolded q(1)] less_imp_le[OF range]] q by blast
next
  assume ?R
  then obtain q where q: "sd_min_port sd \<le> q" "q < sd_max_port sd" "ns_portoverload st (po\<lparr> pok_nat_port := q \<rparr>) = None"
    by blast
  let ?h = "portmap_hash lib pm" and ?n = "unat (sd_max_port sd) - unat (sd_min_port sd)"
  let ?t = "unat q - unat (sd_min_port sd)"
  have tn: "?t < ?n" using q(1,2) by (simp add: word_le_nat_alt word_less_nat_alt)
  obtain p where p: "p < ?n" "(unat ?h + p) mod ?n = ?t" using residue_reached[OF tn] by blast
  have rng: "unat (sd_max_port sd - sd_min_port sd) = ?n" using range by (intro unat_sub) simp
  have "unat (?h + of_nat p) = unat ?h + p"
  proof -
    have "unat (of_nat p :: uint32) = p" using p(1) nowrap by (simp add: unat_of_nat)
    thus ?thesis using p(1) nowrap by (subst unat_add_lem[THEN iffD1]) simp_all
  qed
  hence "unat (candidate_port ?h (sd_min_port sd) (sd_max_port sd - sd_min_port sd) p) = unat q"
    using candidate_unat[OF range, of ?h p] p(2) q(1) by (simp add: word_le_nat_alt)
  hence "candidate_port ?h (sd_min_port sd) (sd_max_port sd - sd_min_port sd) p = q"
    by (simp add: word_unat_eq_iff)
  hence "find (\<lambda>p. ns_portoverload st (po\<lparr> pok_nat_port := candidate_port ?h (sd_min_port sd)
      (sd_max_port sd - sd_min_port sd) p \<rparr>) = None) [0..<unat (sd_max_port sd - sd_min_port sd)] \<noteq> None"
    using q(3) p(1) unfolding find_None_iff rng by auto
  thus ?L by (auto simp: nat_library.find_new_port_eq[OF lib] Let_def split: option.splits)
qed

context nat_library
begin

lemma delete_entries_eq:
  assumes "ns_portoverload st k \<noteq> None" "ns_portmap st pm = Some d"
  shows "dp_delete_snat_entries lib pm k st = (DP_OK, st\<lparr>
    ns_portoverload := (ns_portoverload st)(k := None),
    ns_portmap := (if pmd_flow_cnt d - 1 = 0 then (ns_portmap st)(pm := None)
      else (ns_portmap st)(pm \<mapsto> d\<lparr> pmd_flow_cnt := pmd_flow_cnt d - 1 \<rparr>)) \<rparr>)"
  using assms by (auto simp: dp_delete_snat_entries_def release_portmap_def Let_def po.lookup_data po.del_key
      pm.lookup_data pm.del_key)

end

text \<open>C24: a flow that ends gives back what its allocation took: removing the port of
  a flow whose keys are the ones the port was allocated under restores both port tables and the
  counter of the interface.  (The counter of flows per source port must not have been at its
  16-bit limit.)\<close>

theorem nat_port_release:
  assumes lib: "nat_library lib" and keys: "snat_keys (sd_nat_ip sd) df port = Some (pm, po)"
    and res: "dp_allocate_network_snat_port lib conf link mem sd df port ck st = (Inr q, st')"
    and flow: "dp_flow_to_snat_keys flow = Some (pm, po\<lparr> pok_nat_port := q \<rparr>)"
    and created: "dp_get_port_by_id ports (fv_created_port_id flow) = Some port"
    and cnt: "\<forall>d. ns_portmap st pm = Some d \<longrightarrow> pmd_flow_cnt d \<noteq> 0 \<and> pmd_flow_cnt d \<noteq> 0xffff"
  shows "\<exists>out. dp_remove_network_snat_port lib conf link ports flow st' = (DP_OK, st\<lparr> ns_sync := out \<rparr>)"
proof -
  let ?k = "po\<lparr> pok_nat_port := q \<rparr>"
  have *: "(\<exists>d'. ns_portmap st' pm = Some d' \<and> ns_portoverload st' ?k \<noteq> None
        \<and> (ns_portoverload st')(?k := None) = ns_portoverload st
        \<and> (if pmd_flow_cnt d' - 1 = 0 then (ns_portmap st')(pm := None)
            else (ns_portmap st')(pm \<mapsto> d'\<lparr> pmd_flow_cnt := pmd_flow_cnt d' - 1 \<rparr>)) = ns_portmap st)
    \<and> ns_used_port_cnt st' = (ns_used_port_cnt st)(port_id port := ns_used_port_cnt st (port_id port) + 1)
    \<and> st' = st\<lparr> ns_portoverload := ns_portoverload st', ns_portmap := ns_portmap st',
        ns_used_port_cnt := ns_used_port_cnt st', ns_sync := ns_sync st' \<rparr>"
  proof (rule nat_library.allocate_cases[OF lib keys res])
    fix q' d
    assume "Inr q = (Inr q' :: uint16 dp_result)" and d: "ns_portmap st pm = Some d"
      and st: "ns_portoverload st (po\<lparr> pok_nat_port := q' \<rparr>) = None"
      "ns_portoverload st' = (ns_portoverload st)(po\<lparr> pok_nat_port := q' \<rparr> \<mapsto> None)"
      "ns_portmap st' = (ns_portmap st)(pm \<mapsto> d\<lparr> pmd_flow_cnt := pmd_flow_cnt d + 1 \<rparr>)"
      "ns_used_port_cnt st' = (ns_used_port_cnt st)(port_id port := ns_used_port_cnt st (port_id port) + 1)"
      "st' = st\<lparr> ns_portoverload := ns_portoverload st', ns_portmap := ns_portmap st',
        ns_used_port_cnt := ns_used_port_cnt st', ns_sync := ns_sync st' \<rparr>"
    moreover have "pmd_flow_cnt d \<noteq> 0" "d\<lparr> pmd_flow_cnt := pmd_flow_cnt d \<rparr> = d" using cnt d by simp_all
    ultimately show ?thesis by (simp add: fun_upd_idem)
  next
    fix q'
    assume "Inr q = (Inr q' :: uint16 dp_result)" "ns_portmap st pm = None"
      "ns_portoverload st (po\<lparr> pok_nat_port := q' \<rparr>) = None"
      "ns_portoverload st' = (ns_portoverload st)(po\<lparr> pok_nat_port := q' \<rparr> \<mapsto> None)"
      "ns_portmap st' = (ns_portmap st)(pm \<mapsto> \<lparr> pmd_nat_ip = pok_nat_ip po, pmd_nat_port = q', pmd_flow_cnt = 1 \<rparr>)"
      "ns_used_port_cnt st' = (ns_used_port_cnt st)(port_id port := ns_used_port_cnt st (port_id port) + 1)"
      "st' = st\<lparr> ns_portoverload := ns_portoverload st', ns_portmap := ns_portmap st',
        ns_used_port_cnt := ns_used_port_cnt st', ns_sync := ns_sync st' \<rparr>"
    thus ?thesis by (simp add: fun_upd_idem)
  qed simp
  then obtain d' where d': "ns_portmap st' pm = Some d'" "ns_portoverload st' ?k \<noteq> None"
      "(ns_portoverload st')(?k := None) = ns_portoverload st"
      "(if pmd_flow_cnt d' - 1 = 0 then (ns_portmap st')(pm := None)
            else (ns_portmap st')(pm \<mapsto> d'\<lparr> pmd_flow_cnt := pmd_flow_cnt d' - 1 \<rparr>)) = ns_portmap st"
    and used: "ns_used_port_cnt st' = (ns_used_port_cnt st)(port_id port := ns_used_port_cnt st (port_id port) + 1)"
    and frame: "st' = st\<lparr> ns_portoverload := ns_portoverload st', ns_portmap := ns_portmap st',
        ns_used_port_cnt := ns_used_port_cnt st', ns_sync := ns_sync st' \<rparr>" by blast
  have del: "dp_delete_snat_entries lib pm ?k st' =
      (DP_OK, st'\<lparr> ns_portoverload := ns_portoverload st, ns_portmap := ns_portmap st \<rparr>)"
    unfolding nat_library.delete_entries_eq[OF lib d'(2,1)] d'(3,4) ..
  have "dec_used (port_id port) (st'\<lparr> ns_portoverload := ns_portoverload st, ns_portmap := ns_portmap st, ns_sync := out \<rparr>)
      = st\<lparr> ns_sync := out \<rparr>" for out
    by (subst frame) (simp add: dec_used_def used)
  note sent = this and quiet = this[of "ns_sync st'"]
  show ?thesis
    using flow created del sent quiet by (auto simp: dp_remove_network_snat_port_def Let_def)
qed

text \<open>The ranges of the neighbours: no two entries of one address overlap.\<close>

definition neigh_inv :: "nat_state \<Rightarrow> bool" where
  "neigh_inv st \<longleftrightarrow> sorted_wrt (\<lambda>a b. \<not> dp_is_network_nat_entry_port_overlap a (ne_nat_ip b) (ne_min_port b) (ne_max_port b))
     (ns_neighnat st)"

lemma overlap_sym: "dp_is_network_nat_entry_port_overlap a (ne_nat_ip b) (ne_min_port b) (ne_max_port b)
    \<longleftrightarrow> dp_is_network_nat_entry_port_overlap b (ne_nat_ip a) (ne_min_port a) (ne_max_port a)"
  by (auto simp: dp_is_network_nat_entry_port_overlap_def)

lemma same_port_overlap:
  "dp_is_network_nat_port a ip vni p \<Longrightarrow> dp_is_network_nat_port b ip vni' p \<Longrightarrow>
   dp_is_network_nat_entry_port_overlap a (ne_nat_ip b) (ne_min_port b) (ne_max_port b)"
  by (auto simp: dp_is_network_nat_port_def dp_is_network_nat_entry_port_overlap_def)

lemma remove_first_split: "remove_first P xs = Some ys \<Longrightarrow> \<exists>us x vs. xs = us @ x # vs \<and> P x \<and> ys = us @ vs"
proof (induction xs arbitrary: ys)
  case (Cons x xs)
  show ?case
  proof (cases "P x")
    case True
    thus ?thesis using Cons.prems by (intro exI[of _ "[]"]) simp
  next
    case False
    then obtain zs where zs: "remove_first P xs = Some zs" "ys = x # zs" using Cons.prems by auto
    then obtain us y vs where "xs = us @ y # vs" "P y" "zs = us @ vs" using Cons.IH by blast
    thus ?thesis using zs by (intro exI[of _ "x # us"]) auto
  qed
qed simp

inductive neigh_step :: "nat_state \<Rightarrow> nat_state \<Rightarrow> bool" where
  add: "neigh_step st (snd (dp_add_neighnat_entry mem nat_ip vni mn mx ul st))"
| del: "neigh_step st (snd (dp_del_neighnat_entry nat_ip vni mn mx st))"
| del_all: "neigh_step st (dp_del_all_neigh_nat_entries_in_vni lib ks vni st)"

lemma dnat_by_vni_neigh [simp]: "ns_neighnat (dp_del_dnat_by_vni lib vni ks st) = ns_neighnat st"
  by (induction lib vni ks st rule: dp_del_dnat_by_vni.induct) (auto split: sum.splits)

lemma neigh_step_inv: "neigh_step st st' \<Longrightarrow> neigh_inv st \<Longrightarrow> neigh_inv st'"
proof (induction rule: neigh_step.induct)
  case (add st mem nat_ip vni mn mx ul)
  thus ?case by (auto simp: dp_add_neighnat_entry_def neigh_inv_def sorted_wrt_append)
next
  case (del st nat_ip vni mn mx)
  show ?case
  proof (cases "remove_first (\<lambda>e. dp_is_same_network_nat_entry e nat_ip vni mn mx) (ns_neighnat st)")
    case None
    thus ?thesis using del by (simp add: dp_del_neighnat_entry_def)
  next
    case (Some es)
    from remove_first_split[OF this] obtain us x vs where "ns_neighnat st = us @ x # vs" "es = us @ vs" by blast
    thus ?thesis using del Some by (simp add: dp_del_neighnat_entry_def neigh_inv_def sorted_wrt_append)
  qed
next
  case (del_all st lib ks vni)
  thus ?case by (simp add: dp_del_all_neigh_nat_entries_in_vni_def neigh_inv_def sorted_wrt_filter)
qed

interpretation neigh: transition_system "\<lambda>st. ns_neighnat st = []" neigh_step neigh_inv
  by unfold_locales (simp_all add: neigh_inv_def neigh_step_inv[unfolded neigh_inv_def])

lemma neigh_unique:
  assumes "neigh_inv st" "a \<in> set (ns_neighnat st)" "b \<in> set (ns_neighnat st)"
    and "dp_is_network_nat_port a ip vni p" "dp_is_network_nat_port b ip vni' p"
  shows "a = b"
proof -
  obtain i j where i: "i < length (ns_neighnat st)" "ns_neighnat st ! i = a" "j < length (ns_neighnat st)" "ns_neighnat st ! j = b"
    using assms(2,3) by (auto simp: in_set_conv_nth)
  have "\<not> i < j" using assms(1) i same_port_overlap[OF assms(4,5)] unfolding neigh_inv_def sorted_wrt_iff_nth_less by blast
  moreover have "\<not> j < i" using assms(1) i same_port_overlap[OF assms(5,4)] unfolding neigh_inv_def sorted_wrt_iff_nth_less by blast
  ultimately show ?thesis using i by simp
qed

text \<open>C25: whatever sequence of registrations and removals has been made, a packet for a
  translated address and port is handed to the one neighbour whose registered range
  contains the port, and to none exactly when no range does; in particular the order of the
  list does not matter.\<close>

theorem neighnat_lookup_unique:
  assumes start: "ns_neighnat st0 = []" and steps: "neigh_step\<^sup>*\<^sup>* st0 st"
  shows "dp_lookup_neighnat_underlay_ip df st = Some ul \<longleftrightarrow>
    (\<exists>e \<in> set (ns_neighnat st). ne_dst_ipv6 e = ul
       \<and> ne_vni e = df_tun_dst_vni df \<and> ne_nat_ip e = df_dst_addr df
       \<and> (let p = (if df_l4_type df = IPPROTO_ICMP \<or> df_l4_type df = IPPROTO_ICMPV6
             then df_icmp_identifier df else df_l4_dst_port df) in ne_min_port e \<le> p \<and> p < ne_max_port e))"
proof -
  define p where "p = (if df_l4_type df = IPPROTO_ICMP \<or> df_l4_type df = IPPROTO_ICMPV6
    then df_icmp_identifier df else df_l4_dst_port df)"
  let ?P = "\<lambda>e. dp_is_network_nat_port e (df_dst_addr df) (df_tun_dst_vni df) p"
  have inv: "neigh_inv st" by (rule neigh.inv_reachable[OF start steps])
  have look: "dp_lookup_neighnat_underlay_ip df st = map_option ne_dst_ipv6 (find ?P (ns_neighnat st))"
    by (simp add: dp_lookup_neighnat_underlay_ip_def Let_def p_def)
  have "dp_lookup_neighnat_underlay_ip df st = Some ul \<longleftrightarrow> (\<exists>e \<in> set (ns_neighnat st). ne_dst_ipv6 e = ul \<and> ?P e)"
  proof (cases "find ?P (ns_neighnat st)")
    case None
    have "\<not> (\<exists>e. e \<in> set (ns_neighnat st) \<and> ?P e)" using None unfolding find_None_iff .
    thus ?thesis unfolding look None by simp
  next
    case (Some e)
    hence e: "e \<in> set (ns_neighnat st)" "?P e" by (auto simp: find_Some_iff)
    have only: "\<forall>e' \<in> set (ns_neighnat st). ?P e' \<longrightarrow> e' = e" using neigh_unique[OF inv _ e(1) _ e(2)] by blast
    show ?thesis unfolding look Some option.map option.inject using e only by blast
  qed
  thus ?thesis unfolding dp_is_network_nat_port_def p_def[symmetric] Let_def by blast
qed

lemma dnat_by_vni:
  assumes "hash_table (dnat_ops lib)"
  shows "ns_dnat (dp_del_dnat_by_vni lib vni ks st) k = (if nk_vni k = vni \<and> k \<in> set ks then None else ns_dnat st k)"
proof (induction ks arbitrary: st)
  case (Cons key ks)
  show ?case by (cases "ns_dnat st key") (auto simp: hash_table.del_key[OF assms] Cons)
qed simp

text \<open>C28: with the last reference to a virtual network its translated destinations and
  its neighbours disappear.  For network 0, which is the code's marker for all networks,
  the neighbours of every other network disappear as well, while their translated
  destinations stay.\<close>

theorem vni_delete_neighnat:
  assumes ht: "hash_table (vni_ops vl)" and inv: "vni_inv t" and last: "vni_refs t vni = 1"
    and lib: "nat_library lib" and ks: "set ks = dom (ns_dnat st)"
  shows "case dp_delete_vni_route_tables vl (dp_del_all_neigh_nat_entries_in_vni lib ks) vni (t, st) of (r, t', st') \<Rightarrow>
    r = DP_OK \<and> t' = t(vni := None)
    \<and> ns_neighnat st' = (if vni = 0 then [] else filter (\<lambda>e. ne_vni e \<noteq> vni) (ns_neighnat st))
    \<and> ns_dnat st' = (\<lambda>k. if nk_vni k = vni then None else ns_dnat st k)"
proof -
  obtain d where d: "t vni = Some d" "unat (vd_ref_count d) = 1"
    using last by (auto simp: vni_refs_def split: option.splits)
  hence one: "vd_ref_count d = 1" by (metis unat_1 word_unat_eq_iff)
  have "ns_dnat (dp_del_all_neigh_nat_entries_in_vni lib ks vni st) k = (if nk_vni k = vni then None else ns_dnat st k)" for k
    unfolding dp_del_all_neigh_nat_entries_in_vni_def dnat_by_vni[OF nat_library.dnat_ht[OF lib]] ks by auto
  moreover have "ns_neighnat (dp_del_all_neigh_nat_entries_in_vni lib ks vni st) =
      (if vni = 0 then [] else filter (\<lambda>e. ne_vni e \<noteq> vni) (ns_neighnat st))"
    by (simp add: dp_del_all_neigh_nat_entries_in_vni_def DP_NETWORK_NAT_ALL_VNI_def)
  moreover have "dp_delete_vni_route_tables vl (dp_del_all_neigh_nat_entries_in_vni lib ks) vni (t, st) =
      (DP_OK, t(vni := None), dp_del_all_neigh_nat_entries_in_vni lib ks vni st)"
    using vni_delete_eq[where t = t and vni = vni and nats = st, OF ht inv d(1)] one by simp
  ultimately show ?thesis by (simp add: fun_eq_iff)
qed

section \<open>Concrete inputs\<close>

definition ref_nat_lib :: "uint32 \<Rightarrow> nat_lib" where
  "ref_nat_lib h = \<lparr> snat_ops = ref_hash 64, dnat_ops = ref_hash 64, portmap_ops = ref_hash 64,
     portoverload_ops = ref_hash 64, portmap_hash = (\<lambda>_. h) \<rparr>"

interpretation refnat: nat_library "ref_nat_lib h"
  by (rule nat_library.intro) (simp_all add: ref_nat_lib_def refh.hash_table_axioms)

definition ex_nat_state :: nat_state where
  "ex_nat_state = \<lparr> ns_snat = Map.empty, ns_dnat = Map.empty, ns_portmap = Map.empty, ns_portoverload = Map.empty,
     ns_neighnat = [], ns_used_port_cnt = (\<lambda>_. 0), ns_sync = [] \<rparr>"

definition ex_snat :: "uint16 \<Rightarrow> uint16 \<Rightarrow> snat_data" where
  "ex_snat mn mx = snat_data_zero\<lparr> sd_nat_ip := 0x0a0a0a0a, sd_min_port := mn, sd_max_port := mx \<rparr>"

definition ex_overload :: "uint16 \<Rightarrow> netnat_portoverload_tbl_key" where
  "ex_overload p = \<lparr> pok_nat_ip = 0x0a0a0a0a, pok_nat_port = p, pok_dst_ip = 0x08080808, pok_dst_port = 53, pok_l4_type = IPPROTO_UDP \<rparr>"

text \<open>when the sum of hash and counter wraps around, a free port can be missed: with three
  ports of which only the last is free and the hash at its maximum, the search tries the
  first port twice and the last never, and reports that the range is full.\<close>

theorem nat_port_search_wraps:
  "nat_library (ref_nat_lib 0xffffffff)
   \<and> dp_find_new_port (ref_nat_lib 0xffffffff) (ex_snat 1000 1003) pm (ex_overload 0)
       (ex_nat_state\<lparr> ns_portoverload := [ex_overload 1000 \<mapsto> None, ex_overload 1001 \<mapsto> None] \<rparr>) = Inl (ERRNO ENOENT)
   \<and> ns_portoverload (ex_nat_state\<lparr> ns_portoverload := [ex_overload 1000 \<mapsto> None, ex_overload 1001 \<mapsto> None] \<rparr>)
       (ex_overload 1002) = None"
proof -
  have up: "[0..<unat (3 :: uint16)] = [0, 1, 2]" by (simp add: upt_conv_Cons)
  have rng: "sd_max_port (ex_snat 1000 1003) = 1003" "sd_min_port (ex_snat 1000 1003) = 1000" "1003 - 1000 = (3 :: uint16)"
    by (simp_all add: ex_snat_def)
  have cand: "candidate_port 0xffffffff 1000 3 0 = 1000" "candidate_port 0xffffffff 1000 3 1 = 1000"
    "candidate_port 0xffffffff 1000 3 2 = 1001" by (simp_all add: candidate_port_def)
  have hash: "portmap_hash (ref_nat_lib 0xffffffff) pm = 0xffffffff" by (simp add: ref_nat_lib_def)
  have "dp_find_new_port (ref_nat_lib 0xffffffff) (ex_snat 1000 1003) pm (ex_overload 0)
       (ex_nat_state\<lparr> ns_portoverload := [ex_overload 1000 \<mapsto> None, ex_overload 1001 \<mapsto> None] \<rparr>) = Inl (ERRNO ENOENT)"
    unfolding refnat.find_new_port_eq Let_def rng up hash find.simps cand by (simp add: ex_overload_def)
  thus ?thesis by (simp add: refnat.nat_library_axioms ex_overload_def)
qed

definition ex_nat_df :: dp_flow where
  "ex_nat_df = dp_init_flow_ptr\<lparr> df_l3_type := RTE_ETHER_TYPE_IPV4, df_l4_type := IPPROTO_UDP, df_l4_src_port := 1234,
     df_l4_dst_port := 53, df_src := \<lparr> ip6_prefix = 0x0a00000500000000, ip6_suffix = 0 \<rparr>,
     df_dst := \<lparr> ip6_prefix = 0x0808080800000000, ip6_suffix = 0 \<rparr> \<rparr>"

definition ex_nat_port :: dp_port where
  "ex_nat_port = dp_port_zero\<lparr> port_id := 1, iface := dp_iface_zero\<lparr> if_vni := 100 \<rparr> \<rparr>"

definition ex_portmap_key :: netnat_portmap_key where
  "ex_portmap_key = \<lparr> pmk_vni = 100, pmk_src_ip = IPADDR4 0x0a000005, pmk_iface_src_port = 1234 \<rparr>"

definition ex_nat_conf :: dp_conf where
  "ex_nat_conf = \<lparr> conf_tap_mode = False, conf_ipsec_enabled = False, conf_offload_enabled = False,
     conf_sync_enabled = False, conf_virtsvc_present = False \<rparr>"

abbreviation ex_allocate :: "uint16 dp_result \<times> nat_state" where
  "ex_allocate \<equiv> dp_allocate_network_snat_port (ref_nat_lib 0) ex_nat_conf \<lparr> sync_alloc = True, sync_tx = True \<rparr> True
     (ex_snat 1000 1003) ex_nat_df ex_nat_port 0 ex_nat_state"

lemma ex_nat_keys: "snat_keys (sd_nat_ip (ex_snat 1000 1003)) ex_nat_df ex_nat_port = Some (ex_portmap_key, ex_overload 0)"
  by (simp add: snat_keys_def Let_def ex_nat_df_def ex_nat_port_def ex_portmap_key_def ex_overload_def ex_snat_def
      df_src_addr_def df_dst_addr_def union_ipv4_def drop_bit_eq_div dp_port_zero_def)

lemma ex_allocate_ok: "fst ex_allocate = Inr 1000"
proof -
  have pm: "ns_portmap ex_nat_state ex_portmap_key = None" by (simp add: ex_nat_state_def)
  have ex_port: "pok_nat_port (ex_overload 1000) = 1000" by (simp add: ex_overload_def)
  have free: "ns_portoverload ex_nat_state k = None" for k by (simp add: ex_nat_state_def)
  have rng: "sd_max_port (ex_snat 1000 1003) = 1003" "sd_min_port (ex_snat 1000 1003) = 1000" "1003 - 1000 = (3 :: uint16)"
    by (simp_all add: ex_snat_def)
  have up: "[0..<unat (3 :: uint16)] = [0, 1, 2]" by (simp add: upt_conv_Cons)
  have hash: "portmap_hash (ref_nat_lib 0) ex_portmap_key = 0" by (simp add: ref_nat_lib_def)
  have find: "dp_find_new_port (ref_nat_lib 0) (ex_snat 1000 1003) ex_portmap_key (ex_overload 0) ex_nat_state = Inr (ex_overload 1000)"
    unfolding refnat.find_new_port_eq Let_def rng up hash by (simp add: free candidate_port_def ex_overload_def)
  have "dp_create_new_portmap_entry (ref_nat_lib 0) True ex_portmap_key (ex_overload 1000) None ex_nat_state = (DP_OK, st)
      \<Longrightarrow> fst ex_allocate = Inr 1000" for st
    unfolding dp_allocate_network_snat_port_def ex_nat_keys
    by (simp add: refnat.use_existing_unknown[OF pm] find Let_def ex_port)
  moreover have "fst (dp_create_new_portmap_entry (ref_nat_lib 0) True ex_portmap_key (ex_overload 1000) None ex_nat_state) = DP_OK"
    by (simp add: dp_create_new_portmap_entry_def Let_def ref_nat_lib_def ref_hash_def ex_nat_state_def)
  ultimately show ?thesis by (metis prod.collapse)
qed

theorem nat_port_allocation_witness:
  "\<exists>q. fst ex_allocate = Inr q \<and> 1000 \<le> q \<and> q < 1003 \<and> ns_portoverload (snd ex_allocate) (ex_overload q) = Some None"
proof -
  have e: "ex_allocate = (Inr 1000, snd ex_allocate)" using ex_allocate_ok by (metis prod.collapse)
  show ?thesis using nat_port_allocation[OF refnat.nat_library_axioms ex_nat_keys e] ex_allocate_ok
    by (auto simp: ex_nat_state_def ex_snat_def ex_overload_def)
qed

theorem nat_port_search_complete_witness:
  "\<exists>key. dp_find_new_port (ref_nat_lib 7) (ex_snat 1000 1003) ex_portmap_key (ex_overload 0)
     (ex_nat_state\<lparr> ns_portoverload := [ex_overload 1000 \<mapsto> None, ex_overload 1001 \<mapsto> None] \<rparr>) = Inr key"
proof -
  have "(1000 :: uint16) \<le> 1002 \<and> (1002 :: uint16) < 1003" by simp
  thus ?thesis
    by (subst nat_port_search_complete[OF refnat.nat_library_axioms])
      (auto simp: ex_snat_def ref_nat_lib_def ex_overload_def intro!: exI[of _ 1002])
qed

definition ex_nat_flow :: flow_value where
  "ex_nat_flow = \<lparr>
     fv_key_org = \<lparr> fk_l3_dst = IPADDR4 0x08080808, fk_proto = IPPROTO_UDP, fk_port_dst = 53, fk_l3_src = IPADDR4 0x0a000005,
       fk_vnf_type = DP_VNF_TYPE_NAT, fk_src = 1234, fk_vni = 100 \<rparr>,
     fv_key_reply = \<lparr> fk_l3_dst = IPADDR4 0x0a0a0a0a, fk_proto = IPPROTO_UDP, fk_port_dst = 1000, fk_l3_src = IPADDR4 0x08080808,
       fk_vnf_type = DP_VNF_TYPE_NAT, fk_src = 53, fk_vni = 100 \<rparr>,
     fv_age_ctxs = [], fv_nf_info = \<lparr> nf_vni = 100, nf_icmp_err_ip_cksum = 0, nf_nat_type = DP_FLOW_NAT_TYPE_NETWORK_LOCAL,
       nf_underlay_dst = dp_empty_ipv6, nf_l4_type = IPPROTO_UDP \<rparr>,
     fv_timestamp = 0, fv_timeout_value = 30, fv_created_port_id = 0, fv_flow_flags = DP_FLOW_FLAG_SRC_NAT,
     fv_fwall_org = DP_FWALL_ACCEPT, fv_fwall_reply = DP_FWALL_ACCEPT, fv_offload_orig = DP_FLOW_NON_OFFLOAD,
     fv_offload_reply = DP_FLOW_NON_OFFLOAD, fv_offloaded_pf0 = False, fv_offloaded_pf1 = False, fv_ref_count = 2,
     fv_tcp_state = DP_FLOW_TCP_STATE_NONE, fv_first_syn_dir = DP_FLOW_DIR_ORG, fv_aged = False \<rparr>"

theorem nat_port_release_witness:
  "\<exists>out. dp_remove_network_snat_port (ref_nat_lib 0) ex_nat_conf \<lparr> sync_alloc = True, sync_tx = True \<rparr>
     [Some ex_nat_port] ex_nat_flow (snd ex_allocate) = (DP_OK, ex_nat_state\<lparr> ns_sync := out \<rparr>)"
proof -
  have e: "ex_allocate = (Inr 1000, snd ex_allocate)" using ex_allocate_ok by (metis prod.collapse)
  have k: "dp_flow_to_snat_keys ex_nat_flow = Some (ex_portmap_key, (ex_overload 0)\<lparr> pok_nat_port := 1000 \<rparr>)"
    by (simp add: dp_flow_to_snat_keys_def Let_def ex_nat_flow_def ex_portmap_key_def ex_overload_def
        dp_ipv6_from_ipaddr_def ipaddr4_of_def)
  have p: "dp_get_port_by_id [Some ex_nat_port] (fv_created_port_id ex_nat_flow) = Some ex_nat_port"
    by (simp add: dp_get_port_by_id_def ex_nat_flow_def)
  show ?thesis
    by (rule nat_port_release[OF refnat.nat_library_axioms ex_nat_keys e k p]) (simp add: ex_nat_state_def)
qed

theorem neighnat_lookup_unique_witness:
  "dp_lookup_neighnat_underlay_ip (ex_nat_df\<lparr> df_tun_dst_vni := 100 \<rparr>)
     (snd (dp_add_neighnat_entry True 0x08080808 100 50 60 dp_multicast_ipv6 ex_nat_state)) = Some dp_multicast_ipv6"
proof -
  have s: "neigh_step\<^sup>*\<^sup>* ex_nat_state (snd (dp_add_neighnat_entry True 0x08080808 100 50 60 dp_multicast_ipv6 ex_nat_state))"
    by (intro r_into_rtranclp neigh_step.add)
  have "ns_neighnat ex_nat_state = []" by (simp add: ex_nat_state_def)
  thus ?thesis
    by (subst neighnat_lookup_unique[OF _ s])
      (simp_all add: dp_add_neighnat_entry_def ex_nat_state_def ex_nat_df_def df_dst_addr_def union_ipv4_def drop_bit_eq_div)
qed

theorem vni_delete_neighnat_witness:
  "ns_neighnat (snd (snd (dp_delete_vni_route_tables ref_vni_lib (dp_del_all_neigh_nat_entries_in_vni (ref_nat_lib 0) []) 0
     ([0 \<mapsto> (ex_vni_data 1)\<lparr> vd_vni := 0 \<rparr>],
      snd (dp_add_neighnat_entry True 0x08080808 100 50 60 dp_multicast_ipv6 ex_nat_state))))) = []"
proof -
  let ?st = "snd (dp_add_neighnat_entry True 0x08080808 100 50 60 dp_multicast_ipv6 ex_nat_state)"
  have h: "vni_inv [0 \<mapsto> (ex_vni_data 1)\<lparr> vd_vni := 0 \<rparr>]" "vni_refs [0 \<mapsto> (ex_vni_data 1)\<lparr> vd_vni := 0 \<rparr>] 0 = 1"
    by (simp_all add: vni_inv_def vni_refs_def ex_vni_data_def)
  have "set [] = dom (ns_dnat ?st)" by (simp add: dp_add_neighnat_entry_def ex_nat_state_def)
  thus ?thesis
    using vni_delete_neighnat[OF ref_vni_ht h refnat.nat_library_axioms, of "[]" ?st 0] by (simp split: prod.splits)
qed

end
