(* ===== verification/Dp_Flow.thy ===== *)
theory Dp_Flow
  imports Dp_Nat Dp_Vnf "HOL-Library.Monad_Syntax"
begin

text \<open>
  The flow table (\<open>src/dp_flow.c\<close>, \<open>include/dp_flow.h\<close>): keys built from packets,
  the inverted key of the other direction, reference counts, age contexts of
  offloaded rules, and the walks that age or remove flows.

  A flow is reached through several pointers at once (both keys, the age
  contexts, the cache of the connection tracker), so flows and age contexts
  live in explicit heaps under their addresses.  Following a pointer to freed
  memory, and a failed \<open>RTE_VERIFY\<close>, give \<open>None\<close>.
\<close>

section \<open>State\<close>

record flow_age_ctx =
  ac_cntrack :: "nat option"
  ac_rte_flow :: bool
  ac_ref_index :: uint8
  ac_port_id :: uint8
  ac_handle :: bool

text \<open>The table with its heaps, the translation tables that a freed flow gives
  its port back to, and the cache of \<open>dp_cntrack.c\<close>: the two slots for keys, the
  slots \<open>curr_key\<close> and \<open>prev_key\<close> point to, and the flow of \<open>prev_key\<close>.\<close>

record flow_state =
  ft_table :: "flow_key \<rightharpoonup> nat"
  ft_heap :: "nat \<rightharpoonup> flow_value"
  ft_ctxs :: "nat \<rightharpoonup> flow_age_ctx"
  ft_nat :: nat_state
  ft_key_cache :: "flow_key list"
  ft_cache_index :: uint32
  ft_curr :: nat
  ft_prev :: "nat option"
  ft_cached :: "nat option"

text \<open>What the functions read and do not change: the libraries, the
  configuration, the VNF table, the ports (\<open>fe_pf0\<close> the identifier of the first
  physical one) and the link to the other instance.\<close>

record flow_env =
  fe_tbl :: "(flow_key, nat) rte_hash"
  fe_hash :: "flow_key \<Rightarrow> uint32"
  fe_nat :: nat_lib
  fe_vnf :: vnf_lib
  fe_vnf_state :: vnf_state
  fe_conf :: dp_conf
  fe_link :: sync_link
  fe_ports :: "dp_port option list"
  fe_pf0 :: uint16

definition DP_FLOW_VAL_AGE_CTX_CAPACITY :: nat where "DP_FLOW_VAL_AGE_CTX_CAPACITY = 6"

definition dp_get_in_port :: "flow_env \<Rightarrow> rte_mbuf \<Rightarrow> dp_port option" where
  "dp_get_in_port env m = (if unat (mb_port m) < length (fe_ports env) then fe_ports env ! unat (mb_port m) else None)"

definition dp_are_flows_identical :: "flow_key \<Rightarrow> flow_key \<Rightarrow> bool" where
  "dp_are_flows_identical key1 key2 \<longleftrightarrow> key1 = key2"

definition dp_cntrack_flush_cache :: "flow_state \<Rightarrow> flow_state" where
  "dp_cntrack_flush_cache st = st\<lparr> ft_prev := None, ft_cached := None \<rparr>"

section \<open>Keys\<close>

abbreviation (input) "DP_IP_ICMP_CODE_DST_PROTO_UNREACHABLE \<equiv> 2 :: uint8"
abbreviation (input) "DP_IP_ICMP_CODE_DST_PORT_UNREACHABLE \<equiv> 3 :: uint8"
abbreviation (input) "DP_IP_ICMP_CODE_FRAGMENT_NEEDED \<equiv> 4 :: uint8"

text \<open>The functions write into the key they are given; what they do not write
  keeps the value it had.\<close>

definition dp_build_icmp_flow_key :: "rte_mbuf \<Rightarrow> flow_key \<Rightarrow> unit dp_result \<times> flow_key" where
  "dp_build_icmp_flow_key m key =
     (let df = mb_df m in
      if df_icmp_type df = RTE_ICMP_TYPE_ECHO_REPLY \<or> df_icmp_type df = RTE_ICMP_TYPE_ECHO_REQUEST
      then (DP_OK, key\<lparr> fk_port_dst := df_icmp_identifier df, fk_src := ucast (df_icmp_type df) \<rparr>)
      else if df_icmp_type df = DP_IP_ICMP_TYPE_ERROR then
        if df_icmp_code df \<noteq> DP_IP_ICMP_CODE_DST_PROTO_UNREACHABLE
           \<and> df_icmp_code df \<noteq> DP_IP_ICMP_CODE_DST_PORT_UNREACHABLE
           \<and> df_icmp_code df \<noteq> DP_IP_ICMP_CODE_FRAGMENT_NEEDED
        then (Inl DP_ERROR, key)
        else (case dp_get_icmp_err_ip_hdr m of
          (Some err_ipv4_hdr, l4_src_port, l4_dst_port) \<Rightarrow>
            if l4_src_port = 0 \<or> l4_dst_port = 0 then (Inl DP_ERROR, key)
            else (DP_OK, key\<lparr>
              fk_l3_dst := dp_set_ipaddr4 (ip4_src_addr (ipv4_hdr_at (mb_buf m) err_ipv4_hdr)),
              fk_l3_src := dp_set_ipaddr4 (ip4_dst_addr (ipv4_hdr_at (mb_buf m) err_ipv4_hdr)),
              fk_proto := ip4_next_proto_id (ipv4_hdr_at (mb_buf m) err_ipv4_hdr),
              fk_port_dst := l4_src_port, fk_src := l4_dst_port \<rparr>)
        | (None, _) \<Rightarrow> (Inl DP_ERROR, key))
      else (Inl DP_ERROR, key))"

definition dp_mark_vnf_type :: "flow_env \<Rightarrow> nat_state \<Rightarrow> dp_flow \<Rightarrow> dp_port \<Rightarrow> flow_key \<Rightarrow> flow_key" where
  "dp_mark_vnf_type env natst df port key =
     (if is_pf port then
        if df_vnf_type df = DP_VNF_TYPE_NAT \<or> df_vnf_type df = DP_VNF_TYPE_LB_ALIAS_PFX
        then key\<lparr> fk_vnf_type := df_vnf_type df \<rparr> else key\<lparr> fk_vnf_type := DP_VNF_TYPE_UNDEFINED \<rparr>
      else (case dp_ipv6_from_ipaddr (fk_l3_dst key) of
        Inr dst_ipv6 \<Rightarrow> if dp_is_ipv6_nat64 dst_ipv6 then key\<lparr> fk_vnf_type := DP_VNF_TYPE_NAT \<rparr> else key
      | Inl _ \<Rightarrow>
        (case dp_get_iface_snat_data (fe_nat env) (ipaddr4_of (fk_l3_src key)) (fk_vni key) natst of
          Some s_data \<Rightarrow> if sd_nat_ip s_data \<noteq> 0 then key\<lparr> fk_vnf_type := DP_VNF_TYPE_NAT \<rparr>
            else if dp_vnf_lbprefix_exists (fe_vnf env) (port_id port) (fk_vni key) (fk_l3_src key) 32 (fe_vnf_state env)
            then key\<lparr> fk_vnf_type := DP_VNF_TYPE_LB_ALIAS_PFX \<rparr> else key\<lparr> fk_vnf_type := DP_VNF_TYPE_UNDEFINED \<rparr>
        | None \<Rightarrow> if dp_vnf_lbprefix_exists (fe_vnf env) (port_id port) (fk_vni key) (fk_l3_src key) 32 (fe_vnf_state env)
            then key\<lparr> fk_vnf_type := DP_VNF_TYPE_LB_ALIAS_PFX \<rparr> else key\<lparr> fk_vnf_type := DP_VNF_TYPE_UNDEFINED \<rparr>)))"

definition dp_build_flow_key ::
  "flow_env \<Rightarrow> nat_state \<Rightarrow> dp_port \<Rightarrow> rte_mbuf \<Rightarrow> flow_key \<Rightarrow> unit dp_result \<times> flow_key" where
  "dp_build_flow_key env natst port m key =
     (let df = mb_df m in
      if df_l3_type df \<noteq> RTE_ETHER_TYPE_IPV4 \<and> df_l3_type df \<noteq> RTE_ETHER_TYPE_IPV6 then (Inl DP_ERROR, key)
      else
        let key = (if df_l3_type df = RTE_ETHER_TYPE_IPV4
              then key\<lparr> fk_l3_dst := dp_set_ipaddr4 (df_dst_addr df), fk_l3_src := dp_set_ipaddr4 (df_src_addr df) \<rparr>
              else key\<lparr> fk_l3_dst := dp_set_ipaddr6 (df_dst df), fk_l3_src := dp_set_ipaddr6 (df_src df) \<rparr>);
            key = key\<lparr> fk_proto := df_l4_type df, fk_vni := (if is_pf port then df_tun_dst_vni df else if_vni (iface port)) \<rparr>;
            key = dp_mark_vnf_type env natst df port key in
        if df_l4_type df = IPPROTO_TCP \<or> df_l4_type df = IPPROTO_UDP
        then (DP_OK, key\<lparr> fk_port_dst := df_l4_dst_port df, fk_src := df_l4_src_port df \<rparr>)
        else if df_l4_type df = IPPROTO_ICMP then dp_build_icmp_flow_key m key
        else if df_l4_type df = IPPROTO_ICMPV6
        then (DP_OK, key\<lparr> fk_port_dst := df_icmp_identifier df, fk_src := ucast (df_icmp_type df) \<rparr>)
        else (Inl DP_ERROR, key))"

definition dp_invert_flow_key :: "flow_key \<Rightarrow> flow_key" where
  "dp_invert_flow_key key =
     (let inv = key\<lparr> fk_l3_dst := fk_l3_src key, fk_l3_src := fk_l3_dst key \<rparr> in
      if fk_proto key = IPPROTO_TCP \<or> fk_proto key = IPPROTO_UDP
      then inv\<lparr> fk_src := fk_port_dst key, fk_port_dst := fk_src key \<rparr>
      else if fk_proto key = IPPROTO_ICMP
      then inv\<lparr> fk_src := (if fk_src key = ucast RTE_ICMP_TYPE_ECHO_REPLY then ucast RTE_ICMP_TYPE_ECHO_REQUEST
        else if fk_src key = ucast RTE_ICMP_TYPE_ECHO_REQUEST then ucast RTE_ICMP_TYPE_ECHO_REPLY else 0) \<rparr>
      else if fk_proto key = IPPROTO_ICMPV6
      then inv\<lparr> fk_src := (if fk_src key = ucast DP_ICMPV6_ECHO_REPLY then ucast DP_ICMPV6_ECHO_REQUEST
        else if fk_src key = ucast DP_ICMPV6_ECHO_REQUEST then ucast DP_ICMPV6_ECHO_REPLY else 0) \<rparr>
      else inv\<lparr> fk_port_dst := 0, fk_src := 0 \<rparr>)"

section \<open>Lifetime of a flow\<close>

definition dp_free_network_nat_port :: "flow_env \<Rightarrow> flow_value \<Rightarrow> nat_state \<Rightarrow> nat_state" where
  "dp_free_network_nat_port env cntrack natst =
     (if nf_nat_type (fv_nf_info cntrack) = DP_FLOW_NAT_TYPE_NETWORK_LOCAL
      then snd (dp_remove_network_snat_port (fe_nat env) (fe_conf env) (fe_link env) (fe_ports env) cntrack natst)
      else natst)"

definition rte_free_flow :: "nat \<Rightarrow> flow_state \<Rightarrow> flow_state" where
  "rte_free_flow p st = st\<lparr> ft_heap := (ft_heap st)(p := None) \<rparr>"

definition dp_free_flow :: "flow_env \<Rightarrow> nat \<Rightarrow> flow_value \<Rightarrow> flow_state \<Rightarrow> flow_state" where
  "dp_free_flow env p cntrack st =
     rte_free_flow p (dp_cntrack_flush_cache (st\<lparr> ft_nat := dp_free_network_nat_port env cntrack (ft_nat st) \<rparr>))"

definition flow_ref_inc :: "nat \<Rightarrow> flow_state \<Rightarrow> flow_state option" where
  "flow_ref_inc p st = do {
     v \<leftarrow> ft_heap st p;
     if fv_ref_count v = 0 then None
     else Some (st\<lparr> ft_heap := (ft_heap st)(p \<mapsto> v\<lparr> fv_ref_count := fv_ref_count v + 1 \<rparr>) \<rparr>) }"

definition flow_ref_dec :: "flow_env \<Rightarrow> nat \<Rightarrow> flow_state \<Rightarrow> flow_state option" where
  "flow_ref_dec env p st = do {
     v \<leftarrow> ft_heap st p;
     let v = v\<lparr> fv_ref_count := fv_ref_count v - 1 \<rparr>;
     let st = st\<lparr> ft_heap := (ft_heap st)(p \<mapsto> v) \<rparr>;
     Some (if fv_ref_count v = 0 then dp_free_flow env p v st else st) }"

definition dp_delete_flow :: "flow_env \<Rightarrow> flow_key \<Rightarrow> nat \<Rightarrow> flow_state \<Rightarrow> (unit dp_result \<times> flow_state) option" where
  "dp_delete_flow env key p st =
     (case rte_hash_del_key (fe_tbl env) (ft_table st) key of
       Inl ret \<Rightarrow> Some (Inl (ERRNO (- ret)), st)
     | Inr t \<Rightarrow> do {
         st \<leftarrow> flow_ref_dec env p (st\<lparr> ft_table := t \<rparr>);
         Some (DP_OK, dp_cntrack_flush_cache st) })"

definition dp_add_flow :: "flow_env \<Rightarrow> flow_key \<Rightarrow> nat \<Rightarrow> flow_state \<Rightarrow> unit dp_result \<times> flow_state" where
  "dp_add_flow env key p st =
     (case rte_hash_add_key_data (fe_tbl env) (ft_table st) key p of
       Inl ret \<Rightarrow> (Inl (ERRNO (- ret)), st)
     | Inr t \<Rightarrow> (DP_OK, st\<lparr> ft_table := t \<rparr>))"

definition dp_get_flow :: "flow_env \<Rightarrow> flow_key \<Rightarrow> flow_state \<Rightarrow> nat dp_result" where
  "dp_get_flow env key st =
     (case rte_hash_lookup_data (fe_tbl env) (ft_table st) key of Inl ret \<Rightarrow> Inl (ERRNO (- ret)) | Inr p \<Rightarrow> Inr p)"

section \<open>Age contexts\<close>

definition dp_add_rte_age_ctx :: "nat \<Rightarrow> nat \<Rightarrow> flow_state \<Rightarrow> (unit dp_result \<times> flow_state) option" where
  "dp_add_rte_age_ctx p c st = do {
     v \<leftarrow> ft_heap st p;
     a \<leftarrow> ft_ctxs st c;
     let i = first_index (\<lambda>x. x = None) (fv_age_ctxs v);
     Some (if i < length (fv_age_ctxs v)
       then (DP_OK, st\<lparr> ft_heap := (ft_heap st)(p \<mapsto> v\<lparr> fv_age_ctxs := (fv_age_ctxs v)[i := Some c] \<rparr>),
              ft_ctxs := (ft_ctxs st)(c \<mapsto> a\<lparr> ac_ref_index := of_nat i \<rparr>) \<rparr>)
       else (Inl DP_ERROR, st)) }"

definition dp_del_rte_age_ctx :: "nat \<Rightarrow> flow_age_ctx \<Rightarrow> flow_state \<Rightarrow> (unit dp_result \<times> flow_state) option" where
  "dp_del_rte_age_ctx p ctx st = do {
     v \<leftarrow> ft_heap st p;
     Some (if unat (ac_ref_index ctx) \<ge> length (fv_age_ctxs v) then (Inl DP_ERROR, st)
       else (DP_OK, st\<lparr> ft_heap := (ft_heap st)(p \<mapsto> v\<lparr> fv_age_ctxs := (fv_age_ctxs v)[unat (ac_ref_index ctx) := None] \<rparr>) \<rparr>)) }"

text \<open>The calls to the network card only log their failures.\<close>

definition dp_destroy_rte_flow_agectx :: "flow_env \<Rightarrow> nat option \<Rightarrow> flow_state \<Rightarrow> flow_state option" where
  "dp_destroy_rte_flow_agectx env agectx st =
     (case agectx of
       None \<Rightarrow> Some st
     | Some c \<Rightarrow> do {
         a \<leftarrow> ft_ctxs st c;
         st \<leftarrow> (case ac_cntrack a of
             None \<Rightarrow> Some st
           | Some p \<Rightarrow> do { (_, st) \<leftarrow> dp_del_rte_age_ctx p a st; flow_ref_dec env p st });
         Some (st\<lparr> ft_ctxs := (ft_ctxs st)(c := None) \<rparr>) })"

text \<open>\<open>contexts\<close> are the ones the network card reports as aged.\<close>

fun dp_process_aged_flows :: "flow_env \<Rightarrow> nat option list \<Rightarrow> flow_state \<Rightarrow> flow_state option" where
  "dp_process_aged_flows env [] st = Some st"
| "dp_process_aged_flows env (agectx # contexts) st = do {
     st \<leftarrow> dp_destroy_rte_flow_agectx env agectx st;
     dp_process_aged_flows env contexts st }"

fun remove_ctxs :: "flow_env \<Rightarrow> nat \<Rightarrow> nat list \<Rightarrow> flow_state \<Rightarrow> flow_state option" where
  "remove_ctxs env p [] st = Some st"
| "remove_ctxs env p (i # is) st = do {
     v \<leftarrow> ft_heap st p;
     st \<leftarrow> dp_destroy_rte_flow_agectx env (fv_age_ctxs v ! i) st;
     remove_ctxs env p is st }"

definition dp_rte_flow_remove :: "flow_env \<Rightarrow> nat \<Rightarrow> flow_state \<Rightarrow> flow_state option" where
  "dp_rte_flow_remove env p st = remove_ctxs env p [0..<DP_FLOW_VAL_AGE_CTX_CAPACITY] st"

text \<open>\<open>query\<close> answers how many seconds ago a rule was last hit.\<close>

fun query_ctxs :: "flow_env \<Rightarrow> (nat \<Rightarrow> int + uint32) \<Rightarrow> nat \<Rightarrow> nat list \<Rightarrow> flow_state \<Rightarrow> (unit dp_result \<times> flow_state) option" where
  "query_ctxs env query p [] st = Some (DP_OK, st)"
| "query_ctxs env query p (i # is) st = do {
     v \<leftarrow> ft_heap st p;
     case fv_age_ctxs v ! i of
       None \<Rightarrow> query_ctxs env query p is st
     | Some c \<Rightarrow> do {
         a \<leftarrow> ft_ctxs st c;
         if \<not> ac_handle a then query_ctxs env query p is st
         else (case query c of
           Inl ret \<Rightarrow> Some (Inl (ERRNO (- ret)), st)
         | Inr sec_since_last_hit \<Rightarrow>
           if sec_since_last_hit \<ge> fv_timeout_value v then do {
             st \<leftarrow> dp_destroy_rte_flow_agectx env (Some c) st;
             query_ctxs env query p is st }
           else query_ctxs env query p is st) } }"

definition dp_rte_flow_query_and_remove ::
  "flow_env \<Rightarrow> (nat \<Rightarrow> int + uint32) \<Rightarrow> nat \<Rightarrow> flow_state \<Rightarrow> (unit dp_result \<times> flow_state) option" where
  "dp_rte_flow_query_and_remove env query p st = query_ctxs env query p [0..<DP_FLOW_VAL_AGE_CTX_CAPACITY] st"

section \<open>Walks over the table\<close>

text \<open>
  \<open>rte_hash_iterate\<close> goes over the slots of the table and delivers those that
  are filled when it reaches them: \<open>keys\<close> is the order of the keys, and one that
  has been removed in the meantime is passed over.
\<close>

fun walk_flows :: "(flow_key \<Rightarrow> nat \<Rightarrow> flow_state \<Rightarrow> flow_state option) \<Rightarrow> flow_key list \<Rightarrow> flow_state \<Rightarrow> flow_state option" where
  "walk_flows f [] st = Some st"
| "walk_flows f (key # keys) st = do {
     st \<leftarrow> (case ft_table st key of None \<Rightarrow> Some st | Some p \<Rightarrow> f key p st);
     walk_flows f keys st }"

definition age_flow ::
  "flow_env \<Rightarrow> (nat \<Rightarrow> int + uint32) \<Rightarrow> uint64 \<Rightarrow> uint64 \<Rightarrow> flow_key \<Rightarrow> nat \<Rightarrow> flow_state \<Rightarrow> flow_state option" where
  "age_flow env query current_timestamp timer_hz next_key p st = do {
     st \<leftarrow> (if conf_offload_enabled (fe_conf env) \<and> fk_proto next_key = IPPROTO_TCP
       then map_option snd (dp_rte_flow_query_and_remove env query p st) else Some st);
     v \<leftarrow> ft_heap st p;
     if current_timestamp - fv_timestamp v > timer_hz * ucast (fv_timeout_value v)
     then map_option snd (dp_delete_flow env next_key p st) else Some st }"

definition dp_process_aged_flows_non_offload ::
  "flow_env \<Rightarrow> (nat \<Rightarrow> int + uint32) \<Rightarrow> uint64 \<Rightarrow> uint64 \<Rightarrow> flow_key list \<Rightarrow> flow_state \<Rightarrow> flow_state option" where
  "dp_process_aged_flows_non_offload env query current_timestamp timer_hz keys st =
     walk_flows (age_flow env query current_timestamp timer_hz) keys st"

definition dp_remove_flow :: "flow_env \<Rightarrow> nat \<Rightarrow> flow_key \<Rightarrow> flow_state \<Rightarrow> flow_state option" where
  "dp_remove_flow env p key st = do {
     st \<leftarrow> (if conf_offload_enabled (fe_conf env) then dp_rte_flow_remove env p st else Some st);
     map_option snd (dp_delete_flow env key p st) }"

definition remove_if :: "flow_env \<Rightarrow> (flow_key \<Rightarrow> flow_value \<Rightarrow> bool) \<Rightarrow> flow_key \<Rightarrow> nat \<Rightarrow> flow_state \<Rightarrow> flow_state option" where
  "remove_if env cond key p st = do {
     v \<leftarrow> ft_heap st p;
     if cond key v then dp_remove_flow env p key st else Some st }"

definition dp_remove_nat_flows :: "flow_env \<Rightarrow> uint16 \<Rightarrow> dp_flow_nat_type \<Rightarrow> flow_key list \<Rightarrow> flow_state \<Rightarrow> flow_state option" where
  "dp_remove_nat_flows env pid nat_type = walk_flows (remove_if env (\<lambda>key v.
     fv_created_port_id v = pid \<and> nf_nat_type (fv_nf_info v) = nat_type))"

definition dp_remove_neighnat_flows ::
  "flow_env \<Rightarrow> uint32 \<Rightarrow> uint32 \<Rightarrow> uint16 \<Rightarrow> uint16 \<Rightarrow> flow_key list \<Rightarrow> flow_state \<Rightarrow> flow_state option" where
  "dp_remove_neighnat_flows env ipv4 vni min_port max_port = walk_flows (remove_if env (\<lambda>key v.
     fk_vni key = vni \<and> fk_l3_dst key = IPADDR4 ipv4 \<and> fk_port_dst key \<ge> min_port \<and> fk_port_dst key < max_port))"

definition dp_remove_iface_flows :: "flow_env \<Rightarrow> uint16 \<Rightarrow> uint32 \<Rightarrow> uint32 \<Rightarrow> flow_key list \<Rightarrow> flow_state \<Rightarrow> flow_state option" where
  "dp_remove_iface_flows env pid ipv4 vni = walk_flows (remove_if env (\<lambda>key v.
     fv_created_port_id v = pid \<or> (fk_vni key = vni \<and> fk_l3_dst (fv_key_org v) = IPADDR4 ipv4)))"

definition dp_remove_lbtarget_flows :: "flow_env \<Rightarrow> dp_ipv6 \<Rightarrow> flow_key list \<Rightarrow> flow_state \<Rightarrow> flow_state option" where
  "dp_remove_lbtarget_flows env ul_addr = walk_flows (remove_if env (\<lambda>key v.
     dp_ipv6_match (nf_underlay_dst (fv_nf_info v)) ul_addr))"

definition sync_flow :: "flow_env \<Rightarrow> flow_key \<Rightarrow> nat \<Rightarrow> flow_state \<Rightarrow> flow_state option" where
  "sync_flow env key p st = do {
     v \<leftarrow> ft_heap st p;
     Some (if nf_nat_type (fv_nf_info v) = DP_FLOW_NAT_TYPE_NETWORK_LOCAL \<and> key = fv_key_org v
       then st\<lparr> ft_nat := snd (dp_sync_snat_flow (fe_link env) v (ft_nat st)) \<rparr> else st) }"

definition dp_synchronize_local_nat_flows :: "flow_env \<Rightarrow> flow_key list \<Rightarrow> flow_state \<Rightarrow> flow_state option" where
  "dp_synchronize_local_nat_flows env = walk_flows (sync_flow env)"

definition dp_get_conntrack_flow_hash_value :: "flow_env \<Rightarrow> flow_key \<Rightarrow> uint32" where
  "dp_get_conntrack_flow_hash_value env key = fe_hash env key"

section \<open>Offloaded rules\<close>

text \<open>
  The part of \<open>dp_rte_flow_traffic_forward.c\<close> that ties a rule on the network
  card to its flow.  \<open>handle\<close> and \<open>rule\<close> say whether the card accepts the age
  action and the rule.
\<close>

definition allocate_agectx :: "nat option \<Rightarrow> flow_state \<Rightarrow> flow_state option" where
  "allocate_agectx mem st = (case mem of None \<Rightarrow> None | Some c \<Rightarrow>
     Some (st\<lparr> ft_ctxs := (ft_ctxs st)(c \<mapsto> \<lparr> ac_cntrack = None, ac_rte_flow = False, ac_ref_index = 0,
       ac_port_id = 0, ac_handle = False \<rparr>) \<rparr>))"

definition dp_install_rte_flow_with_age ::
  "bool \<Rightarrow> uint16 \<Rightarrow> nat \<Rightarrow> nat \<Rightarrow> flow_state \<Rightarrow> (unit dp_result \<times> flow_state) option" where
  "dp_install_rte_flow_with_age rule pid p c st =
     (if \<not> rule then Some (Inl DP_ERROR, st)
      else do {
        a \<leftarrow> ft_ctxs st c;
        let a = a\<lparr> ac_cntrack := Some p, ac_rte_flow := True, ac_port_id := ucast pid \<rparr>;
        st \<leftarrow> flow_ref_inc p (st\<lparr> ft_ctxs := (ft_ctxs st)(c \<mapsto> a) \<rparr>);
        Some (DP_OK, st) })"

definition dp_create_age_indirect_action :: "bool \<Rightarrow> nat \<Rightarrow> nat \<Rightarrow> flow_state \<Rightarrow> (unit dp_result \<times> flow_state) option" where
  "dp_create_age_indirect_action handle p c st =
     (if \<not> handle then Some (Inl DP_ERROR, st)
      else do {
        (ret, st) \<leftarrow> dp_add_rte_age_ctx p c st;
        case ret of
          Inl _ \<Rightarrow> Some (Inl DP_ERROR, st)
        | Inr _ \<Rightarrow> do {
            a \<leftarrow> ft_ctxs st c;
            Some (DP_OK, st\<lparr> ft_ctxs := (ft_ctxs st)(c \<mapsto> a\<lparr> ac_handle := True \<rparr>) \<rparr>) } })"

definition dp_install_rte_flow_with_indirect ::
  "bool \<Rightarrow> bool \<Rightarrow> uint16 \<Rightarrow> dp_flow \<Rightarrow> nat \<Rightarrow> nat \<Rightarrow> flow_state \<Rightarrow> (unit dp_result \<times> flow_state) option" where
  "dp_install_rte_flow_with_indirect handle rule pid df p c st = do {
     (ret, st) \<leftarrow> (if df_l4_type df = IPPROTO_TCP then dp_create_age_indirect_action handle p c st else Some (DP_OK, st));
     case ret of
       Inl _ \<Rightarrow> Some (Inl DP_ERROR, st)
     | Inr _ \<Rightarrow> do {
         (ret, st) \<leftarrow> dp_install_rte_flow_with_age rule pid p c st;
         case ret of
           Inr _ \<Rightarrow> Some (DP_OK, st)
         | Inl e \<Rightarrow>
           if df_l4_type df = IPPROTO_TCP then do {
             a \<leftarrow> ft_ctxs st c;
             (_, st) \<leftarrow> dp_del_rte_age_ctx p a st;
             Some (Inl e, st) }
           else Some (Inl e, st) } }"

text \<open>A rule with its age context, the context destroyed again when the rule
  cannot be installed.\<close>

definition offload_rule ::
  "flow_env \<Rightarrow> nat option \<Rightarrow> bool \<Rightarrow> bool \<Rightarrow> uint16 \<Rightarrow> dp_flow \<Rightarrow> nat \<Rightarrow> flow_state \<Rightarrow> (unit dp_result \<times> flow_state) option" where
  "offload_rule env mem handle rule pid df p st =
     (case mem of
       None \<Rightarrow> Some (Inl DP_ERROR, st)
     | Some c \<Rightarrow> do {
         st \<leftarrow> allocate_agectx mem st;
         (ret, st) \<leftarrow> dp_install_rte_flow_with_indirect handle rule pid df p c st;
         case ret of
           Inr _ \<Rightarrow> Some (DP_OK, st)
         | Inl _ \<Rightarrow> do {
             st \<leftarrow> dp_destroy_rte_flow_agectx env (Some c) st;
             Some (Inl DP_ERROR, st) } })"

section \<open>References\<close>

text \<open>
  A flow is referenced by the keys of the table and by age contexts.  In
  \<open>flow_ok held\<close> every flow has at least as many counted references as there are
  pointers to it, plus the references \<open>held\<close> by the running code; pointers lead
  to live memory, and the slots of a flow lead to contexts that point back.
\<close>

definition map_refs :: "('a \<rightharpoonup> 'b) \<Rightarrow> 'b \<Rightarrow> nat" where
  "map_refs t p = card {k. t k = Some p}"

definition ctx_owner :: "flow_state \<Rightarrow> nat \<rightharpoonup> nat" where
  "ctx_owner st c = Option.bind (ft_ctxs st c) ac_cntrack"

definition flow_refs :: "flow_state \<Rightarrow> nat \<Rightarrow> int" where
  "flow_refs st p = int (map_refs (ft_table st) p) + int (map_refs (ctx_owner st) p)"

definition ref_count :: "flow_state \<Rightarrow> nat \<Rightarrow> nat" where
  "ref_count st p = (case ft_heap st p of None \<Rightarrow> 0 | Some v \<Rightarrow> unat (fv_ref_count v))"

definition slots_ok :: "flow_state \<Rightarrow> bool" where
  "slots_ok st \<longleftrightarrow> (\<forall>p v. ft_heap st p = Some v \<longrightarrow>
     length (fv_age_ctxs v) = DP_FLOW_VAL_AGE_CTX_CAPACITY \<and> fv_ref_count v \<noteq> 0 \<and>
     (\<forall>i c. i < length (fv_age_ctxs v) \<longrightarrow> fv_age_ctxs v ! i = Some c \<longrightarrow>
       (\<exists>a. ft_ctxs st c = Some a \<and> ac_cntrack a = Some p \<and> unat (ac_ref_index a) = i)))"

definition pointers_ok :: "flow_state \<Rightarrow> bool" where
  "pointers_ok st \<longleftrightarrow> finite (dom (ft_table st)) \<and> finite (dom (ft_ctxs st)) \<and>
     ran (ft_table st) \<subseteq> dom (ft_heap st) \<and>
     ran (ctx_owner st) \<subseteq> dom (ft_heap st) \<and>
     (\<forall>p. ft_cached st = Some p \<longrightarrow> p \<in> dom (ft_heap st)) \<and>
     (ft_prev st \<noteq> None \<longrightarrow> ft_cached st \<noteq> None)"

definition flow_ok :: "(nat \<Rightarrow> int) \<Rightarrow> flow_state \<Rightarrow> bool" where
  "flow_ok held st \<longleftrightarrow> pointers_ok st \<and> slots_ok st \<and>
     (\<forall>p. flow_refs st p + held p \<le> int (ref_count st p))"

abbreviation flow_inv :: "flow_state \<Rightarrow> bool" where
  "flow_inv \<equiv> flow_ok (\<lambda>_. 0)"

text \<open>What removal and aging leave of a flow as it was.\<close>

definition flow_core :: "flow_value \<Rightarrow> flow_value" where
  "flow_core v = v\<lparr> fv_age_ctxs := [], fv_ref_count := 0 \<rparr>"

definition flow_cores :: "flow_state \<Rightarrow> nat \<rightharpoonup> flow_value" where
  "flow_cores st = map_option flow_core \<circ> ft_heap st"

lemma map_refs_upd: "finite (dom t) \<Longrightarrow> map_refs (t(k \<mapsto> p)) q \<le> map_refs t q + (if q = p then 1 else 0)"
proof -
  assume f: "finite (dom t)"
  then have fin: "finite {k'. t k' = Some q}" by (auto intro: finite_subset[of _ "dom t"])
  show ?thesis
  proof (cases "q = p")
    case True
    then have "{k'. (t(k \<mapsto> p)) k' = Some q} = insert k {k'. t k' = Some q}" by auto
    with True fin show ?thesis by (simp add: map_refs_def card_insert_if)
  next
    case False
    then have "{k'. (t(k \<mapsto> p)) k' = Some q} \<subseteq> {k'. t k' = Some q}" by (auto split: if_splits)
    with False fin show ?thesis by (simp add: map_refs_def card_mono)
  qed
qed

lemma map_refs_del: "finite (dom t) \<Longrightarrow> t k = Some p \<Longrightarrow>
    map_refs (t(k := None)) q + (if q = p then 1 else 0) = map_refs t q"
proof -
  assume f: "finite (dom t)" and k: "t k = Some p"
  then have fin: "finite {k'. t k' = Some q}" by (auto intro: finite_subset[of _ "dom t"])
  have "{k'. (t(k := None)) k' = Some q} = {k'. t k' = Some q} - {k}" by auto
  moreover have "k \<in> {k'. t k' = Some q} \<longleftrightarrow> q = p" using k by auto
  ultimately show ?thesis using fin card_Suc_Diff1[OF fin, of k] by (auto simp: map_refs_def)
qed

lemma map_refs_none: "t k = None \<Longrightarrow> map_refs (t(k := None)) q = map_refs t q"
  by (simp add: fun_upd_idem)

lemma map_refs_pos: "finite (dom t) \<Longrightarrow> t k = Some p \<Longrightarrow> map_refs t p > 0"
  using map_refs_del[of t k p p] by simp

lemma flow_okD:
  assumes "flow_ok held st"
  shows "pointers_ok st" "slots_ok st" "flow_refs st p + held p \<le> int (ref_count st p)"
    "finite (dom (ft_table st))" "finite (dom (ft_ctxs st))"
  using assms by (simp_all add: flow_ok_def pointers_ok_def)

lemma slots_okD:
  assumes "slots_ok st" "ft_heap st p = Some v"
  shows "length (fv_age_ctxs v) = DP_FLOW_VAL_AGE_CTX_CAPACITY" "fv_ref_count v \<noteq> 0"
    "i < length (fv_age_ctxs v) \<Longrightarrow> fv_age_ctxs v ! i = Some c \<Longrightarrow>
      \<exists>a. ft_ctxs st c = Some a \<and> ac_cntrack a = Some p \<and> unat (ac_ref_index a) = i"
  using assms unfolding slots_ok_def by blast+

lemma flow_ok_table_live: "flow_ok held st \<Longrightarrow> ft_table st k = Some p \<Longrightarrow> \<exists>v. ft_heap st p = Some v"
  by (auto simp: flow_ok_def pointers_ok_def ran_def)

lemma ctx_owner_simps [simp]:
  "ctx_owner (st\<lparr> ft_table := t \<rparr>) = ctx_owner st" "ctx_owner (st\<lparr> ft_heap := h \<rparr>) = ctx_owner st"
  "ctx_owner (st\<lparr> ft_nat := n \<rparr>) = ctx_owner st" "ctx_owner (dp_cntrack_flush_cache st) = ctx_owner st"
  by (simp_all add: ctx_owner_def dp_cntrack_flush_cache_def fun_eq_iff)

lemma finite_ctx_owner: "finite (dom (ft_ctxs st)) \<Longrightarrow> finite (dom (ctx_owner st))"
  by (rule finite_subset) (auto simp: ctx_owner_def split: bind_splits)

lemma flow_ok_flush [simp]: "flow_ok held st \<Longrightarrow> flow_ok held (dp_cntrack_flush_cache st)"
  unfolding flow_ok_def pointers_ok_def flow_refs_def
  by (simp add: slots_ok_def ref_count_def) (simp add: dp_cntrack_flush_cache_def)

lemma flow_ok_nat [simp]: "flow_ok held (st\<lparr> ft_nat := x \<rparr>) = flow_ok held st"
  by (simp add: flow_ok_def pointers_ok_def slots_ok_def flow_refs_def ref_count_def)

lemma flow_ok_mono: "flow_ok held st \<Longrightarrow> (\<And>p. held' p \<le> held p) \<Longrightarrow> flow_ok held' st"
  unfolding flow_ok_def by (meson add_left_mono order.trans)

lemma flow_ok_del_key:
  assumes "flow_ok held st" "ft_table st k = Some p"
  shows "flow_ok (held(p := held p + 1)) (st\<lparr> ft_table := (ft_table st)(k := None) \<rparr>)"
proof -
  let ?st = "st\<lparr> ft_table := (ft_table st)(k := None) \<rparr>"
  have "ran ((ft_table st)(k := None)) \<subseteq> ran (ft_table st)" by (auto simp: ran_def)
  then have "pointers_ok ?st" using flow_okD(1)[OF assms(1)] by (auto simp: pointers_ok_def)
  moreover have "slots_ok ?st" using flow_okD(2)[OF assms(1)] by (simp add: slots_ok_def)
  moreover have "flow_refs ?st q + (held(p := held p + 1)) q \<le> int (ref_count ?st q)" for q
    using map_refs_del[OF flow_okD(4)[OF assms(1)] assms(2), of q] flow_okD(3)[OF assms(1), of q]
    by (simp add: flow_refs_def ref_count_def split: if_splits)
  ultimately show ?thesis by (simp only: flow_ok_def simp_thms)
qed

lemma flow_ok_add_key:
  assumes "flow_ok held st" "ft_heap st p \<noteq> None"
  shows "flow_ok (held(p := held p - 1)) (st\<lparr> ft_table := (ft_table st)(k \<mapsto> p) \<rparr>)"
proof -
  let ?st = "st\<lparr> ft_table := (ft_table st)(k \<mapsto> p) \<rparr>"
  have "ran ((ft_table st)(k \<mapsto> p)) \<subseteq> insert p (ran (ft_table st))" by (auto simp: ran_def)
  then have "pointers_ok ?st" using flow_okD(1)[OF assms(1)] assms(2) by (auto simp: pointers_ok_def)
  moreover have "slots_ok ?st" using flow_okD(2)[OF assms(1)] by (simp add: slots_ok_def)
  moreover have "flow_refs ?st q + (held(p := held p - 1)) q \<le> int (ref_count ?st q)" for q
    using map_refs_upd[OF flow_okD(4)[OF assms(1)], of k p q] flow_okD(3)[OF assms(1), of q]
    by (simp add: flow_refs_def ref_count_def split: if_splits)
  ultimately show ?thesis by (simp only: flow_ok_def simp_thms)
qed

lemma flow_ok_set_value:
  assumes ok: "flow_ok held st" and p: "ft_heap st p = Some v"
    and v': "fv_age_ctxs v' = fv_age_ctxs v" "fv_ref_count v' \<noteq> 0"
  shows "flow_ok (held(p := held p + int (unat (fv_ref_count v')) - int (unat (fv_ref_count v))))
    (st\<lparr> ft_heap := (ft_heap st)(p \<mapsto> v') \<rparr>)"
proof -
  let ?st = "st\<lparr> ft_heap := (ft_heap st)(p \<mapsto> v') \<rparr>"
  have "pointers_ok ?st" using flow_okD(1)[OF ok] p by (auto simp: pointers_ok_def)
  moreover have "slots_ok ?st" using flow_okD(2)[OF ok] p v' by (simp add: slots_ok_def)
  moreover have "flow_refs ?st q + (held(p := held p + int (unat (fv_ref_count v')) - int (unat (fv_ref_count v)))) q
      \<le> int (ref_count ?st q)" for q
    using flow_okD(3)[OF ok, of q] p by (cases "q = p") (simp_all add: flow_refs_def ref_count_def)
  ultimately show ?thesis by (simp only: flow_ok_def simp_thms)
qed

text \<open>The last reference frees the flow, any other leaves it.\<close>

lemma flow_refs_zero:
  assumes "flow_ok held st" "flow_refs st p = 0"
  shows "p \<notin> ran (ft_table st)" "p \<notin> ran (ctx_owner st)"
proof -
  have "map_refs (ft_table st) p = 0" "map_refs (ctx_owner st) p = 0"
    using assms(2) by (simp_all add: flow_refs_def)
  then show "p \<notin> ran (ft_table st)" "p \<notin> ran (ctx_owner st)"
    using map_refs_pos[OF flow_okD(4)[OF assms(1)]] map_refs_pos[OF finite_ctx_owner[OF flow_okD(5)[OF assms(1)]]]
    by (force simp: ran_def)+
qed

lemma flow_refs_nonneg: "flow_refs st p \<ge> 0"
  by (simp add: flow_refs_def)

lemma flow_ok_free:
  assumes ok: "flow_ok held st" and v: "ft_heap st p = Some v" "fv_ref_count v = 1" and h: "held p \<ge> 1"
  shows "flow_ok (held(p := held p - 1)) (rte_free_flow p (dp_cntrack_flush_cache st))"
proof -
  let ?st = "rte_free_flow p (dp_cntrack_flush_cache st)"
  have z: "flow_refs st p = 0" "held p = 1"
    using flow_okD(3)[OF ok, of p] flow_refs_nonneg[of st p] v h by (simp_all add: ref_count_def)
  have own: "ctx_owner ?st = ctx_owner st"
    by (simp add: rte_free_flow_def dp_cntrack_flush_cache_def ctx_owner_def fun_eq_iff)
  have "pointers_ok ?st"
    using flow_okD(1)[OF ok] flow_refs_zero[OF ok z(1)] own
    by (auto simp: pointers_ok_def rte_free_flow_def dp_cntrack_flush_cache_def)
  moreover have "slots_ok ?st"
    using flow_okD(2)[OF ok] by (simp add: slots_ok_def rte_free_flow_def dp_cntrack_flush_cache_def)
  moreover have "flow_refs ?st q + (held(p := held p - 1)) q \<le> int (ref_count ?st q)" for q
    using flow_okD(3)[OF ok, of q] z own
    by (cases "q = p") (simp_all add: flow_refs_def ref_count_def rte_free_flow_def dp_cntrack_flush_cache_def)
  ultimately show ?thesis by (simp only: flow_ok_def simp_thms)
qed

lemma ref_dec_unat: "(c :: uint32) \<noteq> 0 \<Longrightarrow> int (unat (c - 1)) = int (unat c) - 1"
  using unat_minus_one[of c] unat_gt_0[of c] by linarith

lemma flow_ref_dec_ok:
  assumes ok: "flow_ok held st" and h: "held p \<ge> 1"
  obtains st' where "flow_ref_dec env p st = Some st'" "flow_ok (held(p := held p - 1)) st'"
    "ft_table st' = ft_table st" "ft_ctxs st' = ft_ctxs st" "\<And>q. q \<noteq> p \<Longrightarrow> ft_heap st' q = ft_heap st q"
    "\<And>v'. ft_heap st' p = Some v' \<Longrightarrow> \<exists>v. ft_heap st p = Some v \<and> v' = v\<lparr> fv_ref_count := fv_ref_count v - 1 \<rparr>"
    "ft_prev st' = None \<and> ft_cached st' = None \<or> ft_prev st' = ft_prev st \<and> ft_cached st' = ft_cached st"
    "ft_key_cache st' = ft_key_cache st" "ft_curr st' = ft_curr st"
proof -
  obtain v where v: "ft_heap st p = Some v"
    using flow_okD(3)[OF ok, of p] flow_refs_nonneg[of st p] h
    by (cases "ft_heap st p") (auto simp: ref_count_def)
  have nz: "fv_ref_count v \<noteq> 0" using flow_okD(2)[OF ok] v by (auto simp: slots_ok_def)
  show thesis
  proof (cases "fv_ref_count v - 1 = 0")
    case True
    then have one: "fv_ref_count v = 1" by simp
    let ?w = "v\<lparr> fv_ref_count := 0 \<rparr>"
    let ?st = "dp_free_flow env p ?w (st\<lparr> ft_heap := (ft_heap st)(p \<mapsto> ?w) \<rparr>)"
    have "?st = rte_free_flow p (dp_cntrack_flush_cache (st\<lparr> ft_nat := dp_free_network_nat_port env ?w (ft_nat st) \<rparr>))"
      by (simp add: dp_free_flow_def rte_free_flow_def dp_cntrack_flush_cache_def)
    moreover have "flow_ok (held(p := held p - 1)) (rte_free_flow p (dp_cntrack_flush_cache (st\<lparr> ft_nat := dp_free_network_nat_port env ?w (ft_nat st) \<rparr>)))"
      by (rule flow_ok_free[where v = v]) (use ok v one h in simp_all)
    ultimately have "flow_ok (held(p := held p - 1)) ?st" by simp
    then show thesis
      using that[of ?st] v one
      by (simp add: flow_ref_dec_def dp_free_flow_def rte_free_flow_def dp_cntrack_flush_cache_def)
  next
    case False
    let ?w = "v\<lparr> fv_ref_count := fv_ref_count v - 1 \<rparr>"
    let ?st = "st\<lparr> ft_heap := (ft_heap st)(p \<mapsto> ?w) \<rparr>"
    have e: "held p + int (unat (fv_ref_count ?w)) - int (unat (fv_ref_count v)) = held p - 1"
      using ref_dec_unat[OF nz] by simp
    have "flow_ok (held(p := held p - 1)) ?st"
      using flow_ok_set_value[OF ok v, of ?w, unfolded e] False by simp
    then show thesis using that[of ?st] v False by (simp add: flow_ref_dec_def)
  qed
qed

lemma flow_ref_inc_ok:
  assumes ok: "flow_ok held st" and v: "ft_heap st p = Some v" and c: "fv_ref_count v \<noteq> - 1"
  shows "\<exists>st'. flow_ref_inc p st = Some st' \<and> flow_ok (held(p := held p + 1)) st'
    \<and> st' = st\<lparr> ft_heap := (ft_heap st)(p \<mapsto> v\<lparr> fv_ref_count := fv_ref_count v + 1 \<rparr>) \<rparr>"
proof -
  have nz: "fv_ref_count v \<noteq> 0" using flow_okD(2)[OF ok] v by (auto simp: slots_ok_def)
  have nz': "fv_ref_count v + 1 \<noteq> 0" using c by (metis add_right_cancel add.left_inverse)
  then have "int (unat (fv_ref_count v + 1)) = int (unat (fv_ref_count v)) + 1"
    using ref_dec_unat[OF nz'] by simp
  then show ?thesis
    using flow_ok_set_value[OF ok v, of "v\<lparr> fv_ref_count := fv_ref_count v + 1 \<rparr>"] v nz nz'
    by (simp add: flow_ref_inc_def)
qed

text \<open>Age contexts.\<close>

lemma ctx_owner_upd: "ctx_owner (st\<lparr> ft_ctxs := (ft_ctxs st)(c := x) \<rparr>) = (ctx_owner st)(c := Option.bind x ac_cntrack)"
  by (auto simp: ctx_owner_def fun_eq_iff)

lemma flow_ok_set_slots:
  assumes ok: "flow_ok held st" and p: "ft_heap st p = Some v" and l: "length cs = DP_FLOW_VAL_AGE_CTX_CAPACITY"
    and s: "\<And>i c. i < length cs \<Longrightarrow> cs ! i = Some c \<Longrightarrow>
      \<exists>a. ft_ctxs st c = Some a \<and> ac_cntrack a = Some p \<and> unat (ac_ref_index a) = i"
  shows "flow_ok held (st\<lparr> ft_heap := (ft_heap st)(p \<mapsto> v\<lparr> fv_age_ctxs := cs \<rparr>) \<rparr>)"
proof -
  let ?st = "st\<lparr> ft_heap := (ft_heap st)(p \<mapsto> v\<lparr> fv_age_ctxs := cs \<rparr>) \<rparr>"
  have "pointers_ok ?st" using flow_okD(1)[OF ok] p by (auto simp: pointers_ok_def)
  moreover have "slots_ok ?st" using flow_okD(2)[OF ok] p l s by (simp add: slots_ok_def)
  moreover have "flow_refs ?st q + held q \<le> int (ref_count ?st q)" for q
    using flow_okD(3)[OF ok, of q] p by (cases "q = p") (simp_all add: flow_refs_def ref_count_def)
  ultimately show ?thesis by (simp only: flow_ok_def simp_thms)
qed

text \<open>Freeing a context that no slot leads to gives its reference back.\<close>

definition slot_free :: "nat \<Rightarrow> flow_state \<Rightarrow> bool" where
  "slot_free c st \<longleftrightarrow> (\<forall>p v. ft_heap st p = Some v \<longrightarrow> Some c \<notin> set (fv_age_ctxs v))"

lemma flow_ok_free_ctx:
  assumes ok: "flow_ok held st" and c: "ctx_owner st c = Some p" and s: "slot_free c st"
  shows "flow_ok (held(p := held p + 1)) (st\<lparr> ft_ctxs := (ft_ctxs st)(c := None) \<rparr>)"
proof -
  let ?st = "st\<lparr> ft_ctxs := (ft_ctxs st)(c := None) \<rparr>"
  have own: "ctx_owner ?st = (ctx_owner st)(c := None)" by (simp add: ctx_owner_upd)
  have "ran ((ctx_owner st)(c := None)) \<subseteq> ran (ctx_owner st)" by (auto simp: ran_def)
  then have "pointers_ok ?st" using flow_okD(1)[OF ok] own by (auto simp: pointers_ok_def)
  moreover have "slots_ok ?st"
    unfolding slots_ok_def
  proof (intro allI impI conjI)
    fix q v assume q: "ft_heap ?st q = Some v"
    then have q': "ft_heap st q = Some v" by simp
    show "length (fv_age_ctxs v) = DP_FLOW_VAL_AGE_CTX_CAPACITY" "fv_ref_count v \<noteq> 0"
      using flow_okD(2)[OF ok] q' by (auto simp: slots_ok_def)
    fix i d assume i: "i < length (fv_age_ctxs v)" "fv_age_ctxs v ! i = Some d"
    then have "d \<noteq> c" using s q' nth_mem[OF i(1)] by (auto simp: slot_free_def)
    moreover have "\<exists>a. ft_ctxs st d = Some a \<and> ac_cntrack a = Some q \<and> unat (ac_ref_index a) = i"
      by (rule slots_okD(3)[OF flow_okD(2)[OF ok] q' i])
    ultimately show "\<exists>a. ft_ctxs ?st d = Some a \<and> ac_cntrack a = Some q \<and> unat (ac_ref_index a) = i" by simp
  qed
  moreover have "flow_refs ?st q + (held(p := held p + 1)) q \<le> int (ref_count ?st q)" for q
    using map_refs_del[OF finite_ctx_owner[OF flow_okD(5)[OF ok]] c, of q] flow_okD(3)[OF ok, of q] own
    by (simp add: flow_refs_def ref_count_def split: if_splits)
  ultimately show ?thesis by (simp only: flow_ok_def simp_thms)
qed

lemma slot_free_clear:
  assumes ok: "flow_ok held st" and c: "ft_ctxs st c = Some a" "ac_cntrack a = Some p" and p: "ft_heap st p = Some v"
  shows "slot_free c (st\<lparr> ft_heap := (ft_heap st)(p \<mapsto> v\<lparr> fv_age_ctxs := (fv_age_ctxs v)[unat (ac_ref_index a) := None] \<rparr>) \<rparr>)"
proof -
  have own: "q = p \<and> unat (ac_ref_index a) = i"
    if "ft_heap st q = Some w" "i < length (fv_age_ctxs w)" "fv_age_ctxs w ! i = Some c" for q w i
    using slots_okD(3)[OF flow_okD(2)[OF ok] that] c by auto
  have "Some c \<notin> set (fv_age_ctxs w)" if "ft_heap st q = Some w" "q \<noteq> p" for q w
    using own[OF that(1)] that(2) by (metis in_set_conv_nth)
  moreover have "Some c \<notin> set ((fv_age_ctxs v)[unat (ac_ref_index a) := None])"
    using own[OF p] by (metis in_set_conv_nth length_list_update nth_list_update_eq nth_list_update_neq option.discI)
  ultimately show ?thesis by (simp add: slot_free_def)
qed

lemma flow_ok_free_loose_ctx:
  assumes ok: "flow_ok held st" and c: "ft_ctxs st c = Some a" "ac_cntrack a = None"
  shows "flow_ok held (st\<lparr> ft_ctxs := (ft_ctxs st)(c := None) \<rparr>)"
proof -
  let ?st = "st\<lparr> ft_ctxs := (ft_ctxs st)(c := None) \<rparr>"
  have own: "ctx_owner ?st = ctx_owner st" using c by (auto simp: ctx_owner_upd ctx_owner_def fun_eq_iff)
  have "pointers_ok ?st" using flow_okD(1)[OF ok] own by (auto simp: pointers_ok_def)
  moreover have "slots_ok ?st" using flow_okD(2)[OF ok] c by (fastforce simp: slots_ok_def)
  moreover have "flow_refs ?st q + held q \<le> int (ref_count ?st q)" for q
    using flow_okD(3)[OF ok, of q] own by (simp add: flow_refs_def ref_count_def)
  ultimately show ?thesis by (simp only: flow_ok_def simp_thms)
qed

text \<open>What aging and removal keep: the table but for deleted keys, and of a flow
  that is still there everything but its slots and its count.\<close>

definition cores_kept :: "flow_state \<Rightarrow> flow_state \<Rightarrow> bool" where
  "cores_kept st st' \<longleftrightarrow> (\<forall>p v'. ft_heap st' p = Some v' \<longrightarrow> (\<exists>v. ft_heap st p = Some v \<and> flow_core v' = flow_core v))"

lemma cores_kept_refl [simp]: "cores_kept st st"
  by (simp add: cores_kept_def)

lemma cores_kept_trans: "cores_kept a b \<Longrightarrow> cores_kept b c \<Longrightarrow> cores_kept a c"
  unfolding cores_kept_def by metis

lemma flow_core_simps [simp]:
  "flow_core (v\<lparr> fv_ref_count := c \<rparr>) = flow_core v" "flow_core (v\<lparr> fv_age_ctxs := cs \<rparr>) = flow_core v"
  by (simp_all add: flow_core_def)

lemma flow_ref_dec_ctxs:
  "flow_ref_dec env p (st\<lparr> ft_ctxs := x \<rparr>) = map_option (\<lambda>s. s\<lparr> ft_ctxs := x \<rparr>) (flow_ref_dec env p st)"
  by (cases "ft_heap st p")
    (simp_all add: flow_ref_dec_def dp_free_flow_def rte_free_flow_def dp_cntrack_flush_cache_def Let_def)

lemma dp_del_rte_age_ctx_ok:
  assumes "ft_heap st p = Some v"
  shows "\<exists>ret. dp_del_rte_age_ctx p a st =
    Some (ret, st\<lparr> ft_heap := (ft_heap st)(p \<mapsto> v\<lparr> fv_age_ctxs := (fv_age_ctxs v)[unat (ac_ref_index a) := None] \<rparr>) \<rparr>)"
proof (cases "unat (ac_ref_index a) \<ge> length (fv_age_ctxs v)")
  case True
  then have "v\<lparr> fv_age_ctxs := (fv_age_ctxs v)[unat (ac_ref_index a) := None] \<rparr> = v"
    by (cases v) (simp add: list_update_beyond)
  then have "st\<lparr> ft_heap := (ft_heap st)(p \<mapsto> v\<lparr> fv_age_ctxs := (fv_age_ctxs v)[unat (ac_ref_index a) := None] \<rparr>) \<rparr> = st"
    using assms by (simp add: fun_upd_idem)
  with True assms show ?thesis by (simp add: dp_del_rte_age_ctx_def)
qed (use assms in \<open>simp add: dp_del_rte_age_ctx_def\<close>)

lemma map_option_ctxs_id: "map_option (\<lambda>s. s\<lparr> ft_ctxs := x \<rparr>) (Some s) = Some s' \<Longrightarrow> ft_ctxs s' = x"
  by auto

lemma dp_destroy_ok:
  assumes ok: "flow_ok held st" and c: "ft_ctxs st c \<noteq> None" and h: "\<And>p. held p \<ge> 0"
  obtains st' where "dp_destroy_rte_flow_agectx env (Some c) st = Some st'" "flow_ok held st'"
    "ft_table st' = ft_table st" "ft_ctxs st' = (ft_ctxs st)(c := None)" "cores_kept st st'"
proof -
  obtain a where a: "ft_ctxs st c = Some a" using c by auto
  show thesis
  proof (cases "ac_cntrack a")
    case None
    then show thesis
      using that[of "st\<lparr> ft_ctxs := (ft_ctxs st)(c := None) \<rparr>"] flow_ok_free_loose_ctx[OF ok a] a
      by (simp add: dp_destroy_rte_flow_agectx_def cores_kept_def)
  next
    case (Some p)
    then have own: "ctx_owner st c = Some p" using a by (simp add: ctx_owner_def)
    then obtain v where v: "ft_heap st p = Some v"
      using flow_okD(1)[OF ok] by (auto simp: pointers_ok_def ran_def)
    let ?cs = "(fv_age_ctxs v)[unat (ac_ref_index a) := None]"
    let ?s1 = "st\<lparr> ft_heap := (ft_heap st)(p \<mapsto> v\<lparr> fv_age_ctxs := ?cs \<rparr>) \<rparr>"
    let ?s2 = "?s1\<lparr> ft_ctxs := (ft_ctxs st)(c := None) \<rparr>"
    note sl = slots_okD[OF flow_okD(2)[OF ok] v]
    have nth: "fv_age_ctxs v ! i = Some d" if "i < length ?cs" "?cs ! i = Some d" for i d
      using that by (cases "i = unat (ac_ref_index a)") auto
    have "flow_ok held ?s1"
      by (rule flow_ok_set_slots[OF ok v]) (use sl(1) sl(3)[OF _ nth] in auto)
    moreover have "ctx_owner ?s1 c = Some p" using own by simp
    ultimately have ok2: "flow_ok (held(p := held p + 1)) ?s2"
      using flow_ok_free_ctx[of held ?s1 c p] slot_free_clear[OF ok a Some v] by simp
    obtain st' where st': "flow_ref_dec env p ?s2 = Some st'" "flow_ok ((held(p := held p + 1))(p := (held(p := held p + 1)) p - 1)) st'"
      "ft_table st' = ft_table ?s2" "ft_ctxs st' = ft_ctxs ?s2" "\<And>q. q \<noteq> p \<Longrightarrow> ft_heap st' q = ft_heap ?s2 q"
      "\<And>v'. ft_heap st' p = Some v' \<Longrightarrow> \<exists>v. ft_heap ?s2 p = Some v \<and> v' = v\<lparr> fv_ref_count := fv_ref_count v - 1 \<rparr>"
      by (rule flow_ref_dec_ok[OF ok2, of p]) (use h[of p] in auto)
    obtain s3 where s3: "flow_ref_dec env p ?s1 = Some s3" "st' = s3\<lparr> ft_ctxs := (ft_ctxs st)(c := None) \<rparr>"
      using st'(1) flow_ref_dec_ctxs[where env = env and p = p and st = ?s1 and x = "(ft_ctxs st)(c := None)"] by auto
    have "map_option (\<lambda>s. s\<lparr> ft_ctxs := ft_ctxs st \<rparr>) (Some s3) = Some s3"
      using flow_ref_dec_ctxs[where env = env and p = p and st = ?s1 and x = "ft_ctxs st"] s3(1) by simp
    then have ctxs: "ft_ctxs s3 = ft_ctxs st" by (rule map_option_ctxs_id)
    have run: "dp_destroy_rte_flow_agectx env (Some c) st = Some st'"
      using dp_del_rte_age_ctx_ok[OF v, of a] a Some s3 ctxs
      by (auto simp: dp_destroy_rte_flow_agectx_def)
    have "cores_kept st st'"
      unfolding cores_kept_def
    proof (intro allI impI)
      fix q w assume w: "ft_heap st' q = Some w"
      show "\<exists>u. ft_heap st q = Some u \<and> flow_core w = flow_core u"
      proof (cases "q = p")
        case True
        with st'(6) w v show ?thesis by auto
      next
        case False
        with st'(5)[OF False] w show ?thesis by (auto dest: sym)
      qed
    qed
    with that[OF run] st'(2,3,4) show thesis by simp
  qed
qed

text \<open>A walk over the slots of a flow that is in the table.\<close>

lemma remove_ctxs_ok:
  assumes "flow_ok held st" "\<And>p. held p \<ge> 0" "ft_table st k = Some p" "\<forall>i\<in>set is. i < DP_FLOW_VAL_AGE_CTX_CAPACITY"
  shows "\<exists>st'. remove_ctxs env p is st = Some st' \<and> flow_ok held st' \<and> ft_table st' = ft_table st \<and> cores_kept st st'"
  using assms
proof (induction "is" arbitrary: st)
  case (Cons i "is")
  obtain v where v: "ft_heap st p = Some v" using flow_ok_table_live[OF Cons.prems(1,3)] by auto
  note sl = slots_okD[OF flow_okD(2)[OF Cons.prems(1)] v]
  show ?case
  proof (cases "fv_age_ctxs v ! i")
    case None
    then show ?thesis using Cons.IH[OF Cons.prems(1,2,3)] Cons.prems(4) v
      by (simp add: dp_destroy_rte_flow_agectx_def)
  next
    case (Some c)
    then have c: "ft_ctxs st c \<noteq> None" using sl(1) sl(3)[of i c] Cons.prems(4) by auto
    obtain s1 where s1: "dp_destroy_rte_flow_agectx env (Some c) st = Some s1" "flow_ok held s1"
      "ft_table s1 = ft_table st" "cores_kept st s1"
      by (rule dp_destroy_ok[OF Cons.prems(1) c Cons.prems(2)])
    have "ft_table s1 k = Some p" using Cons.prems(3) s1(3) by simp
    from Cons.IH[OF s1(2) Cons.prems(2) this] Cons.prems(4) v Some s1 show ?thesis
      by (auto intro: cores_kept_trans)
  qed
qed simp

lemma query_ctxs_ok:
  assumes "flow_ok held st" "\<And>p. held p \<ge> 0" "ft_table st k = Some p" "\<forall>i\<in>set is. i < DP_FLOW_VAL_AGE_CTX_CAPACITY"
  shows "\<exists>ret st'. query_ctxs env query p is st = Some (ret, st') \<and> flow_ok held st' \<and> ft_table st' = ft_table st \<and> cores_kept st st'"
  using assms
proof (induction "is" arbitrary: st)
  case (Cons i "is")
  obtain v where v: "ft_heap st p = Some v" using flow_ok_table_live[OF Cons.prems(1,3)] by auto
  note sl = slots_okD[OF flow_okD(2)[OF Cons.prems(1)] v]
  have rest: "\<exists>ret st'. query_ctxs env query p is st = Some (ret, st') \<and> flow_ok held st' \<and> ft_table st' = ft_table st \<and> cores_kept st st'"
    using Cons.IH[OF Cons.prems(1,2,3)] Cons.prems(4) by simp
  show ?case
  proof (cases "fv_age_ctxs v ! i")
    case None
    then show ?thesis using rest v by simp
  next
    case (Some c)
    then obtain a where a: "ft_ctxs st c = Some a" using sl(1) sl(3)[of i c] Cons.prems(4) by auto
    then have c: "ft_ctxs st c \<noteq> None" by simp
    obtain s1 where s1: "dp_destroy_rte_flow_agectx env (Some c) st = Some s1" "flow_ok held s1"
      "ft_table s1 = ft_table st" "cores_kept st s1"
      by (rule dp_destroy_ok[OF Cons.prems(1) c Cons.prems(2)])
    have "ft_table s1 k = Some p" using Cons.prems(3) s1(3) by simp
    then have "\<exists>ret st'. query_ctxs env query p is s1 = Some (ret, st') \<and> flow_ok held st' \<and> ft_table st' = ft_table st \<and> cores_kept st st'"
      using Cons.IH[OF s1(2) Cons.prems(2)] Cons.prems(4) s1(3,4) by (auto intro: cores_kept_trans)
    with rest v Some a s1(1) Cons.prems(1) show ?thesis by (auto split: sum.splits)
  qed
qed simp

lemma dp_process_aged_flows_ok:
  assumes "flow_ok held st" "\<And>p. held p \<ge> 0" "\<forall>c. Some c \<in> set cs \<longrightarrow> ft_ctxs st c \<noteq> None" "distinct (filter (\<lambda>c. c \<noteq> None) cs)"
  shows "\<exists>st'. dp_process_aged_flows env cs st = Some st' \<and> flow_ok held st' \<and> ft_table st' = ft_table st \<and> cores_kept st st'"
  using assms
proof (induction cs arbitrary: st)
  case (Cons x cs)
  show ?case
  proof (cases x)
    case None
    then show ?thesis using Cons by (simp add: dp_destroy_rte_flow_agectx_def)
  next
    case (Some c)
    then have c: "ft_ctxs st c \<noteq> None" using Cons.prems(3) by simp
    obtain s1 where s1: "dp_destroy_rte_flow_agectx env (Some c) st = Some s1" "flow_ok held s1"
      "ft_table s1 = ft_table st" "ft_ctxs s1 = (ft_ctxs st)(c := None)" "cores_kept st s1"
      by (rule dp_destroy_ok[OF Cons.prems(1) c Cons.prems(2)])
    have "\<forall>d. Some d \<in> set cs \<longrightarrow> ft_ctxs s1 d \<noteq> None" "distinct (filter (\<lambda>c. c \<noteq> None) cs)"
      using Cons.prems(3,4) Some s1(4) by auto
    from Cons.IH[OF s1(2) Cons.prems(2) this] Some s1 show ?thesis
      by (auto intro: cores_kept_trans)
  qed
qed simp

definition dropped :: "(flow_key \<Rightarrow> flow_value \<Rightarrow> bool) \<Rightarrow> flow_key set \<Rightarrow> flow_state \<Rightarrow> flow_key \<rightharpoonup> nat" where
  "dropped cond K st k = (case ft_table st k of None \<Rightarrow> None
     | Some p \<Rightarrow> if k \<in> K \<and> (\<exists>v. ft_heap st p = Some v \<and> cond k v) then None else Some p)"

definition expired :: "uint64 \<Rightarrow> uint64 \<Rightarrow> flow_value \<Rightarrow> bool" where
  "expired now hz v \<longleftrightarrow> now - fv_timestamp v > hz * ucast (fv_timeout_value v)"

locale flow_tables =
  fixes env :: flow_env
  assumes ft_ht: "hash_table (fe_tbl env)"

sublocale flow_tables \<subseteq> ft: hash_table "fe_tbl env"
  by (rule ft_ht)

context flow_tables
begin

lemma dp_delete_flow_ok:
  assumes ok: "flow_ok held st" and h: "\<And>p. held p \<ge> 0" and k: "ft_table st k = Some p"
  obtains st' where "dp_delete_flow env k p st = Some (DP_OK, st')" "flow_ok held st'"
    "ft_table st' = (ft_table st)(k := None)" "ft_ctxs st' = ft_ctxs st" "cores_kept st st'"
    "ft_prev st' = None" "ft_cached st' = None" "ft_key_cache st' = ft_key_cache st" "ft_curr st' = ft_curr st"
    "flow_refs st p + held p \<ge> 2 \<Longrightarrow> ft_heap st' p \<noteq> None"
proof -
  let ?st = "st\<lparr> ft_table := (ft_table st)(k := None) \<rparr>"
  have ok1: "flow_ok (held(p := held p + 1)) ?st" by (rule flow_ok_del_key[OF ok k])
  obtain s1 where s1: "flow_ref_dec env p ?st = Some s1" "flow_ok ((held(p := held p + 1))(p := (held(p := held p + 1)) p - 1)) s1"
    "ft_table s1 = ft_table ?st" "ft_ctxs s1 = ft_ctxs ?st" "\<And>q. q \<noteq> p \<Longrightarrow> ft_heap s1 q = ft_heap ?st q"
    "\<And>v'. ft_heap s1 p = Some v' \<Longrightarrow> \<exists>v. ft_heap ?st p = Some v \<and> v' = v\<lparr> fv_ref_count := fv_ref_count v - 1 \<rparr>"
    "ft_key_cache s1 = ft_key_cache ?st" "ft_curr s1 = ft_curr ?st"
    by (rule flow_ref_dec_ok[OF ok1, of p]) (use h[of p] in auto)
  have cores: "cores_kept st (dp_cntrack_flush_cache s1)"
    unfolding cores_kept_def
  proof (intro allI impI)
    fix q w assume w: "ft_heap (dp_cntrack_flush_cache s1) q = Some w"
    show "\<exists>u. ft_heap st q = Some u \<and> flow_core w = flow_core u"
    proof (cases "q = p")
      case True
      with s1(6) w show ?thesis by (auto simp: dp_cntrack_flush_cache_def)
    next
      case False
      with s1(5)[OF False] w show ?thesis by (auto simp: dp_cntrack_flush_cache_def dest: sym)
    qed
  qed
  have live: "ft_heap s1 p \<noteq> None" if "flow_refs st p + held p \<ge> 2"
  proof
    assume n: "ft_heap s1 p = None"
    have "flow_refs s1 p + held p \<le> 0" using flow_okD(3)[OF s1(2), of p] n by (simp add: ref_count_def)
    moreover have "ctx_owner s1 = ctx_owner st" using s1(4) by (simp add: ctx_owner_def fun_eq_iff)
    then have "flow_refs s1 p = flow_refs st p - 1"
      using s1(3) map_refs_del[OF flow_okD(4)[OF ok] k, of p] by (simp add: flow_refs_def)
    ultimately show False using that by simp
  qed
  have "dp_delete_flow env k p st = Some (DP_OK, dp_cntrack_flush_cache s1)"
    using s1(1) k by (simp add: dp_delete_flow_def ft.del_key)
  from that[OF this] show thesis
    using s1 cores live by (simp add: dp_cntrack_flush_cache_def) (simp add: dp_cntrack_flush_cache_def[symmetric])
qed

lemma dp_remove_flow_ok:
  assumes "flow_ok held st" "\<And>p. held p \<ge> 0" "ft_table st k = Some p"
  shows "\<exists>st'. dp_remove_flow env p k st = Some st' \<and> flow_ok held st' \<and> ft_table st' = (ft_table st)(k := None) \<and> cores_kept st st'"
proof -
  obtain s1 where s1: "(if conf_offload_enabled (fe_conf env) then dp_rte_flow_remove env p st else Some st) = Some s1"
    "flow_ok held s1" "ft_table s1 = ft_table st" "cores_kept st s1"
    using remove_ctxs_ok[OF assms, of "[0..<DP_FLOW_VAL_AGE_CTX_CAPACITY]" env] assms(1)
    by (cases "conf_offload_enabled (fe_conf env)") (auto simp: dp_rte_flow_remove_def)
  have k: "ft_table s1 k = Some p" using s1(3) assms(3) by simp
  obtain s2 where "dp_delete_flow env k p s1 = Some (DP_OK, s2)" "flow_ok held s2"
    "ft_table s2 = (ft_table s1)(k := None)" "cores_kept s1 s2"
    by (rule dp_delete_flow_ok[OF s1(2) assms(2) k])
  with s1 show ?thesis by (auto simp: dp_remove_flow_def intro: cores_kept_trans)
qed

text \<open>Walks that drop the entries of the flows satisfying a condition.\<close>

lemma dropped_empty [simp]: "dropped cond {} st = ft_table st"
  by (auto simp: dropped_def fun_eq_iff split: option.splits)

lemma cores_kept_live:
  assumes "cores_kept st st'" "flow_ok held st'" "ft_table st' k = Some p"
  obtains v v' where "ft_heap st p = Some v" "ft_heap st' p = Some v'" "flow_core v' = flow_core v"
  using assms flow_ok_table_live[OF assms(2,3)] unfolding cores_kept_def by blast

lemma walk_drops:
  assumes f: "\<And>k p v st. flow_ok held st \<Longrightarrow> ft_table st k = Some p \<Longrightarrow> ft_heap st p = Some v \<Longrightarrow>
      \<exists>st'. f k p st = Some st' \<and> flow_ok held st' \<and> cores_kept st st' \<and>
        ft_table st' = (if cond k v then (ft_table st)(k := None) else ft_table st)"
    and core: "\<And>k v w. flow_core v = flow_core w \<Longrightarrow> cond k v = cond k w"
  shows "flow_ok held st \<Longrightarrow> \<exists>st'. walk_flows f keys st = Some st' \<and> flow_ok held st' \<and> cores_kept st st' \<and>
    ft_table st' = dropped cond (set keys) st"
proof (induction keys arbitrary: st)
  case (Cons k keys)
  show ?case
  proof (cases "ft_table st k")
    case None
    then have "dropped cond (set (k # keys)) st = dropped cond (set keys) st"
      by (auto simp: dropped_def fun_eq_iff split: option.splits)
    with None Cons show ?thesis by simp
  next
    case (Some p)
    then obtain v where v: "ft_heap st p = Some v" using flow_ok_table_live[OF Cons.prems] by auto
    obtain s1 where s1: "f k p st = Some s1" "flow_ok held s1" "cores_kept st s1"
      "ft_table s1 = (if cond k v then (ft_table st)(k := None) else ft_table st)"
      using f[OF Cons.prems Some v] by auto
    obtain s2 where s2: "walk_flows f keys s1 = Some s2" "flow_ok held s2" "cores_kept s1 s2"
      "ft_table s2 = dropped cond (set keys) s1"
      using Cons.IH[OF s1(2)] by auto
    have "dropped cond (set keys) s1 k' = dropped cond (set (k # keys)) st k'" for k'
    proof (cases "ft_table s1 k'")
      case None
      then show ?thesis using s1(4) Some v by (auto simp: dropped_def split: if_splits option.splits)
    next
      case (Some q)
      obtain w w' where w: "ft_heap st q = Some w" "ft_heap s1 q = Some w'" "flow_core w' = flow_core w"
        by (rule cores_kept_live[OF s1(3,2) Some])
      have "k' = k \<Longrightarrow> \<not> cond k v \<and> q = p" using Some s1(4) \<open>ft_table st k = Some p\<close> by (auto split: if_splits)
      moreover have "ft_table st k' = Some q" using Some s1(4) by (auto split: if_splits)
      ultimately show ?thesis using Some w v core[OF w(3)] by (auto simp: dropped_def)
    qed
    then have "dropped cond (set keys) s1 = dropped cond (set (k # keys)) st" by (rule ext)
    with Some s1 s2 show ?thesis by (auto intro: cores_kept_trans)
  qed
qed simp

lemma remove_if_drops:
  assumes core: "\<And>k v w. flow_core v = flow_core w \<Longrightarrow> cond k v = cond k w" and ok: "flow_inv st"
  shows "\<exists>st'. walk_flows (remove_if env cond) keys st = Some st' \<and> flow_inv st' \<and> cores_kept st st' \<and>
    ft_table st' = dropped cond (set keys) st"
proof (rule walk_drops[OF _ core ok])
  fix k p v st assume a: "flow_inv st" "ft_table st k = Some p" "ft_heap st p = Some v"
  from dp_remove_flow_ok[OF a(1) _ a(2)] a
  show "\<exists>st'. remove_if env cond k p st = Some st' \<and> flow_inv st' \<and> cores_kept st st' \<and>
      ft_table st' = (if cond k v then (ft_table st)(k := None) else ft_table st)"
    by (auto simp: remove_if_def)
qed

lemma age_drops:
  assumes ok: "flow_inv st"
  shows "\<exists>st'. dp_process_aged_flows_non_offload env query now hz keys st = Some st' \<and> flow_inv st' \<and> cores_kept st st' \<and>
    ft_table st' = dropped (\<lambda>_. expired now hz) (set keys) st"
  unfolding dp_process_aged_flows_non_offload_def
proof (rule walk_drops[OF _ _ ok])
  show "expired now hz v = expired now hz w" if "flow_core v = flow_core w" for v w :: flow_value
    using that by (cases v; cases w) (simp add: flow_core_def expired_def)
  fix k p v st assume a: "flow_inv st" "ft_table st k = Some p" "ft_heap st p = Some v"
  obtain s1 where s1: "(if conf_offload_enabled (fe_conf env) \<and> fk_proto k = IPPROTO_TCP
      then map_option snd (dp_rte_flow_query_and_remove env query p st) else Some st) = Some s1"
    "flow_inv s1" "ft_table s1 = ft_table st" "cores_kept st s1"
    using query_ctxs_ok[OF a(1) _ a(2), of "[0..<DP_FLOW_VAL_AGE_CTX_CAPACITY]" env query] a(1)
    by (cases "conf_offload_enabled (fe_conf env) \<and> fk_proto k = IPPROTO_TCP") (auto simp: dp_rte_flow_query_and_remove_def)
  have k: "ft_table s1 k = Some p" using s1(3) a(2) by simp
  obtain v' where v': "ft_heap s1 p = Some v'" "flow_core v' = flow_core v"
    using cores_kept_live[OF s1(4,2) k] a(3) by auto
  have e: "expired now hz v' = expired now hz v"
    using v'(2) by (cases v; cases v') (simp add: flow_core_def expired_def)
  obtain s2 where s2: "dp_delete_flow env k p s1 = Some (DP_OK, s2)" "flow_inv s2"
    "ft_table s2 = (ft_table s1)(k := None)" "cores_kept s1 s2"
    by (rule dp_delete_flow_ok[OF s1(2) _ k]) auto
  show "\<exists>st'. age_flow env query now hz k p st = Some st' \<and> flow_inv st' \<and> cores_kept st st' \<and>
      ft_table st' = (if expired now hz v then (ft_table st)(k := None) else ft_table st)"
    unfolding age_flow_def s1(1)
    using s1 s2 v' e by (auto simp: expired_def intro: cores_kept_trans)
qed

end

section \<open>Offloading keeps the counts\<close>

lemma flow_ok_new_ctx:
  assumes ok: "flow_ok held st" and c: "ft_ctxs st c = None" and a: "ac_cntrack a = None"
  shows "flow_ok held (st\<lparr> ft_ctxs := (ft_ctxs st)(c \<mapsto> a) \<rparr>)"
proof -
  let ?st = "st\<lparr> ft_ctxs := (ft_ctxs st)(c \<mapsto> a) \<rparr>"
  have own: "ctx_owner ?st = ctx_owner st" using c a by (auto simp: ctx_owner_def fun_eq_iff)
  have "pointers_ok ?st" using flow_okD(1)[OF ok] own by (simp add: pointers_ok_def)
  moreover have "slots_ok ?st" using flow_okD(2)[OF ok] c by (fastforce simp: slots_ok_def)
  moreover have "flow_refs ?st q + held q \<le> int (ref_count ?st q)" for q
    using flow_okD(3)[OF ok, of q] own by (simp add: flow_refs_def ref_count_def)
  ultimately show ?thesis by (simp only: flow_ok_def simp_thms)
qed

lemma fresh_ctx_not_in_slot:
  assumes "slots_ok st" "ft_ctxs st c = None" "ft_heap st q = Some w" "i < length (fv_age_ctxs w)"
  shows "fv_age_ctxs w ! i \<noteq> Some c"
  using slots_okD(3)[OF assms(1,3,4)] assms(2) by auto

lemma flow_ok_attach:
  assumes ok: "flow_ok held st" and c: "ft_ctxs st c = None" and p: "ft_heap st p = Some v"
    and cnt: "fv_ref_count v \<noteq> - 1" and a: "ac_cntrack a = Some p"
    and cs: "cs = fv_age_ctxs v \<or> cs = (fv_age_ctxs v)[unat (ac_ref_index a) := Some c]"
  shows "flow_ok held (st\<lparr> ft_ctxs := (ft_ctxs st)(c \<mapsto> a),
    ft_heap := (ft_heap st)(p \<mapsto> v\<lparr> fv_age_ctxs := cs, fv_ref_count := fv_ref_count v + 1 \<rparr>) \<rparr>)"
proof -
  let ?st = "st\<lparr> ft_ctxs := (ft_ctxs st)(c \<mapsto> a),
    ft_heap := (ft_heap st)(p \<mapsto> v\<lparr> fv_age_ctxs := cs, fv_ref_count := fv_ref_count v + 1 \<rparr>) \<rparr>"
  have nz: "fv_ref_count v + 1 \<noteq> 0" using cnt by (metis add_right_cancel add.left_inverse)
  have own: "ctx_owner ?st = (ctx_owner st)(c \<mapsto> p)" using a by (auto simp: ctx_owner_def fun_eq_iff)
  have "ran ((ctx_owner st)(c \<mapsto> p)) \<subseteq> insert p (ran (ctx_owner st))" by (auto simp: ran_def)
  then have "pointers_ok ?st"
    using flow_okD(1)[OF ok] p own by (auto simp: pointers_ok_def)
  moreover have "slots_ok ?st"
    unfolding slots_ok_def
  proof (intro allI impI conjI)
    fix q w assume q: "ft_heap ?st q = Some w"
    obtain w0 where w0: "ft_heap st q = Some w0" using q p by (cases "q = p") auto
    note sl = slots_okD[OF flow_okD(2)[OF ok] w0]
    have w: "if q = p then w0 = v \<and> w = v\<lparr> fv_age_ctxs := cs, fv_ref_count := fv_ref_count v + 1 \<rparr> else w = w0"
      using q w0 p by (auto split: if_splits)
    show "length (fv_age_ctxs w) = DP_FLOW_VAL_AGE_CTX_CAPACITY" "fv_ref_count w \<noteq> 0"
      using sl(1,2) w nz cs by (auto split: if_splits)
    fix i d assume i: "i < length (fv_age_ctxs w)" "fv_age_ctxs w ! i = Some d"
    have "fv_age_ctxs w0 ! i = Some d \<or> q = p \<and> d = c \<and> unat (ac_ref_index a) = i"
      using w i cs by (cases "i = unat (ac_ref_index a)") (auto split: if_splits)
    then show "\<exists>a. ft_ctxs ?st d = Some a \<and> ac_cntrack a = Some q \<and> unat (ac_ref_index a) = i"
    proof
      assume n: "fv_age_ctxs w0 ! i = Some d"
      have l: "i < length (fv_age_ctxs w0)" using i(1) w cs by (auto split: if_splits)
      then have "d \<noteq> c" using fresh_ctx_not_in_slot[OF flow_okD(2)[OF ok] c w0 l] n by auto
      then show ?thesis using sl(3)[OF l n] by simp
    qed (use a in simp)
  qed
  moreover have "int (unat (fv_ref_count v + 1)) = int (unat (fv_ref_count v)) + 1"
    using ref_dec_unat[OF nz] by simp
  then have "flow_refs ?st q + held q \<le> int (ref_count ?st q)" for q
    using map_refs_upd[OF finite_ctx_owner[OF flow_okD(5)[OF ok]], of c p q] flow_okD(3)[OF ok, of q] own p
    by (cases "q = p") (simp_all add: flow_refs_def ref_count_def)
  ultimately show ?thesis by (simp only: flow_ok_def simp_thms)
qed

lemma offload_rule_ok:
  assumes ok: "flow_ok held st" and p: "ft_heap st p = Some v" and cnt: "fv_ref_count v \<noteq> - 1"
    and mem: "\<And>c. mem = Some c \<Longrightarrow> ft_ctxs st c = None"
  shows "\<exists>ret st'. offload_rule env mem handle rule pid df p st = Some (ret, st') \<and> flow_ok held st' \<and> ft_table st' = ft_table st"
proof (cases mem)
  case None
  then show ?thesis using ok by (simp add: offload_rule_def)
next
  case (Some c)
  let ?a = "\<lparr> ac_cntrack = None, ac_rte_flow = False, ac_ref_index = 0, ac_port_id = 0, ac_handle = False \<rparr>"
  let ?i = "first_index (\<lambda>x. x = None) (fv_age_ctxs v)"
  have nz: "fv_ref_count v \<noteq> 0" and len: "length (fv_age_ctxs v) = 6"
    using slots_okD(1,2)[OF flow_okD(2)[OF ok] p] by (auto simp: DP_FLOW_VAL_AGE_CTX_CAPACITY_def)
  have c: "ft_ctxs st c = None" using mem Some by simp
  have undo: "st\<lparr> ft_ctxs := (ft_ctxs st)(c := None) \<rparr> = st" using c by (simp add: fun_upd_idem)
  have undo2: "st\<lparr> ft_heap := (ft_heap st)(p \<mapsto> v), ft_ctxs := (ft_ctxs st)(c := None) \<rparr> = st"
    using c p by (simp add: fun_upd_idem)
  have idx: "unat (of_nat ?i :: uint8) = ?i" if "?i < 6"
    using that by (simp add: unat_of_nat take_bit_nat_eq_self_iff)
  have restore: "v\<lparr> fv_age_ctxs := (fv_age_ctxs v)[?i := None] \<rparr> = v" if "?i < length (fv_age_ctxs v)"
  proof -
    have "(fv_age_ctxs v)[?i := None] = fv_age_ctxs v" using first_index_nth[OF that] list_update_id[of "fv_age_ctxs v" ?i] by simp
    then show ?thesis by simp
  qed
  show ?thesis
  proof (cases "df_l4_type df = IPPROTO_TCP")
    case False
    with Some c p nz ok undo flow_ok_attach[OF ok c p cnt, of "?a\<lparr> ac_cntrack := Some p, ac_rte_flow := True, ac_port_id := ucast pid \<rparr>" "fv_age_ctxs v"]
    show ?thesis
      by (simp add: offload_rule_def allocate_agectx_def dp_install_rte_flow_with_indirect_def
          dp_install_rte_flow_with_age_def flow_ref_inc_def dp_destroy_rte_flow_agectx_def)
  next
    case True
    show ?thesis
    proof (cases "handle \<and> ?i < length (fv_age_ctxs v)")
      case False
      with True Some c p ok undo show ?thesis
        by (auto simp: offload_rule_def allocate_agectx_def dp_install_rte_flow_with_indirect_def
          dp_create_age_indirect_action_def dp_add_rte_age_ctx_def dp_destroy_rte_flow_agectx_def)
    next
      case h: True
      then have i: "?i < 6" using len by simp
      with True Some c p nz ok undo2 h idx[OF i] restore len
        flow_ok_attach[OF ok c p cnt, of "?a\<lparr> ac_cntrack := Some p, ac_rte_flow := True, ac_port_id := ucast pid, ac_ref_index := of_nat ?i, ac_handle := True \<rparr>"
          "(fv_age_ctxs v)[?i := Some c]"]
      show ?thesis
        by (simp add: offload_rule_def allocate_agectx_def dp_install_rte_flow_with_indirect_def
          dp_create_age_indirect_action_def dp_add_rte_age_ctx_def dp_del_rte_age_ctx_def Let_def
          dp_install_rte_flow_with_age_def flow_ref_inc_def dp_destroy_rte_flow_agectx_def)
    qed
  qed
qed

section \<open>A new flow\<close>

lemma flow_ok_alloc:
  assumes ok: "flow_ok held st" and p: "ft_heap st p = None"
    and v: "fv_age_ctxs v = replicate DP_FLOW_VAL_AGE_CTX_CAPACITY None" "fv_ref_count v = 1"
  shows "flow_ok (held(p := held p + 1)) (st\<lparr> ft_heap := (ft_heap st)(p \<mapsto> v) \<rparr>)"
proof -
  let ?st = "st\<lparr> ft_heap := (ft_heap st)(p \<mapsto> v) \<rparr>"
  have "pointers_ok ?st" using flow_okD(1)[OF ok] by (auto simp: pointers_ok_def)
  moreover have "slots_ok ?st" using flow_okD(2)[OF ok] v by (simp add: slots_ok_def)
  moreover have "flow_refs ?st q + (held(p := held p + 1)) q \<le> int (ref_count ?st q)" for q
    using flow_okD(3)[OF ok, of q] p v by (cases "q = p") (simp_all add: flow_refs_def ref_count_def)
  ultimately show ?thesis by (simp only: flow_ok_def simp_thms)
qed

lemma flow_ok_free_new:
  assumes ok: "flow_ok held st" and p: "ft_heap st p = Some v" and z: "flow_refs st p = 0" and c: "ft_cached st \<noteq> Some p" and h: "held p = 1"
  shows "flow_ok (held(p := 0)) (rte_free_flow p st)"
proof -
  let ?st = "rte_free_flow p st"
  have own: "ctx_owner ?st = ctx_owner st" by (simp add: rte_free_flow_def)
  have "pointers_ok ?st"
    using flow_okD(1)[OF ok] flow_refs_zero[OF ok z] own c by (auto simp: pointers_ok_def rte_free_flow_def)
  moreover have "slots_ok ?st" using flow_okD(2)[OF ok] by (simp add: slots_ok_def rte_free_flow_def)
  moreover have "flow_refs ?st q + (held(p := 0)) q \<le> int (ref_count ?st q)" for q
    using flow_okD(3)[OF ok, of q] z own
    by (cases "q = p") (simp_all add: flow_refs_def ref_count_def rte_free_flow_def)
  ultimately show ?thesis by (simp only: flow_ok_def simp_thms)
qed

section \<open>Removal and aging are exact\<close>

definition keeps_only :: "(flow_key \<Rightarrow> flow_value \<Rightarrow> bool) \<Rightarrow> flow_state \<Rightarrow> flow_state \<Rightarrow> bool" where
  "keeps_only keep st st' \<longleftrightarrow> (\<forall>k p. ft_table st' k = Some p \<longleftrightarrow>
     ft_table st k = Some p \<and> (\<exists>v. ft_heap st p = Some v \<and> keep k v))"

lemma dropped_keeps_only:
  assumes "flow_ok held st" "set keys = dom (ft_table st)" "ft_table st' = dropped cond (set keys) st"
  shows "keeps_only (\<lambda>k v. \<not> cond k v) st st'"
  unfolding keeps_only_def
proof (intro allI)
  fix k p
  show "ft_table st' k = Some p \<longleftrightarrow> ft_table st k = Some p \<and> (\<exists>v. ft_heap st p = Some v \<and> \<not> cond k v)"
    using assms(2,3) flow_ok_table_live[OF assms(1), of k p] by (auto simp: dropped_def split: option.splits)
qed

lemma flow_core_fields:
  assumes "flow_core v = flow_core w"
  shows "fv_created_port_id v = fv_created_port_id w" "fv_nf_info v = fv_nf_info w" "fv_key_org v = fv_key_org w"
  using assms by (cases v; cases w; simp add: flow_core_def)+

lemma remove_keeps_only:
  assumes "hash_table (fe_tbl env)" "flow_inv st" "set keys = dom (ft_table st)"
    "\<And>k v w. flow_core v = flow_core w \<Longrightarrow> cond k v = cond k w"
  shows "\<exists>st'. walk_flows (remove_if env cond) keys st = Some st' \<and> flow_inv st' \<and> keeps_only (\<lambda>k v. \<not> cond k v) st st'"
proof -
  have "\<exists>st'. walk_flows (remove_if env cond) keys st = Some st' \<and> flow_inv st' \<and> cores_kept st st' \<and>
      ft_table st' = dropped cond (set keys) st"
    by (rule flow_tables.remove_if_drops[OF flow_tables.intro[OF assms(1)] _ assms(2)]) (rule assms(4))
  then show ?thesis using dropped_keeps_only[OF assms(2,3)] by blast
qed

text \<open>C15: when an interface, a translation, a range of a neighbour or a target of a load balancer
  goes away, the walk over the table never follows a dangling pointer, removes exactly the
  entries of the flows concerned and keeps every other entry; and the aging walk removes
  exactly the entries of the flows whose time is over.\<close>

theorem flow_removal_exact:
  assumes "hash_table (fe_tbl env)" "flow_inv st" "set keys = dom (ft_table st)"
  shows "(\<exists>st'. dp_remove_iface_flows env pid ip vni keys st = Some st' \<and> flow_inv st' \<and>
      keeps_only (\<lambda>k v. fv_created_port_id v \<noteq> pid \<and> \<not> (fk_vni k = vni \<and> fk_l3_dst (fv_key_org v) = IPADDR4 ip)) st st')
    \<and> (\<exists>st'. dp_remove_nat_flows env pid nat_type keys st = Some st' \<and> flow_inv st' \<and>
      keeps_only (\<lambda>k v. \<not> (fv_created_port_id v = pid \<and> nf_nat_type (fv_nf_info v) = nat_type)) st st')
    \<and> (\<exists>st'. dp_remove_neighnat_flows env ip vni mn mx keys st = Some st' \<and> flow_inv st' \<and>
      keeps_only (\<lambda>k v. \<not> (fk_vni k = vni \<and> fk_l3_dst k = IPADDR4 ip \<and> mn \<le> fk_port_dst k \<and> fk_port_dst k < mx)) st st')
    \<and> (\<exists>st'. dp_remove_lbtarget_flows env ul keys st = Some st' \<and> flow_inv st' \<and>
      keeps_only (\<lambda>k v. nf_underlay_dst (fv_nf_info v) \<noteq> ul) st st')
    \<and> (\<exists>st'. dp_process_aged_flows_non_offload env query now hz keys st = Some st' \<and> flow_inv st' \<and>
      keeps_only (\<lambda>k v. now - fv_timestamp v \<le> hz * ucast (fv_timeout_value v)) st st')"
proof (intro conjI)
  note rm = remove_keeps_only[OF assms]
  show "\<exists>st'. dp_remove_iface_flows env pid ip vni keys st = Some st' \<and> flow_inv st' \<and>
      keeps_only (\<lambda>k v. fv_created_port_id v \<noteq> pid \<and> \<not> (fk_vni k = vni \<and> fk_l3_dst (fv_key_org v) = IPADDR4 ip)) st st'"
    unfolding dp_remove_iface_flows_def de_Morgan_disj[symmetric] by (rule rm) (metis flow_core_fields)
  show "\<exists>st'. dp_remove_nat_flows env pid nat_type keys st = Some st' \<and> flow_inv st' \<and>
      keeps_only (\<lambda>k v. \<not> (fv_created_port_id v = pid \<and> nf_nat_type (fv_nf_info v) = nat_type)) st st'"
    unfolding dp_remove_nat_flows_def by (rule rm) (metis flow_core_fields)
  show "\<exists>st'. dp_remove_neighnat_flows env ip vni mn mx keys st = Some st' \<and> flow_inv st' \<and>
      keeps_only (\<lambda>k v. \<not> (fk_vni k = vni \<and> fk_l3_dst k = IPADDR4 ip \<and> mn \<le> fk_port_dst k \<and> fk_port_dst k < mx)) st st'"
    unfolding dp_remove_neighnat_flows_def by (rule rm) simp
  show "\<exists>st'. dp_remove_lbtarget_flows env ul keys st = Some st' \<and> flow_inv st' \<and>
      keeps_only (\<lambda>k v. nf_underlay_dst (fv_nf_info v) \<noteq> ul) st st'"
    unfolding dp_remove_lbtarget_flows_def dp_ipv6_match_eq by (rule rm) (metis flow_core_fields)
  show "\<exists>st'. dp_process_aged_flows_non_offload env query now hz keys st = Some st' \<and> flow_inv st' \<and>
      keeps_only (\<lambda>k v. now - fv_timestamp v \<le> hz * ucast (fv_timeout_value v)) st st'"
    using flow_tables.age_drops[OF flow_tables.intro[OF assms(1)] assms(2), of query now hz keys]
      dropped_keeps_only[OF assms(2,3), of _ "\<lambda>_. expired now hz"]
    by (auto simp: expired_def not_less)
qed

section \<open>Concrete inputs\<close>

definition ex_flow_env :: flow_env where
  "ex_flow_env = \<lparr> fe_tbl = ref_hash 16, fe_hash = (\<lambda>_. 0), fe_nat = ref_nat_lib 0, fe_vnf = ref_vnf_lib 4,
     fe_vnf_state = \<lparr> vnf_handle_tbl = Map.empty, vnf_value_tbl = Map.empty \<rparr>, fe_conf = ex_nat_conf,
     fe_link = \<lparr> sync_alloc = True, sync_tx = True \<rparr>, fe_ports = [Some (dp_port_zero\<lparr> is_pf := True \<rparr>), Some ex_nat_port],
     fe_pf0 = 0 \<rparr>"

interpretation refflow: flow_tables ex_flow_env
  by (rule flow_tables.intro) (simp add: ex_flow_env_def refh.hash_table_axioms)

definition flow_key_zero :: flow_key where
  "flow_key_zero = \<lparr> fk_l3_dst = IPADDR4 0, fk_proto = 0, fk_port_dst = 0, fk_l3_src = IPADDR4 0,
     fk_vnf_type = DP_VNF_TYPE_UNDEFINED, fk_src = 0, fk_vni = 0 \<rparr>"

definition flow_state_init :: flow_state where
  "flow_state_init = \<lparr> ft_table = Map.empty, ft_heap = Map.empty, ft_ctxs = Map.empty, ft_nat = ex_nat_state,
     ft_key_cache = [flow_key_zero, flow_key_zero], ft_cache_index = 0, ft_curr = 0, ft_prev = None, ft_cached = None \<rparr>"

lemma flow_inv_init: "flow_inv flow_state_init"
  by (simp add: flow_state_init_def flow_ok_def pointers_ok_def slots_ok_def flow_refs_def ref_count_def map_refs_def
      ctx_owner_def ran_def)

text \<open>One flow under both its keys.\<close>

definition ex_flow_value :: flow_value where
  "ex_flow_value = ex_nat_flow\<lparr> fv_age_ctxs := replicate 6 None, fv_ref_count := 1, fv_created_port_id := 1 \<rparr>"

definition ex_flow_state :: flow_state where
  "ex_flow_state = flow_state_init\<lparr>
     ft_heap := [7 \<mapsto> ex_flow_value\<lparr> fv_ref_count := 2 \<rparr>],
     ft_table := [fv_key_org ex_flow_value \<mapsto> 7, fv_key_reply ex_flow_value \<mapsto> 7] \<rparr>"

lemma ex_flow_inv: "flow_inv ex_flow_state"
proof -
  let ?s1 = "flow_state_init\<lparr> ft_heap := (ft_heap flow_state_init)(7 \<mapsto> ex_flow_value) \<rparr>"
  let ?s2 = "?s1\<lparr> ft_table := (ft_table ?s1)(fv_key_org ex_flow_value \<mapsto> 7) \<rparr>"
  let ?s3 = "?s2\<lparr> ft_table := (ft_table ?s2)(fv_key_reply ex_flow_value \<mapsto> 7) \<rparr>"
  define h0 :: "nat \<Rightarrow> int" where "h0 = (\<lambda>_. 0)"
  define h1 where "h1 = h0(7 := h0 7 + 1)"
  define h2 where "h2 = h1(7 := h1 7 - 1)"
  define h3 where "h3 = h2(7 := h2 7 - 1)"
  have h: "h3(7 := h3 7 + 1) = (\<lambda>_. 0)" by (simp add: h0_def h1_def h2_def h3_def fun_eq_iff)
  have s0: "flow_ok h0 flow_state_init" unfolding h0_def by (rule flow_inv_init)
  have s1: "flow_ok h1 ?s1"
    unfolding h1_def by (rule flow_ok_alloc[OF s0])
      (simp_all add: flow_state_init_def ex_flow_value_def DP_FLOW_VAL_AGE_CTX_CAPACITY_def)
  have s2: "flow_ok h2 ?s2" unfolding h2_def by (rule flow_ok_add_key[OF s1]) simp
  have s3: "flow_ok h3 ?s3" unfolding h3_def by (rule flow_ok_add_key[OF s2]) simp
  have "flow_inv (?s3\<lparr> ft_heap := (ft_heap ?s3)(7 \<mapsto> ex_flow_value\<lparr> fv_ref_count := fv_ref_count ex_flow_value + 1 \<rparr>) \<rparr>)"
    using flow_ref_inc_ok[OF s3, of 7 ex_flow_value, unfolded h] by (simp add: ex_flow_value_def)
  then show ?thesis
    by (simp add: ex_flow_state_def ex_flow_value_def flow_state_init_def)
qed

theorem flow_removal_exact_witness:
  "\<exists>st'. dp_remove_iface_flows ex_flow_env 1 0 100 [fv_key_org ex_flow_value, fv_key_reply ex_flow_value] ex_flow_state = Some st'
     \<and> flow_inv st' \<and> ft_table st' = Map.empty"
proof -
  have k: "set [fv_key_org ex_flow_value, fv_key_reply ex_flow_value] = dom (ft_table ex_flow_state)"
    by (auto simp: ex_flow_state_def)
  from flow_removal_exact[OF refflow.ft_ht ex_flow_inv k, of 1 0 100 DP_FLOW_NAT_TYPE_VIP 0 0 dp_empty_ipv6 "\<lambda>_. Inl 0" 0 0]
  obtain st' where st': "dp_remove_iface_flows ex_flow_env 1 0 100 [fv_key_org ex_flow_value, fv_key_reply ex_flow_value] ex_flow_state = Some st'"
    "flow_inv st'" "keeps_only (\<lambda>k v. fv_created_port_id v \<noteq> 1 \<and> \<not> (fk_vni k = 100 \<and> fk_l3_dst (fv_key_org v) = IPADDR4 0)) ex_flow_state st'"
    by blast
  have "ft_table st' k = None" for k
    using st'(3) by (cases "ft_table st' k") (auto simp: keeps_only_def ex_flow_state_def ex_flow_value_def split: if_splits)
  with st' show ?thesis by auto
qed

end
