(* ===== verification/Dp_Cntrack.thy ===== *)
theory Dp_Cntrack
  imports Dp_Flow
begin

text \<open>
  Connection tracking (\<open>src/dp_cntrack.c\<close>): the flow of a packet, found through a
  one-entry cache, in the flow table, or created; its TCP state, timeout and
  offload state; and the flows a backup instance makes of the translations it
  was told about.
\<close>

section \<open>TCP\<close>

abbreviation (input) "RTE_TCP_FIN_FLAG \<equiv> 0x01 :: uint8"
abbreviation (input) "RTE_TCP_SYN_FLAG \<equiv> 0x02 :: uint8"
abbreviation (input) "RTE_TCP_RST_FLAG \<equiv> 0x04 :: uint8"
abbreviation (input) "RTE_TCP_ACK_FLAG \<equiv> 0x10 :: uint8"

definition DP_TCP_PKT_FLAG_RST :: "uint8 \<Rightarrow> bool" where
  "DP_TCP_PKT_FLAG_RST flags \<longleftrightarrow> flags AND RTE_TCP_RST_FLAG \<noteq> 0"

definition DP_TCP_PKT_FLAG_FIN :: "uint8 \<Rightarrow> bool" where
  "DP_TCP_PKT_FLAG_FIN flags \<longleftrightarrow> flags AND RTE_TCP_FIN_FLAG \<noteq> 0"

definition DP_TCP_PKT_FLAG_EXACT :: "uint8 \<Rightarrow> uint8 \<Rightarrow> bool" where
  "DP_TCP_PKT_FLAG_EXACT flags required \<longleftrightarrow> flags AND 0xFF = required"

definition DP_TCP_PKT_FLAG_ONLY_SYN :: "uint8 \<Rightarrow> bool" where
  "DP_TCP_PKT_FLAG_ONLY_SYN flags = DP_TCP_PKT_FLAG_EXACT flags RTE_TCP_SYN_FLAG"

definition DP_TCP_PKT_FLAG_ONLY_ACK :: "uint8 \<Rightarrow> bool" where
  "DP_TCP_PKT_FLAG_ONLY_ACK flags = DP_TCP_PKT_FLAG_EXACT flags RTE_TCP_ACK_FLAG"

definition DP_TCP_PKT_FLAG_ONLY_SYNACK :: "uint8 \<Rightarrow> bool" where
  "DP_TCP_PKT_FLAG_ONLY_SYNACK flags = DP_TCP_PKT_FLAG_EXACT flags (RTE_TCP_SYN_FLAG OR RTE_TCP_ACK_FLAG)"

definition dp_cntrack_tcp_state :: "flow_value \<Rightarrow> dp_flow \<Rightarrow> uint8 \<Rightarrow> flow_value" where
  "dp_cntrack_tcp_state flow_val df tcp_flags =
     (if DP_TCP_PKT_FLAG_RST tcp_flags then flow_val\<lparr> fv_tcp_state := DP_FLOW_TCP_STATE_RST_FIN \<rparr>
      else if DP_TCP_PKT_FLAG_FIN tcp_flags then
        if fv_tcp_state flow_val = DP_FLOW_TCP_STATE_ESTABLISHED then flow_val\<lparr> fv_tcp_state := DP_FLOW_TCP_STATE_FINWAIT \<rparr>
        else flow_val\<lparr> fv_tcp_state := DP_FLOW_TCP_STATE_RST_FIN \<rparr>
      else (case fv_tcp_state flow_val of
          DP_FLOW_TCP_STATE_NONE \<Rightarrow>
            if DP_TCP_PKT_FLAG_ONLY_SYN tcp_flags
            then flow_val\<lparr> fv_tcp_state := DP_FLOW_TCP_STATE_NEW_SYN, fv_first_syn_dir := df_flow_dir df \<rparr> else flow_val
        | DP_FLOW_TCP_STATE_RST_FIN \<Rightarrow>
            if DP_TCP_PKT_FLAG_ONLY_SYN tcp_flags
            then flow_val\<lparr> fv_tcp_state := DP_FLOW_TCP_STATE_NEW_SYN, fv_first_syn_dir := df_flow_dir df \<rparr> else flow_val
        | DP_FLOW_TCP_STATE_NEW_SYN \<Rightarrow>
            if DP_TCP_PKT_FLAG_ONLY_SYNACK tcp_flags \<and> df_flow_dir df \<noteq> fv_first_syn_dir flow_val
            then flow_val\<lparr> fv_tcp_state := DP_FLOW_TCP_STATE_NEW_SYNACK \<rparr> else flow_val
        | DP_FLOW_TCP_STATE_NEW_SYNACK \<Rightarrow>
            if DP_TCP_PKT_FLAG_ONLY_ACK tcp_flags \<and> df_flow_dir df = fv_first_syn_dir flow_val
            then flow_val\<lparr> fv_tcp_state := DP_FLOW_TCP_STATE_ESTABLISHED \<rparr> else flow_val
        | _ \<Rightarrow> flow_val))"

section \<open>Timeouts and offloading\<close>

definition DP_FLOW_DEFAULT_TIMEOUT :: uint32 where "DP_FLOW_DEFAULT_TIMEOUT = 30"
definition DP_FLOW_TCP_EXTENDED_TIMEOUT :: uint32 where "DP_FLOW_TCP_EXTENDED_TIMEOUT = 60 * 60 * 24"

definition flow_timeout :: uint32 where "flow_timeout = DP_FLOW_DEFAULT_TIMEOUT"

definition dp_cntrack_init_flow_offload_flags :: "flow_env \<Rightarrow> flow_value \<Rightarrow> uint8 \<Rightarrow> flow_value" where
  "dp_cntrack_init_flow_offload_flags env flow_val l4_type =
     (if \<not> conf_offload_enabled (fe_conf env) then flow_val
      else flow_val\<lparr> fv_offload_orig := (if l4_type \<noteq> IPPROTO_TCP then DP_FLOW_OFFLOAD_INSTALL else DP_FLOW_NON_OFFLOAD),
        fv_offload_reply := DP_FLOW_NON_OFFLOAD \<rparr>)"

definition next_offload :: "bool \<Rightarrow> dp_pkt_offload_state \<Rightarrow> dp_pkt_offload_state" where
  "next_offload offload_other_pf s =
     (if s = DP_FLOW_NON_OFFLOAD \<or> offload_other_pf then DP_FLOW_OFFLOAD_INSTALL
      else if s = DP_FLOW_OFFLOAD_INSTALL then DP_FLOW_OFFLOADED else s)"

definition dp_cntrack_change_flow_offload_flags :: "flow_env \<Rightarrow> dp_port \<Rightarrow> flow_value \<Rightarrow> dp_flow \<Rightarrow> flow_value" where
  "dp_cntrack_change_flow_offload_flags env port flow_val df =
     (if \<not> conf_offload_enabled (fe_conf env) then flow_val
      else
        let offload_other_pf = (if is_pf port
              then if port_id port = fe_pf0 env then \<not> fv_offloaded_pf0 flow_val else \<not> fv_offloaded_pf1 flow_val
              else False) in
        (case df_flow_dir df of
          DP_FLOW_DIR_ORG \<Rightarrow> flow_val\<lparr> fv_offload_orig := next_offload offload_other_pf (fv_offload_orig flow_val) \<rparr>
        | DP_FLOW_DIR_REPLY \<Rightarrow> flow_val\<lparr> fv_offload_reply := next_offload offload_other_pf (fv_offload_reply flow_val) \<rparr>))"

definition dp_cntrack_set_timeout_tcp_flow :: "flow_env \<Rightarrow> dp_port \<Rightarrow> flow_value \<Rightarrow> dp_flow \<Rightarrow> flow_value" where
  "dp_cntrack_set_timeout_tcp_flow env port flow_val df =
     (if fv_tcp_state flow_val = DP_FLOW_TCP_STATE_ESTABLISHED
      then dp_cntrack_change_flow_offload_flags env port (flow_val\<lparr> fv_timeout_value := DP_FLOW_TCP_EXTENDED_TIMEOUT \<rparr>) df
      else
        let flow_val = flow_val\<lparr> fv_timeout_value := flow_timeout \<rparr> in
        if fv_tcp_state flow_val = DP_FLOW_TCP_STATE_FINWAIT \<or> fv_tcp_state flow_val = DP_FLOW_TCP_STATE_RST_FIN
        then dp_cntrack_change_flow_offload_flags env port flow_val df else flow_val)"

definition dp_cntrack_set_pkt_offload_decision :: "flow_value \<Rightarrow> dp_flow \<Rightarrow> dp_flow" where
  "dp_cntrack_set_pkt_offload_decision conntrack df = df\<lparr> df_offload_state :=
     (if df_flow_dir df = DP_FLOW_DIR_ORG then fv_offload_orig conntrack else fv_offload_reply conntrack) \<rparr>"

section \<open>New flows\<close>

definition flow_value_zero :: flow_value where
  "flow_value_zero = \<lparr> fv_key_org = flow_key_zero, fv_key_reply = flow_key_zero,
     fv_age_ctxs = replicate DP_FLOW_VAL_AGE_CTX_CAPACITY None,
     fv_nf_info = \<lparr> nf_vni = 0, nf_icmp_err_ip_cksum = 0, nf_nat_type = DP_FLOW_NAT_TYPE_NONE,
       nf_underlay_dst = dp_empty_ipv6, nf_l4_type = 0 \<rparr>,
     fv_timestamp = 0, fv_timeout_value = 0, fv_created_port_id = 0, fv_flow_flags = 0,
     fv_fwall_org = DP_FWALL_DROP, fv_fwall_reply = DP_FWALL_DROP, fv_offload_orig = DP_FLOW_NON_OFFLOAD,
     fv_offload_reply = DP_FLOW_NON_OFFLOAD, fv_offloaded_pf0 = False, fv_offloaded_pf1 = False, fv_ref_count = 0,
     fv_tcp_state = DP_FLOW_TCP_STATE_NONE, fv_first_syn_dir = DP_FLOW_DIR_ORG, fv_aged = False \<rparr>"

definition new_flow_value :: "flow_env \<Rightarrow> flow_key \<Rightarrow> dp_flow \<Rightarrow> dp_port \<Rightarrow> flow_value" where
  "new_flow_value env key df port =
     (let flow_val = flow_value_zero\<lparr> fv_key_org := key, fv_flow_flags := 0, fv_timeout_value := flow_timeout,
            fv_created_port_id := port_id port \<rparr>;
          local = (conf_offload_enabled (fe_conf env) \<and> \<not> is_pf port \<and> (case fk_l3_dst key of IPADDR4 _ \<Rightarrow> True | IPADDR6 _ \<Rightarrow> False)
            \<and> dp_vnf_lbprefix_exists (fe_vnf env) DP_VNF_MATCH_ALL_PORT_IDS (fk_vni key) (fk_l3_dst key) 32 (fe_vnf_state env));
          flow_val = flow_val\<lparr> fv_nf_info := (fv_nf_info flow_val)\<lparr> nf_nat_type :=
            (if local then DP_FLOW_LB_TYPE_LOCAL_NEIGH_TRAFFIC else DP_FLOW_NAT_TYPE_NONE) \<rparr> \<rparr>;
          flow_val = dp_cntrack_init_flow_offload_flags env flow_val (df_l4_type df);
          flow_val = (if df_l4_type df = IPPROTO_TCP then flow_val\<lparr> fv_tcp_state := DP_FLOW_TCP_STATE_NONE \<rparr> else flow_val) in
      flow_val\<lparr> fv_ref_count := 1 \<rparr>)"

text \<open>The second half of an insertion, shared by both ways a flow is made: the
  reply key is added and counted; where it cannot be, the first key is taken
  back, which frees the flow.\<close>

definition insert_reply :: "flow_env \<Rightarrow> flow_key \<Rightarrow> flow_key \<Rightarrow> nat \<Rightarrow> flow_state \<Rightarrow> (bool \<times> flow_state) option" where
  "insert_reply env key inverted_key p st =
     (case dp_add_flow env inverted_key p st of
       (Inl _, st) \<Rightarrow> do {
         (ret, st) \<leftarrow> dp_delete_flow env key p st;
         Some (False, case ret of Inl _ \<Rightarrow> rte_free_flow p st | Inr _ \<Rightarrow> st) }
     | (Inr _, st) \<Rightarrow> do { st \<leftarrow> flow_ref_inc p st; Some (True, st) })"

definition flow_table_insert_entry ::
  "flow_env \<Rightarrow> nat option \<Rightarrow> flow_key \<Rightarrow> dp_flow \<Rightarrow> dp_port \<Rightarrow> flow_state \<Rightarrow> (nat option \<times> dp_flow \<times> flow_state) option" where
  "flow_table_insert_entry env mem key df port st =
     (case mem of
       None \<Rightarrow> Some (None, df, st)
     | Some p \<Rightarrow>
       let flow_val = new_flow_value env key df port;
           df = df\<lparr> df_flow_dir := DP_FLOW_DIR_ORG \<rparr>;
           st = st\<lparr> ft_heap := (ft_heap st)(p \<mapsto> flow_val) \<rparr> in
       (case dp_add_flow env key p st of
         (Inl _, st) \<Rightarrow> Some (None, df, rte_free_flow p st)
       | (Inr _, st) \<Rightarrow>
         let df = df\<lparr> df_flow_hash := dp_get_conntrack_flow_hash_value env key \<rparr>;
             inverted_key = dp_invert_flow_key key;
             st = st\<lparr> ft_heap := (ft_heap st)(p \<mapsto> flow_val\<lparr> fv_key_reply := inverted_key \<rparr>) \<rparr> in
         do { (inserted, st) \<leftarrow> insert_reply env key inverted_key p st;
              Some (if inserted then Some p else None, df, st) }))"

section \<open>The flow of a packet\<close>

definition dp_cache_flow_val :: "nat \<Rightarrow> flow_state \<Rightarrow> flow_state" where
  "dp_cache_flow_val p st =
     (let index = ft_cache_index st + 1 in
      st\<lparr> ft_prev := Some (ft_curr st), ft_cache_index := index, ft_curr := unat index mod 2, ft_cached := Some p \<rparr>)"

definition dp_set_pkt_flow_direction :: "flow_env \<Rightarrow> flow_key \<Rightarrow> flow_value \<Rightarrow> dp_flow \<Rightarrow> dp_flow" where
  "dp_set_pkt_flow_direction env key flow_val df =
     (let df = (if dp_are_flows_identical key (fv_key_reply flow_val) then df\<lparr> df_flow_dir := DP_FLOW_DIR_REPLY \<rparr> else df);
          df = (if dp_are_flows_identical key (fv_key_org flow_val) then df\<lparr> df_flow_dir := DP_FLOW_DIR_ORG \<rparr> else df) in
      df\<lparr> df_flow_hash := dp_get_conntrack_flow_hash_value env key \<rparr>)"

definition dp_set_flow_offload_flag :: "flow_env \<Rightarrow> dp_port \<Rightarrow> flow_value \<Rightarrow> dp_flow \<Rightarrow> flow_value" where
  "dp_set_flow_offload_flag env port flow_val df =
     (if nf_nat_type (fv_nf_info flow_val) = DP_FLOW_NAT_TYPE_NETWORK_NEIGH
         \<or> nf_nat_type (fv_nf_info flow_val) = DP_FLOW_LB_TYPE_FORWARD
         \<or> nf_nat_type (fv_nf_info flow_val) = DP_FLOW_LB_TYPE_LOCAL_NEIGH_TRAFFIC
      then dp_cntrack_change_flow_offload_flags env port flow_val df
      else if df_vnf_type df = DP_VNF_TYPE_LB then flow_val
      else if df_l4_type df \<noteq> IPPROTO_TCP then dp_cntrack_change_flow_offload_flags env port flow_val df
      else flow_val)"

text \<open>A flow that was found: direction of the packet, offload state of the flow.\<close>

definition known_flow ::
  "flow_env \<Rightarrow> dp_port \<Rightarrow> flow_key \<Rightarrow> nat \<Rightarrow> rte_mbuf \<Rightarrow> flow_state \<Rightarrow> (nat dp_result \<times> rte_mbuf \<times> flow_state) option" where
  "known_flow env port key p m st = do {
     v \<leftarrow> ft_heap st p;
     let df = dp_set_pkt_flow_direction env key v (mb_df m);
     let v = dp_set_flow_offload_flag env port v df;
     Some (Inr p, m\<lparr> mb_df := df \<rparr>, st\<lparr> ft_heap := (ft_heap st)(p \<mapsto> v) \<rparr>) }"

definition dp_get_flow_val ::
  "flow_env \<Rightarrow> nat option \<Rightarrow> rte_mbuf \<Rightarrow> flow_state \<Rightarrow> (nat dp_result \<times> rte_mbuf \<times> flow_state) option" where
  "dp_get_flow_val env mem m st = do {
     port \<leftarrow> dp_get_in_port env m;
     let (ret, key) = dp_build_flow_key env (ft_nat st) port m (ft_key_cache st ! ft_curr st);
     let st = st\<lparr> ft_key_cache := (ft_key_cache st)[ft_curr st := key] \<rparr>;
     case ret of
       Inl e \<Rightarrow> Some (Inl e, m, st)
     | Inr _ \<Rightarrow>
       if (case ft_prev st of None \<Rightarrow> False | Some prev \<Rightarrow> dp_are_flows_identical key (ft_key_cache st ! prev))
       then do { p \<leftarrow> ft_cached st; known_flow env port key p m st }
       else (case dp_get_flow env key st of
         Inl e \<Rightarrow>
           if e \<noteq> ERRNO ENOENT then Some (Inl e, m, st)
           else do {
             (flow_val, df, st) \<leftarrow> flow_table_insert_entry env mem key (mb_df m) port st;
             Some (case flow_val of
               None \<Rightarrow> (Inl DP_ERROR, m\<lparr> mb_df := df \<rparr>, st)
             | Some p \<Rightarrow> (Inr p, m\<lparr> mb_df := df \<rparr>, dp_cache_flow_val p st)) }
       | Inr p \<Rightarrow> do {
           (ret, m, st) \<leftarrow> known_flow env port key p m st;
           Some (ret, m, dp_cache_flow_val p st) }) }"

text \<open>TCP state and timeout; refused for a frame that is neither IPv4 nor IPv6.\<close>

definition track_tcp :: "flow_env \<Rightarrow> dp_port \<Rightarrow> rte_mbuf \<Rightarrow> flow_value \<Rightarrow> flow_value dp_result" where
  "track_tcp env port m v =
     (let df = mb_df m;
          track = (\<lambda>tcp_hdr. dp_cntrack_set_timeout_tcp_flow env port (dp_cntrack_tcp_state v df (get8 (mb_buf m) (tcp_hdr + 13))) df) in
      if df_l4_type df = IPPROTO_TCP \<and> df_vnf_type df \<noteq> DP_VNF_TYPE_LB then
        if df_l3_type df = RTE_ETHER_TYPE_IPV4 then Inr (track (dp_get_ipv4_hdr m + IPV4_HDR_LEN))
        else if df_l3_type df = RTE_ETHER_TYPE_IPV6 then Inr (track (dp_get_ipv6_hdr m + IPV6_HDR_LEN))
        else Inl DP_ERROR
      else Inr v)"

definition track_flow ::
  "flow_env \<Rightarrow> dp_port \<Rightarrow> uint64 \<Rightarrow> nat \<Rightarrow> rte_mbuf \<Rightarrow> flow_value \<Rightarrow> unit dp_result \<times> rte_mbuf \<times> flow_value" where
  "track_flow env port now p m v =
     (case track_tcp env port m (v\<lparr> fv_timestamp := now \<rparr>) of
       Inl e \<Rightarrow> (Inl e, m, v\<lparr> fv_timestamp := now \<rparr>)
     | Inr v \<Rightarrow>
       if (nf_nat_type (fv_nf_info v) = DP_FLOW_NAT_TYPE_NETWORK_NEIGH \<or> nf_nat_type (fv_nf_info v) = DP_FLOW_LB_TYPE_FORWARD)
          \<and> df_flow_dir (mb_df m) = DP_FLOW_DIR_REPLY
       then (Inl DP_ERROR, m, v)
       else (DP_OK, m\<lparr> mb_df := dp_cntrack_set_pkt_offload_decision v ((mb_df m)\<lparr> df_conntrack := Some p \<rparr>) \<rparr>, v))"

definition dp_cntrack_handle ::
  "flow_env \<Rightarrow> nat option \<Rightarrow> uint64 \<Rightarrow> rte_mbuf \<Rightarrow> flow_state \<Rightarrow> (unit dp_result \<times> rte_mbuf \<times> flow_state) option" where
  "dp_cntrack_handle env mem now m st = do {
     (ret, m, st) \<leftarrow> dp_get_flow_val env mem m st;
     case ret of
       Inl e \<Rightarrow> Some (Inl e, m, st)
     | Inr p \<Rightarrow> do {
         v \<leftarrow> ft_heap st p;
         port \<leftarrow> dp_get_in_port env m;
         let (ret, m, v) = track_flow env port now p m v;
         Some (ret, m, st\<lparr> ft_heap := (ft_heap st)(p \<mapsto> v) \<rparr>) } }"

section \<open>Flows from the other instance\<close>

definition sync_flow_key :: "netnat_portoverload_tbl_key \<Rightarrow> netnat_portoverload_sync_metadata \<Rightarrow> flow_key" where
  "sync_flow_key portoverload_key md = \<lparr>
     fk_l3_dst = dp_set_ipaddr4 (pok_dst_ip portoverload_key), fk_proto = pok_l4_type portoverload_key,
     fk_port_dst = pok_dst_port portoverload_key, fk_l3_src = pmk_src_ip (md_portmap_key md), fk_vnf_type = DP_VNF_TYPE_NAT,
     fk_src = (if pok_l4_type portoverload_key = IPPROTO_ICMP \<or> pok_l4_type portoverload_key = IPPROTO_ICMPV6
       then md_icmp_type_src md else pmk_iface_src_port (md_portmap_key md)),
     fk_vni = pmk_vni (md_portmap_key md) \<rparr>"

definition sync_reply_key :: "netnat_portoverload_tbl_key \<Rightarrow> flow_key \<Rightarrow> flow_key" where
  "sync_reply_key portoverload_key key =
     (let inv = (dp_invert_flow_key key)\<lparr> fk_l3_dst := dp_set_ipaddr4 (pok_nat_ip portoverload_key),
            fk_port_dst := pok_nat_port portoverload_key \<rparr> in
      if fk_proto key = IPPROTO_ICMPV6
      then inv\<lparr> fk_proto := IPPROTO_ICMP, fk_src :=
        (if fk_src inv = ucast DP_ICMPV6_ECHO_REQUEST then ucast RTE_ICMP_TYPE_ECHO_REQUEST
         else if fk_src inv = ucast DP_ICMPV6_ECHO_REPLY then ucast RTE_ICMP_TYPE_ECHO_REPLY else 0) \<rparr>
      else inv)"

definition sync_flow_value ::
  "flow_env \<Rightarrow> netnat_portoverload_tbl_key \<Rightarrow> netnat_portoverload_sync_metadata \<Rightarrow> uint64 \<Rightarrow> flow_value" where
  "sync_flow_value env portoverload_key md timestamp =
     (let key = sync_flow_key portoverload_key md;
          icmp = (fk_proto key = IPPROTO_ICMP \<or> fk_proto key = IPPROTO_ICMPV6);
          flow_val = flow_value_zero\<lparr> fv_key_org := key,
            fv_flow_flags := (case fk_l3_src key of IPADDR6 _ \<Rightarrow> DP_FLOW_FLAG_SRC_NAT64 | IPADDR4 _ \<Rightarrow> DP_FLOW_FLAG_SRC_NAT),
            fv_timestamp := timestamp, fv_timeout_value := flow_timeout, fv_created_port_id := md_created_port_id md,
            fv_nf_info := (fv_nf_info flow_value_zero)\<lparr> nf_nat_type := DP_FLOW_NAT_TYPE_NETWORK_LOCAL, nf_vni := fk_vni key,
              nf_l4_type := fk_proto key \<rparr> \<rparr>;
          flow_val = dp_cntrack_init_flow_offload_flags env flow_val (fk_proto key);
          flow_val = (if fk_proto key = IPPROTO_TCP then flow_val\<lparr> fv_tcp_state := DP_FLOW_TCP_STATE_NONE \<rparr>
            else if icmp then flow_val\<lparr> fv_offload_orig := DP_FLOW_OFFLOADED, fv_offload_reply := DP_FLOW_OFFLOADED,
              fv_nf_info := (fv_nf_info flow_val)\<lparr> nf_icmp_err_ip_cksum := md_icmp_err_ip_cksum md \<rparr> \<rparr>
            else flow_val) in
      flow_val\<lparr> fv_ref_count := 1, fv_key_reply := sync_reply_key portoverload_key key \<rparr>)"

definition nat64_org_key :: "flow_key \<Rightarrow> flow_key" where
  "nat64_org_key key = (case fk_l3_src key of
     IPADDR6 _ \<Rightarrow> key\<lparr> fk_l3_dst := dp_set_ipaddr_nat64 (ipaddr4_of (fk_l3_dst key)) \<rparr> | IPADDR4 _ \<Rightarrow> key)"

definition dp_cntrack_from_sync_nat ::
  "flow_env \<Rightarrow> nat option \<Rightarrow> netnat_portoverload_tbl_key \<Rightarrow> netnat_portoverload_sync_metadata \<Rightarrow> uint64 \<Rightarrow> flow_state \<Rightarrow>
   (unit dp_result \<times> flow_state) option" where
  "dp_cntrack_from_sync_nat env mem portoverload_key md timestamp st =
     (let key = sync_flow_key portoverload_key md in
      case dp_get_flow env key st of
        Inr _ \<Rightarrow> Some (DP_OK, st)
      | Inl _ \<Rightarrow>
        (case mem of
          None \<Rightarrow> Some (Inl DP_ERROR, st)
        | Some p \<Rightarrow>
          let flow_val = sync_flow_value env portoverload_key md timestamp;
              st = st\<lparr> ft_heap := (ft_heap st)(p \<mapsto> flow_val) \<rparr>;
              key = nat64_org_key key in
          (case dp_add_flow env key p st of
            (Inl _, st) \<Rightarrow> Some (Inl DP_ERROR, rte_free_flow p st)
          | (Inr _, st) \<Rightarrow> do {
              (inserted, st) \<leftarrow> insert_reply env key (fv_key_reply flow_val) p st;
              Some (if inserted then DP_OK else Inl DP_ERROR, st) })))"

text \<open>\<open>entries\<close> is the table in the order of the walk, with the memory each
  step is given; an entry without metadata is a null pointer.\<close>

fun dp_create_sync_snat_flows ::
  "flow_env \<Rightarrow> uint64 \<Rightarrow> (nat option \<times> netnat_portoverload_tbl_key \<times> netnat_portoverload_sync_metadata option) list \<Rightarrow>
   flow_state \<Rightarrow> flow_state option" where
  "dp_create_sync_snat_flows env timestamp [] st = Some st"
| "dp_create_sync_snat_flows env timestamp ((mem, key, md) # entries) st = do {
     md \<leftarrow> md;
     (_, st) \<leftarrow> dp_cntrack_from_sync_nat env mem key md timestamp st;
     let st = (case dp_get_port_by_id (fe_ports env) (md_created_port_id md) of
         None \<Rightarrow> st
       | Some port \<Rightarrow> st\<lparr> ft_nat := inc_used (port_id port) (ft_nat st) \<rparr>);
     dp_create_sync_snat_flows env timestamp entries st }"

section \<open>The lookup without its cache\<close>

definition flow_val_uncached ::
  "flow_env \<Rightarrow> nat option \<Rightarrow> rte_mbuf \<Rightarrow> flow_state \<Rightarrow> (nat dp_result \<times> rte_mbuf \<times> flow_state) option" where
  "flow_val_uncached env mem m st = do {
     port \<leftarrow> dp_get_in_port env m;
     let (ret, key) = dp_build_flow_key env (ft_nat st) port m (ft_key_cache st ! ft_curr st);
     let st = st\<lparr> ft_key_cache := (ft_key_cache st)[ft_curr st := key] \<rparr>;
     case ret of
       Inl e \<Rightarrow> Some (Inl e, m, st)
     | Inr _ \<Rightarrow>
       (case dp_get_flow env key st of
         Inl e \<Rightarrow>
           if e \<noteq> ERRNO ENOENT then Some (Inl e, m, st)
           else do {
             (flow_val, df, st) \<leftarrow> flow_table_insert_entry env mem key (mb_df m) port st;
             Some (case flow_val of None \<Rightarrow> Inl DP_ERROR | Some p \<Rightarrow> Inr p, m\<lparr> mb_df := df \<rparr>, st) }
       | Inr p \<Rightarrow> known_flow env port key p m st) }"

text \<open>The state but for the cache.\<close>

definition forget_cache :: "flow_state \<Rightarrow> flow_state" where
  "forget_cache st = st\<lparr> ft_key_cache := [], ft_cache_index := 0, ft_curr := 0, ft_prev := None, ft_cached := None \<rparr>"

lemma forget_cache_simps [simp]:
  "forget_cache (dp_cache_flow_val p st) = forget_cache st"
  "forget_cache (st\<lparr> ft_key_cache := kc \<rparr>) = forget_cache st"
  by (simp_all add: forget_cache_def dp_cache_flow_val_def Let_def)

section \<open>Safety\<close>

lemma zero_upd [simp]: "(\<lambda>_. 0 :: int)(p := 0) = (\<lambda>_. 0)"
  by auto

definition cache_wf :: "flow_state \<Rightarrow> bool" where
  "cache_wf st \<longleftrightarrow> length (ft_key_cache st) = 2 \<and> ft_curr st = unat (ft_cache_index st) mod 2 \<and>
     (\<forall>s. ft_prev st = Some s \<longrightarrow> s < 2 \<and> s \<noteq> ft_curr st)"

lemma cache_wf_simps [simp]:
  "cache_wf (st\<lparr> ft_heap := h \<rparr>) = cache_wf st" "cache_wf (st\<lparr> ft_table := t \<rparr>) = cache_wf st"
  "cache_wf (st\<lparr> ft_nat := n \<rparr>) = cache_wf st"
  by (simp_all add: cache_wf_def)

definition cache_coherent :: "flow_state \<Rightarrow> bool" where
  "cache_coherent st \<longleftrightarrow> (\<forall>s. ft_prev st = Some s \<longrightarrow> ft_cached st \<noteq> None \<and> ft_table st (ft_key_cache st ! s) = ft_cached st)"

text \<open>An allocation delivers memory that is not in use.\<close>

definition fresh :: "nat option \<Rightarrow> flow_state \<Rightarrow> bool" where
  "fresh mem st \<longleftrightarrow> (\<forall>p. mem = Some p \<longrightarrow> ft_heap st p = None)"

definition cntrack_inv :: "flow_state \<Rightarrow> bool" where
  "cntrack_inv st \<longleftrightarrow> flow_inv st \<and> cache_wf st \<and> cache_coherent st"

lemma index_parity: "unat (i + 1 :: uint32) mod 2 = 1 - unat i mod 2"
proof (cases "i = - 1")
  case True
  have "unat (- 1 :: uint32) mod 2 = 1" by (simp add: unsigned_minus_1_eq_mask mask_eq_exp_minus_1)
  with True show ?thesis by simp
next
  case False
  then have "i + 1 \<noteq> 0" by (metis add_eq_0_iff add.commute)
  then have "unat (i + 1) = unat i + 1" by (simp add: unatSuc add.commute)
  then show ?thesis by presburger
qed

lemma ctx_owner_cache [simp]:
  "ctx_owner (st\<lparr> ft_key_cache := kc \<rparr>) = ctx_owner st" "ctx_owner (dp_cache_flow_val p st) = ctx_owner st"
  by (simp_all add: ctx_owner_def dp_cache_flow_val_def Let_def fun_eq_iff)

lemma flow_inv_cache [simp]:
  "flow_ok held (st\<lparr> ft_key_cache := kc \<rparr>) = flow_ok held st"
  "ft_heap st p \<noteq> None \<Longrightarrow> flow_ok held st \<Longrightarrow> flow_ok held (dp_cache_flow_val p st)"
  unfolding flow_ok_def pointers_ok_def slots_ok_def flow_refs_def ref_count_def ctx_owner_cache
  by (auto simp: dp_cache_flow_val_def Let_def)

lemma cache_flow_val_simps [simp]:
  "ft_table (dp_cache_flow_val p st) = ft_table st" "ft_heap (dp_cache_flow_val p st) = ft_heap st"
  "ft_ctxs (dp_cache_flow_val p st) = ft_ctxs st" "ft_nat (dp_cache_flow_val p st) = ft_nat st"
  by (simp_all add: dp_cache_flow_val_def Let_def)

lemma cache_flow_val_wf:
  assumes "cache_wf st" shows "cache_wf (dp_cache_flow_val p st)"
  using assms index_parity[of "ft_cache_index st"]
  by (auto simp: cache_wf_def dp_cache_flow_val_def Let_def) presburger

lemma cache_flow_val_coherent:
  assumes "cache_wf st" "ft_table st (ft_key_cache st ! ft_curr st) = Some p"
  shows "cache_coherent (dp_cache_flow_val p st)"
  using assms by (simp add: cache_coherent_def dp_cache_flow_val_def Let_def)

lemma flow_inv_set:
  assumes "flow_ok held st" "ft_heap st p = Some v" "fv_age_ctxs v' = fv_age_ctxs v" "fv_ref_count v' = fv_ref_count v"
  shows "flow_ok held (st\<lparr> ft_heap := (ft_heap st)(p \<mapsto> v') \<rparr>)"
  using flow_ok_set_value[OF assms(1,2,3)] slots_okD(2)[OF flow_okD(2)[OF assms(1)] assms(2)] assms(4) by simp

lemma cntrack_inv_heap:
  assumes "cntrack_inv st" "ft_heap st p = Some v" "fv_age_ctxs v' = fv_age_ctxs v" "fv_ref_count v' = fv_ref_count v"
  shows "cntrack_inv (st\<lparr> ft_heap := (ft_heap st)(p \<mapsto> v') \<rparr>)"
  using flow_inv_set[OF _ assms(2-4)] assms(1) by (auto simp: cntrack_inv_def cache_wf_def cache_coherent_def)

lemma change_offload_frame [simp]:
  "fv_age_ctxs (dp_cntrack_change_flow_offload_flags env port v df) = fv_age_ctxs v"
  "fv_ref_count (dp_cntrack_change_flow_offload_flags env port v df) = fv_ref_count v"
  "fv_key_org (dp_cntrack_change_flow_offload_flags env port v df) = fv_key_org v"
  "fv_key_reply (dp_cntrack_change_flow_offload_flags env port v df) = fv_key_reply v"
  "fv_nf_info (dp_cntrack_change_flow_offload_flags env port v df) = fv_nf_info v"
  "fv_timeout_value (dp_cntrack_change_flow_offload_flags env port v df) = fv_timeout_value v"
  "fv_tcp_state (dp_cntrack_change_flow_offload_flags env port v df) = fv_tcp_state v"
  "fv_flow_flags (dp_cntrack_change_flow_offload_flags env port v df) = fv_flow_flags v"
  by (cases "df_flow_dir df"; simp add: dp_cntrack_change_flow_offload_flags_def Let_def)+

lemma set_offload_frame [simp]:
  "fv_age_ctxs (dp_set_flow_offload_flag env port v df) = fv_age_ctxs v"
  "fv_ref_count (dp_set_flow_offload_flag env port v df) = fv_ref_count v"
  "fv_key_org (dp_set_flow_offload_flag env port v df) = fv_key_org v"
  "fv_key_reply (dp_set_flow_offload_flag env port v df) = fv_key_reply v"
  "fv_nf_info (dp_set_flow_offload_flag env port v df) = fv_nf_info v"
  "fv_flow_flags (dp_set_flow_offload_flag env port v df) = fv_flow_flags v"
  by (simp_all add: dp_set_flow_offload_flag_def)

lemma tcp_state_frame [simp]:
  "fv_age_ctxs (dp_cntrack_tcp_state v df fl) = fv_age_ctxs v"
  "fv_ref_count (dp_cntrack_tcp_state v df fl) = fv_ref_count v"
  "fv_nf_info (dp_cntrack_tcp_state v df fl) = fv_nf_info v"
  "fv_key_org (dp_cntrack_tcp_state v df fl) = fv_key_org v"
  "fv_key_reply (dp_cntrack_tcp_state v df fl) = fv_key_reply v"
  by (cases "fv_tcp_state v"; simp add: dp_cntrack_tcp_state_def)+

lemma timeout_frame [simp]:
  "fv_age_ctxs (dp_cntrack_set_timeout_tcp_flow env port v df) = fv_age_ctxs v"
  "fv_ref_count (dp_cntrack_set_timeout_tcp_flow env port v df) = fv_ref_count v"
  "fv_nf_info (dp_cntrack_set_timeout_tcp_flow env port v df) = fv_nf_info v"
  "fv_key_org (dp_cntrack_set_timeout_tcp_flow env port v df) = fv_key_org v"
  "fv_key_reply (dp_cntrack_set_timeout_tcp_flow env port v df) = fv_key_reply v"
  by (simp_all add: dp_cntrack_set_timeout_tcp_flow_def Let_def)

lemma new_flow_value_fields [simp]:
  "fv_age_ctxs (new_flow_value env key df port) = replicate DP_FLOW_VAL_AGE_CTX_CAPACITY None"
  "fv_ref_count (new_flow_value env key df port) = 1"
  "fv_key_org (new_flow_value env key df port) = key"
  by (simp_all add: new_flow_value_def flow_value_zero_def dp_cntrack_init_flow_offload_flags_def Let_def)

lemma sync_flow_value_fields [simp]:
  "fv_age_ctxs (sync_flow_value env po md ts) = replicate DP_FLOW_VAL_AGE_CTX_CAPACITY None"
  "fv_ref_count (sync_flow_value env po md ts) = 1"
  "fv_key_org (sync_flow_value env po md ts) = sync_flow_key po md"
  by (simp_all add: sync_flow_value_def flow_value_zero_def dp_cntrack_init_flow_offload_flags_def Let_def)

lemma track_tcp_frame:
  assumes "track_tcp env port m v = Inr v'"
  shows "fv_age_ctxs v' = fv_age_ctxs v" "fv_ref_count v' = fv_ref_count v" "fv_nf_info v' = fv_nf_info v"
    "fv_key_org v' = fv_key_org v" "fv_key_reply v' = fv_key_reply v"
  using assms by (simp_all add: track_tcp_def Let_def split: if_splits) auto

lemma track_flow_cases:
  obtains e v' where "track_flow env port now p m v = (Inl e, m, v')" "fv_age_ctxs v' = fv_age_ctxs v" "fv_ref_count v' = fv_ref_count v"
  | v' where "track_flow env port now p m v = (DP_OK, m\<lparr> mb_df := dp_cntrack_set_pkt_offload_decision v' ((mb_df m)\<lparr> df_conntrack := Some p \<rparr>) \<rparr>, v')"
    "fv_age_ctxs v' = fv_age_ctxs v" "fv_ref_count v' = fv_ref_count v"
proof (cases "track_tcp env port m (v\<lparr> fv_timestamp := now \<rparr>)")
  case (Inl e)
  then show thesis by (intro that(1)[of e "v\<lparr> fv_timestamp := now \<rparr>"]) (simp_all add: track_flow_def)
next
  case (Inr v')
  note fr = track_tcp_frame[OF Inr]
  show thesis
  proof (cases "(nf_nat_type (fv_nf_info v') = DP_FLOW_NAT_TYPE_NETWORK_NEIGH \<or> nf_nat_type (fv_nf_info v') = DP_FLOW_LB_TYPE_FORWARD)
          \<and> df_flow_dir (mb_df m) = DP_FLOW_DIR_REPLY")
    case True
    then have "track_flow env port now p m v = (Inl DP_ERROR, m, v')"
      unfolding track_flow_def Inr sum.case by (rule if_P)
    then show thesis by (rule that(1)) (use fr in simp_all)
  next
    case False
    then have "track_flow env port now p m v = (DP_OK, m\<lparr> mb_df := dp_cntrack_set_pkt_offload_decision v' ((mb_df m)\<lparr> df_conntrack := Some p \<rparr>) \<rparr>, v')"
      unfolding track_flow_def Inr sum.case by (rule if_not_P)
    then show thesis by (rule that(2)) (use fr in simp_all)
  qed
qed

context flow_tables
begin

lemma dp_add_flow_cases:
  obtains e where "dp_add_flow env key p st = (Inl e, st)"
  | "dp_add_flow env key p st = (DP_OK, st\<lparr> ft_table := (ft_table st)(key \<mapsto> p) \<rparr>)"
  by (rule ft.add_cases[of "ft_table st" key p]) (auto simp: dp_add_flow_def)

lemma insert_reply_ok:
  assumes ok: "flow_inv st" and k: "ft_table st key = Some p" and v: "ft_heap st p = Some v" "fv_ref_count v = 1"
  obtains (inserted) st' where "insert_reply env key ikey p st = Some (True, st')" "flow_inv st'"
    "st' = st\<lparr> ft_table := (ft_table st)(ikey \<mapsto> p), ft_heap := (ft_heap st)(p \<mapsto> v\<lparr> fv_ref_count := 2 \<rparr>) \<rparr>"
  | (undone) st' where "insert_reply env key ikey p st = Some (False, st')" "flow_inv st'"
    "ft_prev st' = None" "ft_cached st' = None" "ft_key_cache st' = ft_key_cache st" "ft_curr st' = ft_curr st"
    "ft_cache_index st' = ft_cache_index st" "ft_table st' = (ft_table st)(key := None)"
proof (rule dp_add_flow_cases[of ikey p st])
  fix e assume a: "dp_add_flow env ikey p st = (Inl e, st)"
  obtain st' where st': "dp_delete_flow env key p st = Some (DP_OK, st')" "flow_inv st'" "ft_table st' = (ft_table st)(key := None)"
    "ft_prev st' = None" "ft_cached st' = None" "ft_key_cache st' = ft_key_cache st" "ft_curr st' = ft_curr st"
    by (rule dp_delete_flow_ok[OF ok _ k]) auto
  have "ft_cache_index st' = ft_cache_index st"
    using st'(1) k v by (auto simp: dp_delete_flow_def ft.del_key flow_ref_dec_def dp_free_flow_def rte_free_flow_def
        dp_cntrack_flush_cache_def Let_def)
  with st' a show thesis by (intro undone[of st']) (simp_all add: insert_reply_def)
next
  assume a: "dp_add_flow env ikey p st = (DP_OK, st\<lparr> ft_table := (ft_table st)(ikey \<mapsto> p) \<rparr>)"
  let ?s = "st\<lparr> ft_table := (ft_table st)(ikey \<mapsto> p) \<rparr>"
  have "flow_ok ((\<lambda>_. 0)(p := 0 - 1)) ?s" using flow_ok_add_key[OF ok, of p ikey] v by simp
  from flow_ref_inc_ok[OF this, of p v] v
  show thesis by (intro inserted[of "?s\<lparr> ft_heap := (ft_heap st)(p \<mapsto> v\<lparr> fv_ref_count := 2 \<rparr>) \<rparr>"])
    (simp_all add: insert_reply_def a)
qed

text \<open>Both ways of making a flow: memory that was free, a first key, the reply key.\<close>

lemma insert_flow_ok:
  assumes ok: "flow_inv st" and p: "ft_heap st p = None"
    and v: "fv_age_ctxs v = replicate DP_FLOW_VAL_AGE_CTX_CAPACITY None" "fv_ref_count v = 1"
  obtains (refused) e where "dp_add_flow env key p (st\<lparr> ft_heap := (ft_heap st)(p \<mapsto> v) \<rparr>) = (Inl e, st\<lparr> ft_heap := (ft_heap st)(p \<mapsto> v) \<rparr>)"
    "rte_free_flow p (st\<lparr> ft_heap := (ft_heap st)(p \<mapsto> v) \<rparr>) = st"
  | (added) "dp_add_flow env key p (st\<lparr> ft_heap := (ft_heap st)(p \<mapsto> v) \<rparr>)
      = (DP_OK, st\<lparr> ft_heap := (ft_heap st)(p \<mapsto> v), ft_table := (ft_table st)(key \<mapsto> p) \<rparr>)"
    "flow_inv (st\<lparr> ft_heap := (ft_heap st)(p \<mapsto> v), ft_table := (ft_table st)(key \<mapsto> p) \<rparr>)"
proof -
  let ?s = "st\<lparr> ft_heap := (ft_heap st)(p \<mapsto> v) \<rparr>"
  have "flow_ok ((\<lambda>_. 0)(p := 0 + 1)) ?s" using flow_ok_alloc[OF ok p v] by simp
  then have "flow_inv (?s\<lparr> ft_table := (ft_table ?s)(key \<mapsto> p) \<rparr>)"
    using flow_ok_add_key[of "(\<lambda>_. 0)(p := 0 + 1)" ?s p key] by simp
  moreover have "rte_free_flow p ?s = st" using p by (simp add: rte_free_flow_def fun_upd_idem)
  ultimately show thesis
    by (rule_tac dp_add_flow_cases[of key p ?s]) (auto intro: refused added)
qed

lemma flow_table_insert_entry_ok:
  assumes ok: "cntrack_inv st" and mem: "fresh mem st" and k: "ft_table st key = None"
  obtains (failed) df' st' where "flow_table_insert_entry env mem key df port st = Some (None, df', st')" "cntrack_inv st'"
    "ft_table st' = ft_table st"
  | (inserted) p df' st' v where "flow_table_insert_entry env mem key df port st = Some (Some p, df', st')" "flow_inv st'" "cache_wf st'"
    "ft_table st' = (ft_table st)(key \<mapsto> p, dp_invert_flow_key key \<mapsto> p)" "ft_heap st' = (ft_heap st)(p \<mapsto> v)"
    "fv_key_org v = key" "fv_key_reply v = dp_invert_flow_key key" "fv_ref_count v = 2" "ft_heap st p = None"
    "ft_key_cache st' = ft_key_cache st" "ft_curr st' = ft_curr st"
    "df' = df\<lparr> df_flow_dir := DP_FLOW_DIR_ORG, df_flow_hash := fe_hash env key \<rparr>" "mem = Some p" "ft_ctxs st' = ft_ctxs st"
    "v = (new_flow_value env key df port)\<lparr> fv_key_reply := dp_invert_flow_key key, fv_ref_count := 2 \<rparr>"
proof (cases mem)
  case None
  then show thesis using ok by (intro failed[of df st]) (simp_all add: flow_table_insert_entry_def)
next
  case (Some p)
  with mem have p: "ft_heap st p = None" by (simp add: fresh_def)
  let ?v = "new_flow_value env key df port"
  let ?v2 = "?v\<lparr> fv_key_reply := dp_invert_flow_key key \<rparr>"
  let ?df = "df\<lparr> df_flow_dir := DP_FLOW_DIR_ORG \<rparr>"
  have inv: "flow_inv st" "cache_wf st" using ok by (simp_all add: cntrack_inv_def)
  show thesis
  proof (rule insert_flow_ok[OF inv(1) p, of ?v key])
    fix e assume "dp_add_flow env key p (st\<lparr> ft_heap := (ft_heap st)(p \<mapsto> ?v) \<rparr>) = (Inl e, st\<lparr> ft_heap := (ft_heap st)(p \<mapsto> ?v) \<rparr>)"
      "rte_free_flow p (st\<lparr> ft_heap := (ft_heap st)(p \<mapsto> ?v) \<rparr>) = st"
    then show thesis using ok Some by (intro failed[of ?df st]) (simp_all add: flow_table_insert_entry_def Let_def)
  next
    let ?s = "st\<lparr> ft_heap := (ft_heap st)(p \<mapsto> ?v), ft_table := (ft_table st)(key \<mapsto> p) \<rparr>"
    assume a: "dp_add_flow env key p (st\<lparr> ft_heap := (ft_heap st)(p \<mapsto> ?v) \<rparr>) = (DP_OK, ?s)" "flow_inv ?s"
    let ?s2 = "?s\<lparr> ft_heap := (ft_heap ?s)(p \<mapsto> ?v2) \<rparr>"
    have "flow_inv ?s2" by (rule flow_inv_set[OF a(2), of p ?v]) simp_all
    then show thesis
    proof (rule insert_reply_ok[where key = key and p = p and v = ?v2 and ikey = "dp_invert_flow_key key"])
      show "ft_table ?s2 key = Some p" "ft_heap ?s2 p = Some ?v2" "fv_ref_count ?v2 = 1" by simp_all
    next
      fix st' assume st': "insert_reply env key (dp_invert_flow_key key) p ?s2 = Some (True, st')" "flow_inv st'"
        "st' = ?s2\<lparr> ft_table := (ft_table ?s2)(dp_invert_flow_key key \<mapsto> p), ft_heap := (ft_heap ?s2)(p \<mapsto> ?v2\<lparr> fv_ref_count := 2 \<rparr>) \<rparr>"
      then show thesis using Some a p inv(2)
        by (intro inserted[of p "?df\<lparr> df_flow_hash := fe_hash env key \<rparr>" st' "?v2\<lparr> fv_ref_count := 2 \<rparr>"])
          (simp_all add: flow_table_insert_entry_def Let_def dp_get_conntrack_flow_hash_value_def)
    next
      fix st' assume st': "insert_reply env key (dp_invert_flow_key key) p ?s2 = Some (False, st')" "flow_inv st'"
        "ft_prev st' = None" "ft_cached st' = None" "ft_key_cache st' = ft_key_cache ?s2" "ft_curr st' = ft_curr ?s2"
        "ft_cache_index st' = ft_cache_index ?s2" "ft_table st' = (ft_table ?s2)(key := None)"
      then show thesis using Some a ok k
        by (intro failed[of "?df\<lparr> df_flow_hash := fe_hash env key \<rparr>" st'])
          (simp_all add: flow_table_insert_entry_def Let_def dp_get_conntrack_flow_hash_value_def cntrack_inv_def cache_wf_def cache_coherent_def fun_upd_idem)
    qed
  qed simp_all
qed

lemma known_flow_ok:
  assumes ok: "cntrack_inv st" and p: "ft_heap st p = Some v"
  obtains df v' where "known_flow env port key p m st = Some (Inr p, m\<lparr> mb_df := df \<rparr>, st\<lparr> ft_heap := (ft_heap st)(p \<mapsto> v') \<rparr>)"
    "cntrack_inv (st\<lparr> ft_heap := (ft_heap st)(p \<mapsto> v') \<rparr>)" "df = dp_set_pkt_flow_direction env key v (mb_df m)"
proof -
  let ?df = "dp_set_pkt_flow_direction env key v (mb_df m)"
  show thesis
    by (rule that[of ?df "dp_set_flow_offload_flag env port v ?df"])
      (use cntrack_inv_heap[OF ok p] p in \<open>simp_all add: known_flow_def Let_def\<close>)
qed

lemma cached_live: "cntrack_inv st \<Longrightarrow> ft_cached st = Some p \<Longrightarrow> \<exists>v. ft_heap st p = Some v"
  by (auto simp: cntrack_inv_def flow_ok_def pointers_ok_def)

lemma cache_slot_inv:
  assumes "cntrack_inv st" shows "cntrack_inv (st\<lparr> ft_key_cache := (ft_key_cache st)[ft_curr st := key] \<rparr>)"
  using assms by (auto simp: cntrack_inv_def cache_wf_def cache_coherent_def)

lemma cache_inv:
  assumes "flow_inv st" "cache_wf st" "ft_table st (ft_key_cache st ! ft_curr st) = Some p"
  shows "cntrack_inv (dp_cache_flow_val p st)"
  using assms flow_ok_table_live[OF assms(1,3)] cache_flow_val_wf[OF assms(2)] cache_flow_val_coherent[OF assms(2,3)]
  by (simp add: cntrack_inv_def)

lemma dp_get_flow_val_ok:
  assumes ok: "cntrack_inv st" and port: "dp_get_in_port env m = Some port"
    and mem: "fresh mem st"
  shows "\<exists>ret df st1 st2. dp_get_flow_val env mem m st = Some (ret, m\<lparr> mb_df := df \<rparr>, st1) \<and> cntrack_inv st1
    \<and> (\<forall>p. ret = Inr p \<longrightarrow> ft_heap st1 p \<noteq> None)
    \<and> flow_val_uncached env mem m st = Some (ret, m\<lparr> mb_df := df \<rparr>, st2) \<and> forget_cache st1 = forget_cache st2"
proof -
  obtain ret key where bk: "dp_build_flow_key env (ft_nat st) port m (ft_key_cache st ! ft_curr st) = (ret, key)"
    by (cases "dp_build_flow_key env (ft_nat st) port m (ft_key_cache st ! ft_curr st)")
  let ?s = "st\<lparr> ft_key_cache := (ft_key_cache st)[ft_curr st := key] \<rparr>"
  have sok: "cntrack_inv ?s" by (rule cache_slot_inv[OF ok])
  have slot: "ft_key_cache ?s ! ft_curr ?s = key"
    using ok by (simp add: cntrack_inv_def cache_wf_def)
  have tbl: "ft_table ?s = ft_table st" "ft_heap ?s = ft_heap st" by simp_all
  show ?thesis
  proof (cases ret)
    case (Inl e)
    then show ?thesis using bk port sok
      by (auto simp: dp_get_flow_val_def flow_val_uncached_def intro!: exI[of _ "mb_df m"])
  next
    case (Inr u)
    let ?hit = "case ft_prev ?s of None \<Rightarrow> False | Some prev \<Rightarrow> dp_are_flows_identical key (ft_key_cache ?s ! prev)"
    show ?thesis
    proof (cases "ft_table ?s key")
      case (Some p)
      then have live: "\<exists>v. ft_heap ?s p = Some v"
        using sok flow_ok_table_live by (auto simp: cntrack_inv_def)
      then obtain v where v: "ft_heap ?s p = Some v" by auto
      obtain df v' where kf: "known_flow env port key p m ?s = Some (Inr p, m\<lparr> mb_df := df \<rparr>, ?s\<lparr> ft_heap := (ft_heap ?s)(p \<mapsto> v') \<rparr>)"
        "cntrack_inv (?s\<lparr> ft_heap := (ft_heap ?s)(p \<mapsto> v') \<rparr>)"
        by (rule known_flow_ok[OF sok v])
      let ?r = "?s\<lparr> ft_heap := (ft_heap ?s)(p \<mapsto> v') \<rparr>"
      have unc: "flow_val_uncached env mem m st = Some (Inr p, m\<lparr> mb_df := df \<rparr>, ?r)"
        using Inr bk port Some kf(1) by (simp add: flow_val_uncached_def dp_get_flow_def ft.lookup_data)
      show ?thesis
      proof (cases ?hit)
        case True
        then have "ft_cached ?s = Some p"
          using sok Some by (auto simp: cntrack_inv_def cache_coherent_def dp_are_flows_identical_def split: option.splits)
        then have "dp_get_flow_val env mem m st = Some (Inr p, m\<lparr> mb_df := df \<rparr>, ?r)"
          using Inr bk port True kf(1) by (simp add: dp_get_flow_val_def)
        with unc kf(2) show ?thesis by (intro exI[of _ "Inr p"] exI conjI) (assumption | rule refl | simp)+
      next
        case False
        then have get: "dp_get_flow_val env mem m st = Some (Inr p, m\<lparr> mb_df := df \<rparr>, dp_cache_flow_val p ?r)"
          using Inr bk port Some kf(1) by (simp add: dp_get_flow_val_def dp_get_flow_def ft.lookup_data)
        have c: "cntrack_inv (dp_cache_flow_val p ?r)"
          using cache_inv[of ?r p] kf(2) slot Some by (simp add: cntrack_inv_def)
        have "ft_heap (dp_cache_flow_val p ?r) p \<noteq> None" by (simp add: dp_cache_flow_val_def Let_def)
        moreover have "forget_cache (dp_cache_flow_val p ?r) = forget_cache ?r" by simp
        ultimately show ?thesis using get c unc by blast
      qed
    next
      case None
      have nohit: "\<not> ?hit"
        using sok None by (auto simp: cntrack_inv_def cache_coherent_def dp_are_flows_identical_def split: option.splits)
      have run: "dp_get_flow_val env mem m st = do {
             (flow_val, df, st) \<leftarrow> flow_table_insert_entry env mem key (mb_df m) port ?s;
             Some (case flow_val of
               None \<Rightarrow> (Inl DP_ERROR, m\<lparr> mb_df := df \<rparr>, st)
             | Some p \<Rightarrow> (Inr p, m\<lparr> mb_df := df \<rparr>, dp_cache_flow_val p st)) }"
        and ref: "flow_val_uncached env mem m st = do {
             (flow_val, df, st) \<leftarrow> flow_table_insert_entry env mem key (mb_df m) port ?s;
             Some (case flow_val of None \<Rightarrow> Inl DP_ERROR | Some p \<Rightarrow> Inr p, m\<lparr> mb_df := df \<rparr>, st) }"
        using Inr bk port None nohit
        by (simp_all add: dp_get_flow_val_def flow_val_uncached_def dp_get_flow_def ft.lookup_data)
      have mem': "fresh mem ?s" using mem by (simp add: fresh_def)
      show ?thesis
      proof (rule flow_table_insert_entry_ok[OF sok mem' None, of "mb_df m" port])
        fix df' st' assume "flow_table_insert_entry env mem key (mb_df m) port ?s = Some (None, df', st')" "cntrack_inv st'"
        then show ?thesis unfolding run ref by auto
      next
        fix p df' st' v
        assume i: "flow_table_insert_entry env mem key (mb_df m) port ?s = Some (Some p, df', st')" "flow_inv st'" "cache_wf st'"
          "ft_table st' = (ft_table ?s)(key \<mapsto> p, dp_invert_flow_key key \<mapsto> p)" "ft_heap st' = (ft_heap ?s)(p \<mapsto> v)"
          "ft_key_cache st' = ft_key_cache ?s" "ft_curr st' = ft_curr ?s"
        have "cntrack_inv (dp_cache_flow_val p st')"
          using i slot by (intro cache_inv) auto
        moreover have "ft_heap (dp_cache_flow_val p st') p \<noteq> None" using i(5) by (simp add: dp_cache_flow_val_def Let_def)
        ultimately show ?thesis unfolding run ref i(1) by auto
      qed
    qed
  qed
qed

lemma in_port_df: "dp_get_in_port env (m\<lparr> mb_df := df \<rparr>) = dp_get_in_port env m"
  by (simp add: dp_get_in_port_def)

lemma dp_cntrack_handle_ok:
  assumes ok: "cntrack_inv st" and port: "dp_get_in_port env m = Some port"
    and mem: "fresh mem st"
  shows "\<exists>ret df st'. dp_cntrack_handle env mem now m st = Some (ret, m\<lparr> mb_df := df \<rparr>, st') \<and> cntrack_inv st' \<and>
    (ret = DP_OK \<longrightarrow> (\<exists>p v. df_conntrack df = Some p \<and> ft_heap st' p = Some v))"
proof -
  obtain ret df st1 where g: "dp_get_flow_val env mem m st = Some (ret, m\<lparr> mb_df := df \<rparr>, st1)" "cntrack_inv st1"
    "\<forall>p. ret = Inr p \<longrightarrow> ft_heap st1 p \<noteq> None"
    using dp_get_flow_val_ok[OF ok port mem] by blast
  show ?thesis
  proof (cases ret)
    case (Inl e)
    then have "dp_cntrack_handle env mem now m st = Some (Inl e, m\<lparr> mb_df := df \<rparr>, st1)"
      using g(1) by (simp add: dp_cntrack_handle_def)
    then show ?thesis by (intro exI[of _ "Inl e"] exI[of _ df] exI[of _ st1] conjI g(2)) simp_all
  next
    case (Inr p)
    with g(3) obtain v where v: "ft_heap st1 p = Some v" by auto
    let ?m = "m\<lparr> mb_df := df \<rparr>"
    have inv: "cntrack_inv (st1\<lparr> ft_heap := (ft_heap st1)(p \<mapsto> v') \<rparr>)"
      if "fv_age_ctxs v' = fv_age_ctxs v" "fv_ref_count v' = fv_ref_count v" for v'
      by (rule cntrack_inv_heap[OF g(2) v that])
    have run: "dp_cntrack_handle env mem now m st =
        (let (ret, m, v) = track_flow env port now p ?m v in Some (ret, m, st1\<lparr> ft_heap := (ft_heap st1)(p \<mapsto> v) \<rparr>))"
      using g(1) Inr v port by (simp add: dp_cntrack_handle_def in_port_df)
    show ?thesis
    proof (rule track_flow_cases[of env port now p ?m v])
      fix e v' assume t: "track_flow env port now p ?m v = (Inl e, ?m, v')" "fv_age_ctxs v' = fv_age_ctxs v" "fv_ref_count v' = fv_ref_count v"
      have "dp_cntrack_handle env mem now m st = Some (Inl e, ?m, st1\<lparr> ft_heap := (ft_heap st1)(p \<mapsto> v') \<rparr>)"
        unfolding run t(1) by simp
      then show ?thesis
        by (intro exI[of _ "Inl e"] exI[of _ df] exI[of _ "st1\<lparr> ft_heap := (ft_heap st1)(p \<mapsto> v') \<rparr>"] conjI inv[OF t(2,3)])
          simp_all
    next
      fix v' assume t: "track_flow env port now p ?m v = (DP_OK, ?m\<lparr> mb_df := dp_cntrack_set_pkt_offload_decision v' ((mb_df ?m)\<lparr> df_conntrack := Some p \<rparr>) \<rparr>, v')"
        "fv_age_ctxs v' = fv_age_ctxs v" "fv_ref_count v' = fv_ref_count v"
      let ?df = "dp_cntrack_set_pkt_offload_decision v' (df\<lparr> df_conntrack := Some p \<rparr>)"
      have c: "df_conntrack ?df = Some p" by (simp add: dp_cntrack_set_pkt_offload_decision_def)
      have l: "ft_heap (st1\<lparr> ft_heap := (ft_heap st1)(p \<mapsto> v') \<rparr>) p = Some v'" by simp
      have "dp_cntrack_handle env mem now m st = Some (DP_OK, m\<lparr> mb_df := ?df \<rparr>, st1\<lparr> ft_heap := (ft_heap st1)(p \<mapsto> v') \<rparr>)"
        unfolding run t(1) by simp
      then show ?thesis
        by (intro exI[of _ DP_OK] exI[of _ ?df] exI[of _ "st1\<lparr> ft_heap := (ft_heap st1)(p \<mapsto> v') \<rparr>"] conjI inv[OF t(2,3)] impI)
          (use c l in simp_all)
    qed
  qed
qed

end

section \<open>Properties\<close>

text \<open>C12: the cache of the last flow does not show: from every state in which the tracker's
  invariant holds, the lookup through the cache delivers the same flow, changes the packet
  and the tables in the same way as a lookup that always searches the table, follows no
  dangling pointer, and keeps the invariant, whether the flow is cached, in the table, new,
  or cannot be created.\<close>

theorem conntrack_cache_transparent:
  assumes "hash_table (fe_tbl env)" "cntrack_inv st" "dp_get_in_port env m = Some port"
    "fresh mem st"
  shows "\<exists>ret m' st1 st2. dp_get_flow_val env mem m st = Some (ret, m', st1) \<and> cntrack_inv st1
    \<and> flow_val_uncached env mem m st = Some (ret, m', st2) \<and> forget_cache st1 = forget_cache st2"
  using flow_tables.dp_get_flow_val_ok[OF flow_tables.intro[OF assms(1)] assms(2-4)] by (elim exE conjE) blast

subsection \<open>The handshake\<close>

definition tcp_run :: "flow_value \<Rightarrow> (dp_flow_dir \<times> uint8) list \<Rightarrow> flow_value" where
  "tcp_run v pkts = fold (\<lambda>(dir, flags) v. dp_cntrack_tcp_state v (dp_init_flow_ptr\<lparr> df_flow_dir := dir \<rparr>) flags) pkts v"

definition quiet :: "(dp_flow_dir \<times> uint8) list \<Rightarrow> bool" where
  "quiet pkts \<longleftrightarrow> (\<forall>(dir, flags) \<in> set pkts. \<not> DP_TCP_PKT_FLAG_RST flags \<and> \<not> DP_TCP_PKT_FLAG_FIN flags)"

lemma tcp_run_snoc: "tcp_run v (ps @ [(d, f)]) = dp_cntrack_tcp_state (tcp_run v ps) (dp_init_flow_ptr\<lparr> df_flow_dir := d \<rparr>) f"
  by (simp add: tcp_run_def)

lemma quiet_append [simp]: "quiet (xs @ ys) \<longleftrightarrow> quiet xs \<and> quiet ys" "quiet []"
  "quiet ((d, f) # ys) \<longleftrightarrow> \<not> DP_TCP_PKT_FLAG_RST f \<and> \<not> DP_TCP_PKT_FLAG_FIN f \<and> quiet ys"
  by (auto simp: quiet_def)

definition syn_seen :: "(dp_flow_dir \<times> uint8) list \<Rightarrow> dp_flow_dir \<Rightarrow> bool" where
  "syn_seen ps d \<longleftrightarrow> (\<exists>xs ys. ps = xs @ (d, 0x02) # ys \<and> quiet ys)"

definition synack_seen :: "(dp_flow_dir \<times> uint8) list \<Rightarrow> dp_flow_dir \<Rightarrow> bool" where
  "synack_seen ps d \<longleftrightarrow> (\<exists>xs d' ys. ps = xs @ (d', 0x12) # ys \<and> d' \<noteq> d \<and> syn_seen xs d \<and> quiet ys)"

definition ack_seen :: "(dp_flow_dir \<times> uint8) list \<Rightarrow> dp_flow_dir \<Rightarrow> bool" where
  "ack_seen ps d \<longleftrightarrow> (\<exists>xs ys. ps = xs @ (d, 0x10) # ys \<and> synack_seen xs d \<and> quiet ys)"

lemma seen_snoc:
  assumes "\<not> DP_TCP_PKT_FLAG_RST f" "\<not> DP_TCP_PKT_FLAG_FIN f"
  shows "syn_seen ps d \<Longrightarrow> syn_seen (ps @ [(e, f)]) d" "synack_seen ps d \<Longrightarrow> synack_seen (ps @ [(e, f)]) d"
    "ack_seen ps d \<Longrightarrow> ack_seen (ps @ [(e, f)]) d"
proof -
  show "syn_seen ps d \<Longrightarrow> syn_seen (ps @ [(e, f)]) d"
    unfolding syn_seen_def using assms by (metis append.assoc append_Cons quiet_append)
  show "synack_seen ps d \<Longrightarrow> synack_seen (ps @ [(e, f)]) d"
    unfolding synack_seen_def using assms by (metis append.assoc append_Cons quiet_append)
  show "ack_seen ps d \<Longrightarrow> ack_seen (ps @ [(e, f)]) d"
    unfolding ack_seen_def using assms by (metis append.assoc append_Cons quiet_append)
qed

lemma exact_flags: "DP_TCP_PKT_FLAG_EXACT f r \<longleftrightarrow> f = r"
proof -
  have "(0xFF :: uint8) = mask 8" by (simp add: mask_eq_exp_minus_1)
  then have "f AND 0xFF = take_bit 8 f" by (simp only: take_bit_eq_mask)
  moreover have "take_bit 8 f = f" by (simp add: take_bit_word_eq_self)
  ultimately have "f AND 0xFF = f" by (rule trans)
  then show ?thesis by (simp only: DP_TCP_PKT_FLAG_EXACT_def)
qed

lemma seen_last:
  "syn_seen (ps @ [(d, 0x02)]) d"
  "syn_seen ps d \<Longrightarrow> e \<noteq> d \<Longrightarrow> synack_seen (ps @ [(e, 0x12)]) d"
  "synack_seen ps d \<Longrightarrow> ack_seen (ps @ [(d, 0x10)]) d"
  unfolding syn_seen_def synack_seen_def ack_seen_def by (metis quiet_append(2))+

lemma ack_seenE:
  assumes "ack_seen ps d"
  shows "\<exists>d d' xs ys zs ws. ps = xs @ (d, 0x02) # ys @ (d', 0x12) # zs @ (d, 0x10) # ws \<and> d' \<noteq> d \<and> quiet (ys @ zs @ ws)"
proof -
  obtain as ws where 1: "ps = as @ (d, 0x10) # ws" "synack_seen as d" "quiet ws"
    using assms unfolding ack_seen_def by blast
  obtain bs d' zs where 2: "as = bs @ (d', 0x12) # zs" "d' \<noteq> d" "syn_seen bs d" "quiet zs"
    using 1(2) unfolding synack_seen_def by blast
  obtain xs ys where 3: "bs = xs @ (d, 0x02) # ys" "quiet ys" using 2(3) unfolding syn_seen_def by blast
  have "ps = xs @ (d, 0x02) # ys @ (d', 0x12) # zs @ (d, 0x10) # ws" using 1(1) 2(1) 3(1) by simp
  moreover have "quiet (ys @ zs @ ws)" using 1(3) 2(4) 3(2) by simp
  ultimately show ?thesis using 2(2) by blast
qed

definition seen_inv :: "(dp_flow_dir \<times> uint8) list \<Rightarrow> flow_value \<Rightarrow> bool" where
  "seen_inv ps v \<longleftrightarrow> (case fv_tcp_state v of
     DP_FLOW_TCP_STATE_NEW_SYN \<Rightarrow> syn_seen ps (fv_first_syn_dir v)
   | DP_FLOW_TCP_STATE_NEW_SYNACK \<Rightarrow> synack_seen ps (fv_first_syn_dir v)
   | DP_FLOW_TCP_STATE_ESTABLISHED \<Rightarrow> ack_seen ps (fv_first_syn_dir v)
   | _ \<Rightarrow> True)"

lemma seen_inv_step:
  assumes "seen_inv ps v" "df_flow_dir df = d"
  shows "seen_inv (ps @ [(d, f)]) (dp_cntrack_tcp_state v df f)"
proof (cases "DP_TCP_PKT_FLAG_RST f \<or> DP_TCP_PKT_FLAG_FIN f")
  case True
  then show ?thesis by (auto simp: seen_inv_def dp_cntrack_tcp_state_def)
next
  case False
  note flags = DP_TCP_PKT_FLAG_ONLY_SYN_def DP_TCP_PKT_FLAG_ONLY_ACK_def DP_TCP_PKT_FLAG_ONLY_SYNACK_def exact_flags
  from False have q: "\<not> DP_TCP_PKT_FLAG_RST f" "\<not> DP_TCP_PKT_FLAG_FIN f" by simp_all
  show ?thesis
    using assms seen_snoc[OF q, of ps "fv_first_syn_dir v" d] seen_last[of ps]
    by (cases "fv_tcp_state v") (simp_all add: seen_inv_def dp_cntrack_tcp_state_def q flags)
qed

lemma tcp_run_seen: "fv_tcp_state v = DP_FLOW_TCP_STATE_NONE \<Longrightarrow> seen_inv ps (tcp_run v ps)"
proof (induction ps rule: rev_induct)
  case Nil
  then show ?case by (simp add: tcp_run_def seen_inv_def)
next
  case (snoc x ps)
  then show ?case by (cases x) (simp add: tcp_run_snoc seen_inv_step)
qed


subsection \<open>Both directions\<close>

context flow_tables
begin

lemma no_hit:
  assumes "cntrack_inv st" "ft_table st key = None"
  shows "\<not> (case ft_prev st of None \<Rightarrow> False | Some prev \<Rightarrow> dp_are_flows_identical key (ft_key_cache st ! prev))"
  using assms by (auto simp: cntrack_inv_def cache_coherent_def dp_are_flows_identical_def split: option.splits)

lemma dp_get_flow_val_new:
  assumes ok: "cntrack_inv st" and port: "dp_get_in_port env m = Some port" and mem: "fresh mem st"
    and bk: "dp_build_flow_key env (ft_nat st) port m (ft_key_cache st ! ft_curr st) = (DP_OK, k)" and k: "ft_table st k = None"
    and run: "dp_get_flow_val env mem m st = Some (Inr p, m', st1)"
  shows "df_flow_dir (mb_df m') = DP_FLOW_DIR_ORG" "ft_table st1 = (ft_table st)(k \<mapsto> p, dp_invert_flow_key k \<mapsto> p)" "cntrack_inv st1"
    "\<exists>v. ft_heap st1 = (ft_heap st)(p \<mapsto> v) \<and> fv_key_org v = k \<and> fv_key_reply v = dp_invert_flow_key k \<and> fv_ref_count v = 2"
    "ft_ctxs st1 = ft_ctxs st"
proof -
  let ?s = "st\<lparr> ft_key_cache := (ft_key_cache st)[ft_curr st := k] \<rparr>"
  have sok: "cntrack_inv ?s" by (rule cache_slot_inv[OF ok])
  have fr: "fresh mem ?s" using mem by (simp add: fresh_def)
  have ks: "ft_table ?s k = None" using k by simp
  have run': "(do {
      (flow_val, df, st) \<leftarrow> flow_table_insert_entry env mem k (mb_df m) port ?s;
      Some (case flow_val of
        None \<Rightarrow> (Inl DP_ERROR, m\<lparr> mb_df := df \<rparr>, st)
      | Some p \<Rightarrow> (Inr p, m\<lparr> mb_df := df \<rparr>, dp_cache_flow_val p st)) }) = Some (Inr p, m', st1)"
    using run bk port ks no_hit[OF sok ks] by (simp add: dp_get_flow_val_def dp_get_flow_def ft.lookup_data)
  have "df_flow_dir (mb_df m') = DP_FLOW_DIR_ORG \<and> ft_table st1 = (ft_table st)(k \<mapsto> p, dp_invert_flow_key k \<mapsto> p) \<and> cntrack_inv st1 \<and>
    (\<exists>v. ft_heap st1 = (ft_heap st)(p \<mapsto> v) \<and> fv_key_org v = k \<and> fv_key_reply v = dp_invert_flow_key k \<and> fv_ref_count v = 2)
    \<and> ft_ctxs st1 = ft_ctxs st"
  proof (rule flow_table_insert_entry_ok[OF sok fr ks, of "mb_df m" port])
    fix df' st' assume "flow_table_insert_entry env mem k (mb_df m) port ?s = Some (None, df', st')"
    then show ?thesis using run' by simp
  next
    fix q df' st' v
    assume i: "flow_table_insert_entry env mem k (mb_df m) port ?s = Some (Some q, df', st')" "flow_inv st'" "cache_wf st'"
      "ft_table st' = (ft_table ?s)(k \<mapsto> q, dp_invert_flow_key k \<mapsto> q)" "ft_heap st' = (ft_heap ?s)(q \<mapsto> v)"
      "fv_key_org v = k" "fv_key_reply v = dp_invert_flow_key k" "fv_ref_count v = 2"
      "ft_key_cache st' = ft_key_cache ?s" "ft_curr st' = ft_curr ?s"
      "df' = (mb_df m)\<lparr> df_flow_dir := DP_FLOW_DIR_ORG, df_flow_hash := fe_hash env k \<rparr>" "ft_ctxs st' = ft_ctxs ?s"
    have r: "q = p" "m' = m\<lparr> mb_df := df' \<rparr>" "st1 = dp_cache_flow_val p st'" using run' i(1) by auto
    have slot: "ft_key_cache st' ! ft_curr st' = k" using i(9,10) ok by (simp add: cntrack_inv_def cache_wf_def)
    have "cntrack_inv (dp_cache_flow_val p st')" using i slot r(1) by (intro cache_inv) auto
    then show ?thesis using i r by (intro conjI exI[of _ v]) simp_all
  qed
  then show "df_flow_dir (mb_df m') = DP_FLOW_DIR_ORG" "ft_table st1 = (ft_table st)(k \<mapsto> p, dp_invert_flow_key k \<mapsto> p)" "cntrack_inv st1"
    "\<exists>v. ft_heap st1 = (ft_heap st)(p \<mapsto> v) \<and> fv_key_org v = k \<and> fv_key_reply v = dp_invert_flow_key k \<and> fv_ref_count v = 2"
    "ft_ctxs st1 = ft_ctxs st"
    by simp_all
qed

lemma dp_get_flow_val_known:
  assumes ok: "cntrack_inv st" and port: "dp_get_in_port env m = Some port"
    and bk: "dp_build_flow_key env (ft_nat st) port m (ft_key_cache st ! ft_curr st) = (DP_OK, k)"
    and k: "ft_table st k = Some p" and v: "ft_heap st p = Some v"
  shows "\<exists>st'. dp_get_flow_val env mem m st = Some (Inr p, m\<lparr> mb_df := dp_set_pkt_flow_direction env k v (mb_df m) \<rparr>, st')"
proof -
  let ?s = "st\<lparr> ft_key_cache := (ft_key_cache st)[ft_curr st := k] \<rparr>"
  have sok: "cntrack_inv ?s" by (rule cache_slot_inv[OF ok])
  have kf: "\<exists>st'. known_flow env port k p m ?s = Some (Inr p, m\<lparr> mb_df := dp_set_pkt_flow_direction env k v (mb_df m) \<rparr>, st')"
    using v by (simp add: known_flow_def Let_def)
  show ?thesis
  proof (cases "case ft_prev ?s of None \<Rightarrow> False | Some prev \<Rightarrow> dp_are_flows_identical k (ft_key_cache ?s ! prev)")
    case True
    then have "ft_cached ?s = Some p"
      using sok k by (auto simp: cntrack_inv_def cache_coherent_def dp_are_flows_identical_def split: option.splits)
    with True kf bk port show ?thesis by (auto simp: dp_get_flow_val_def)
  next
    case False
    with kf bk port k show ?thesis by (auto simp: dp_get_flow_val_def dp_get_flow_def ft.lookup_data)
  qed
qed

end

text \<open>C13: the two directions of a connection share one flow: when a packet has created a flow,
  a packet with the inverted key is given the same flow and the direction of a reply, and a
  further packet with the first key the same flow and the original direction.\<close>

theorem conntrack_reply:
  assumes "hash_table (fe_tbl env)" "cntrack_inv st" "dp_get_in_port env m = Some port" "fresh mem st"
    and "dp_build_flow_key env (ft_nat st) port m (ft_key_cache st ! ft_curr st) = (DP_OK, k)" "ft_table st k = None"
    and "dp_get_flow_val env mem m st = Some (Inr p, m', st1)" "dp_invert_flow_key k \<noteq> k"
    and "dp_get_in_port env r = Some port'"
    and "dp_build_flow_key env (ft_nat st1) port' r (ft_key_cache st1 ! ft_curr st1) = (DP_OK, k')" "k' \<in> {k, dp_invert_flow_key k}"
  shows "df_flow_dir (mb_df m') = DP_FLOW_DIR_ORG \<and> (\<exists>r' st2. dp_get_flow_val env mem' r st1 = Some (Inr p, r', st2) \<and>
    df_flow_dir (mb_df r') = (if k' = k then DP_FLOW_DIR_ORG else DP_FLOW_DIR_REPLY))"
proof -
  have ft: "flow_tables env" by (rule flow_tables.intro[OF assms(1)])
  note new = flow_tables.dp_get_flow_val_new[OF ft assms(2-7)]
  obtain v where v: "ft_heap st1 p = Some v" "fv_key_org v = k" "fv_key_reply v = dp_invert_flow_key k" using new(4) by auto
  have k': "ft_table st1 k' = Some p" using new(2) assms(11) by auto
  obtain st2 where "dp_get_flow_val env mem' r st1 = Some (Inr p, r\<lparr> mb_df := dp_set_pkt_flow_direction env k' v (mb_df r) \<rparr>, st2)"
    using flow_tables.dp_get_flow_val_known[OF ft new(3) assms(9,10) k' v(1)] by blast
  moreover have "df_flow_dir (dp_set_pkt_flow_direction env k' v (mb_df r)) = (if k' = k then DP_FLOW_DIR_ORG else DP_FLOW_DIR_REPLY)"
    using assms(8,11) v by (auto simp: dp_set_pkt_flow_direction_def dp_are_flows_identical_def Let_def)
  ultimately show ?thesis using new(1) by (intro conjI exI) (assumption | simp)+
qed

subsection \<open>Keys that depend on earlier packets\<close>

text \<open>The key of an IPv6 packet from an interface, unless its destination is a NAT64 address,
  has no VNF type of its own: it keeps the one that an earlier packet, of any flow, left in
  the slot the key is built in.  Two packets of one UDP or TCP flow have the same key only
  if the leftovers agree.\<close>

theorem ipv6_key_leftover:
  assumes "\<not> is_pf port" "df_l3_type (mb_df m) = RTE_ETHER_TYPE_IPV6" "\<not> dp_is_ipv6_nat64 (df_dst (mb_df m))"
    "df_l4_type (mb_df m) = IPPROTO_TCP \<or> df_l4_type (mb_df m) = IPPROTO_UDP"
  shows "fk_vnf_type (snd (dp_build_flow_key env natst port m slot)) = fk_vnf_type slot
    \<and> (dp_build_flow_key env natst port m slot = dp_build_flow_key env natst port m slot' \<longleftrightarrow> fk_vnf_type slot = fk_vnf_type slot')"
  using assms by (cases slot; cases slot') (auto simp: dp_build_flow_key_def dp_mark_vnf_type_def dp_ipv6_from_ipaddr_def dp_set_ipaddr6_def Let_def)

subsection \<open>A flow that is never freed\<close>

text \<open>A packet whose source and destination are the same address and port makes a flow whose two
  keys are one.  The flow is counted twice and referenced once: when its entry is removed
  no key and no rule leads to it any more, and its memory is never freed.\<close>

theorem self_flow_leaks:
  assumes "hash_table (fe_tbl env)" "cntrack_inv st" "dp_get_in_port env m = Some port" "fresh mem st"
    and "dp_build_flow_key env (ft_nat st) port m (ft_key_cache st ! ft_curr st) = (DP_OK, k)" "ft_table st k = None"
    and "dp_get_flow_val env mem m st = Some (Inr p, m', st1)" "dp_invert_flow_key k = k" "mem = Some p"
  shows "\<exists>st2 v. dp_delete_flow env k p st1 = Some (DP_OK, st2) \<and> p \<notin> ran (ft_table st2) \<and> p \<notin> ran (ctx_owner st2)
    \<and> ft_heap st2 p = Some v \<and> fv_ref_count v = 1"
proof -
  have ft: "flow_tables env" by (rule flow_tables.intro[OF assms(1)])
  note new = flow_tables.dp_get_flow_val_new[OF ft assms(2-7)]
  obtain v where v: "ft_heap st1 p = Some v" "fv_ref_count v = 2" using new(4) by auto
  have tab: "ft_table st1 = (ft_table st)(k \<mapsto> p)" using new(2) assms(8) by simp
  have inv: "flow_inv st" using assms(2) by (simp add: cntrack_inv_def)
  have "ft_heap st p = None" using assms(4,9) by (simp add: fresh_def)
  then have dead: "flow_refs st p = 0"
    using flow_okD(3)[OF inv, of p] flow_refs_nonneg[of st p] by (simp add: ref_count_def)
  note none = flow_refs_zero[OF inv dead]
  have del: "rte_hash_del_key (fe_tbl env) (ft_table st1) k = Inr ((ft_table st)(k := None))"
    using tab assms(1) by (simp add: hash_table.del_key)
  let ?v = "v\<lparr> fv_ref_count := 1 \<rparr>"
  let ?st2 = "dp_cntrack_flush_cache (st1\<lparr> ft_table := (ft_table st)(k := None), ft_heap := (ft_heap st1)(p \<mapsto> ?v) \<rparr>)"
  have "dp_delete_flow env k p st1 = Some (DP_OK, ?st2)"
    using v by (simp add: dp_delete_flow_def del flow_ref_dec_def Let_def)
  moreover have "p \<notin> ran ((ft_table st)(k := None))" using none(1) by (auto simp: ran_def)
  moreover have "ctx_owner st1 = ctx_owner st" using new(5) by (simp add: ctx_owner_def fun_eq_iff)
  ultimately show ?thesis using none(2)
    by (intro exI[of _ ?st2] exI[of _ ?v]) (simp add: dp_cntrack_flush_cache_def ctx_owner_def[abs_def])
qed

lemma self_inverse_key:
  assumes "fk_l3_src k = fk_l3_dst k" "fk_src k = fk_port_dst k" "fk_proto k = IPPROTO_TCP \<or> fk_proto k = IPPROTO_UDP"
  shows "dp_invert_flow_key k = k"
  using assms by (cases k) (auto simp: dp_invert_flow_key_def Let_def)

subsection \<open>Flows of a backup\<close>

context flow_tables
begin

lemma dp_cntrack_from_sync_nat_ok:
  assumes ok: "cntrack_inv st" and prev: "ft_prev st = None" and mem: "fresh mem st"
  shows "\<exists>ret st'. dp_cntrack_from_sync_nat env mem po md ts st = Some (ret, st') \<and> cntrack_inv st' \<and> ft_prev st' = None"
proof (cases "dp_get_flow env (sync_flow_key po md) st")
  case (Inr q)
  then show ?thesis using ok prev by (simp add: dp_cntrack_from_sync_nat_def Let_def)
next
  case (Inl e)
  have inv: "flow_inv st" "cache_wf st" using ok by (simp_all add: cntrack_inv_def)
  show ?thesis
  proof (cases mem)
    case None
    then show ?thesis using Inl ok prev by (simp add: dp_cntrack_from_sync_nat_def Let_def)
  next
    case (Some p)
    with mem have p: "ft_heap st p = None" by (simp add: fresh_def)
    let ?v = "sync_flow_value env po md ts" let ?key = "sync_flow_key po md"
    let ?k = "nat64_org_key ?key"
    let ?old = "st\<lparr> ft_heap := (ft_heap st)(p \<mapsto> ?v) \<rparr>"
    let ?s = "?old\<lparr> ft_table := (ft_table st)(?k \<mapsto> p) \<rparr>"
    have run: "dp_cntrack_from_sync_nat env mem po md ts st = (case dp_add_flow env ?k p ?old of
            (Inl _, st) \<Rightarrow> Some (Inl DP_ERROR, rte_free_flow p st)
          | (Inr _, st) \<Rightarrow> do {
              (inserted, st) \<leftarrow> insert_reply env ?k (fv_key_reply ?v) p st;
              Some (if inserted then DP_OK else Inl DP_ERROR, st) })"
      using Inl Some by (simp add: dp_cntrack_from_sync_nat_def Let_def)
    show ?thesis
    proof (rule insert_flow_ok[OF inv(1) p, of ?v ?k])
      fix e assume "dp_add_flow env ?k p ?old = (Inl e, ?old)" "rte_free_flow p ?old = st"
      then show ?thesis unfolding run using ok prev by simp
    next
      assume a: "dp_add_flow env ?k p ?old = (DP_OK, ?s)" "flow_inv ?s"
      show ?thesis
      proof (rule insert_reply_ok[OF a(2), of ?k p ?v "fv_key_reply ?v"])
        fix st' assume "insert_reply env ?k (fv_key_reply ?v) p ?s = Some (True, st')" "flow_inv st'"
          "st' = ?s\<lparr> ft_table := (ft_table ?s)(fv_key_reply ?v \<mapsto> p), ft_heap := (ft_heap ?s)(p \<mapsto> ?v\<lparr> fv_ref_count := 2 \<rparr>) \<rparr>"
        then show ?thesis unfolding run a(1) using inv(2) prev by (simp add: cntrack_inv_def cache_coherent_def)
      next
        fix st' assume "insert_reply env ?k (fv_key_reply ?v) p ?s = Some (False, st')" "flow_inv st'"
          "ft_prev st' = None" "ft_cached st' = None" "ft_key_cache st' = ft_key_cache ?s" "ft_curr st' = ft_curr ?s"
          "ft_cache_index st' = ft_cache_index ?s"
        then show ?thesis unfolding run a(1) using inv(2) by (simp add: cntrack_inv_def cache_coherent_def cache_wf_def)
      qed simp_all
    qed simp_all
  qed
qed

end

text \<open>The flow of a NAT64 translation taken over from the other instance is stored under a key
  that differs from the one its value records as original, so that it is never sent on
  when the other instance asks for the translations again.\<close>

lemma from_sync_nat_keys:
  assumes "hash_table (fe_tbl env)" "ft_table st = Map.empty"
    "dp_cntrack_from_sync_nat env (Some p) po md ts st = Some (DP_OK, st')"
  shows "ft_table st' = [nat64_org_key (sync_flow_key po md) \<mapsto> p, fv_key_reply (sync_flow_value env po md ts) \<mapsto> p]"
    "ft_heap st' = (ft_heap st)(p \<mapsto> (sync_flow_value env po md ts)\<lparr> fv_ref_count := 2 \<rparr>)"
    "ft_nat st' = ft_nat st"
proof -
  let ?v = "sync_flow_value env po md ts" let ?k = "nat64_org_key (sync_flow_key po md)"
  let ?old = "st\<lparr> ft_heap := (ft_heap st)(p \<mapsto> ?v) \<rparr>"
  have ft: "flow_tables env" by (rule flow_tables.intro[OF assms(1)])
  have get: "dp_get_flow env (sync_flow_key po md) st = Inl (ERRNO ENOENT)"
    using assms(1,2) by (simp add: dp_get_flow_def hash_table.lookup_data)
  obtain s where s: "dp_add_flow env ?k p ?old = (DP_OK, s)" "s = ?old\<lparr> ft_table := (ft_table ?old)(?k \<mapsto> p) \<rparr>"
    by (rule flow_tables.dp_add_flow_cases[OF ft, of ?k p ?old])
      (use assms(3) get in \<open>auto simp: dp_cntrack_from_sync_nat_def Let_def\<close>)
  have run: "(do { (inserted, st) \<leftarrow> insert_reply env ?k (fv_key_reply ?v) p s;
      Some (if inserted then DP_OK else Inl DP_ERROR, st) }) = Some (DP_OK, st')"
    using assms(3) get s(1) by (simp add: dp_cntrack_from_sync_nat_def Let_def)
  have "st' = s\<lparr> ft_table := (ft_table s)(fv_key_reply ?v \<mapsto> p), ft_heap := (ft_heap s)(p \<mapsto> ?v\<lparr> fv_ref_count := 2 \<rparr>) \<rparr>"
  proof (rule flow_tables.dp_add_flow_cases[OF ft, of "fv_key_reply ?v" p s])
    fix e assume "dp_add_flow env (fv_key_reply ?v) p s = (Inl e, s)"
    then show ?thesis using run by (auto simp: insert_reply_def split: bind_splits prod.splits if_splits)
  next
    assume "dp_add_flow env (fv_key_reply ?v) p s = (DP_OK, s\<lparr> ft_table := (ft_table s)(fv_key_reply ?v \<mapsto> p) \<rparr>)"
    then show ?thesis using run s(2) by (simp add: insert_reply_def flow_ref_inc_def)
  qed
  then show "ft_table st' = [?k \<mapsto> p, fv_key_reply ?v \<mapsto> p]" "ft_heap st' = (ft_heap st)(p \<mapsto> ?v\<lparr> fv_ref_count := 2 \<rparr>)"
    "ft_nat st' = ft_nat st"
    using s(2) assms(2) by simp_all
qed

lemma sync_reply_key_fields:
  "fk_l3_src (sync_reply_key po key) = fk_l3_dst key"
  by (auto simp: sync_reply_key_def dp_invert_flow_key_def Let_def)

lemma sync_flow_value_reply [simp]: "fv_key_reply (sync_flow_value env po md ts) = sync_reply_key po (sync_flow_key po md)"
  by (simp add: sync_flow_value_def Let_def)

theorem nat64_flow_not_synchronised:
  assumes "hash_table (fe_tbl env)" "ft_table st = Map.empty" "pmk_src_ip (md_portmap_key md) = IPADDR6 src"
    "dp_cntrack_from_sync_nat env (Some p) po md ts st = Some (DP_OK, st')"
  shows "dp_synchronize_local_nat_flows env keys st' = Some st'"
proof -
  note keys = from_sync_nat_keys[OF assms(1,2,4)]
  have l3: "fk_l3_src (sync_flow_key po md) = IPADDR6 src" "fk_l3_dst (sync_flow_key po md) = IPADDR4 (pok_dst_ip po)"
    using assms(3) by (simp_all add: sync_flow_key_def dp_set_ipaddr4_def)
  have ne: "k \<noteq> sync_flow_key po md" if "ft_table st' k = Some q" for k q
  proof
    assume k: "k = sync_flow_key po md"
    have "k = nat64_org_key (sync_flow_key po md) \<or> k = sync_reply_key po (sync_flow_key po md)"
      using that keys(1) by (auto split: if_splits)
    then show False
    proof
      assume "k = nat64_org_key (sync_flow_key po md)"
      then have "fk_l3_dst k = dp_set_ipaddr_nat64 (pok_dst_ip po)" using l3 by (simp add: nat64_org_key_def ipaddr4_of_def)
      then show False using k l3(2) by (simp add: dp_set_ipaddr_nat64_def)
    next
      assume "k = sync_reply_key po (sync_flow_key po md)"
      then have "fk_l3_src k = IPADDR4 (pok_dst_ip po)" using sync_reply_key_fields[of po "sync_flow_key po md"] l3(2) by simp
      then show False using k l3(1) by simp
    qed
  qed
  have step: "sync_flow env k q st' = Some st'" if "ft_table st' k = Some q" for k q
  proof -
    have "q = p" using that keys(1) by (auto split: if_splits)
    then show ?thesis using ne[OF that] keys(2) by (simp add: sync_flow_def)
  qed
  have "walk_flows (sync_flow env) keys st' = Some st'"
    by (induction keys) (auto simp: step split: option.splits)
  then show ?thesis by (simp add: dp_synchronize_local_nat_flows_def)
qed

section \<open>Concrete inputs\<close>

text \<open>A UDP packet of the interface and the reply to it from the underlay.\<close>

definition ex_out :: rte_mbuf where
  "ex_out = (ex_mbuf IPPROTO_UDP 0 [])\<lparr> mb_port := 1, mb_df := ex_nat_df \<rparr>"

definition ex_in :: rte_mbuf where
  "ex_in = (ex_mbuf IPPROTO_UDP 0 [])\<lparr> mb_port := 0, mb_df := ex_nat_df\<lparr> df_src := df_dst ex_nat_df, df_dst := df_src ex_nat_df,
     df_l4_src_port := 53, df_l4_dst_port := 1234, df_tun_dst_vni := 100 \<rparr> \<rparr>"

definition ex_key :: flow_key where
  "ex_key = \<lparr> fk_l3_dst = IPADDR4 0x08080808, fk_proto = IPPROTO_UDP, fk_port_dst = 53, fk_l3_src = IPADDR4 0x0a000005,
     fk_vnf_type = DP_VNF_TYPE_UNDEFINED, fk_src = 1234, fk_vni = 100 \<rparr>"

lemma flow_state_init_inv: "cntrack_inv flow_state_init"
  using flow_inv_init by (simp add: cntrack_inv_def cache_wf_def cache_coherent_def flow_state_init_def)

lemma ex_ports: "dp_get_in_port ex_flow_env ex_out = Some ex_nat_port"
  "dp_get_in_port ex_flow_env ex_in = Some (dp_port_zero\<lparr> is_pf := True \<rparr>)"
  by (simp_all add: dp_get_in_port_def ex_flow_env_def ex_out_def ex_in_def)

lemma ex_addrs: "union_ipv4 \<lparr> ip6_prefix = 0x0a00000500000000, ip6_suffix = 0 \<rparr> = 0x0a000005"
  "union_ipv4 \<lparr> ip6_prefix = 0x0808080800000000, ip6_suffix = 0 \<rparr> = 0x08080808"
  by (simp_all add: union_ipv4_def)

lemma ex_keys:
  "dp_build_flow_key ex_flow_env ex_nat_state ex_nat_port ex_out slot = (DP_OK, ex_key)"
  "dp_build_flow_key ex_flow_env natst (dp_port_zero\<lparr> is_pf := True \<rparr>) ex_in slot = (DP_OK, dp_invert_flow_key ex_key)"
  by (cases slot; simp add: dp_build_flow_key_def dp_mark_vnf_type_def Let_def ex_out_def ex_in_def ex_nat_df_def df_src_addr_def df_dst_addr_def
      ex_addrs ex_nat_port_def dp_port_zero_def dp_iface_zero_def dp_set_ipaddr4_def dp_ipv6_from_ipaddr_def dp_get_iface_snat_data_def
      ex_flow_env_def ref_nat_lib_def ref_hash_def ex_nat_state_def dp_vnf_lbprefix_exists_def dp_vnf_value_exists_def ref_vnf_lib_def
      ex_key_def dp_init_flow_ptr_def dp_invert_flow_key_def)+

lemma ex_add_flow: "card (dom (ft_table st)) < 16 \<Longrightarrow>
    dp_add_flow ex_flow_env k p st = (DP_OK, st\<lparr> ft_table := (ft_table st)(k \<mapsto> p) \<rparr>)"
  by (simp add: dp_add_flow_def ex_flow_env_def ref_hash_def)

lemma ex_get_flow: "ft_table st k = None \<Longrightarrow> dp_get_flow ex_flow_env k st = Inl (ERRNO ENOENT)"
  by (simp add: dp_get_flow_def ex_flow_env_def ref_hash_def)

lemma ex_first_packet:
  "\<exists>m' st1. dp_get_flow_val ex_flow_env (Some 9) ex_out flow_state_init = Some (Inr 9, m', st1)"
proof -
  have init: "ft_nat flow_state_init = ex_nat_state" "ft_table flow_state_init = Map.empty" "ft_prev flow_state_init = None"
    by (simp_all add: flow_state_init_def)
  then have "\<exists>df st1. flow_table_insert_entry ex_flow_env (Some 9) ex_key (mb_df ex_out) ex_nat_port
      (flow_state_init\<lparr> ft_key_cache := (ft_key_cache flow_state_init)[ft_curr flow_state_init := ex_key] \<rparr>) = Some (Some 9, df, st1)"
    by (simp add: flow_table_insert_entry_def insert_reply_def ex_add_flow flow_ref_inc_def Let_def)
  then show ?thesis by (auto simp: dp_get_flow_val_def ex_ports init ex_keys ex_get_flow)
qed

theorem conntrack_cache_transparent_witness:
  "\<exists>ret m' st1 st2. dp_get_flow_val ex_flow_env (Some 9) ex_out flow_state_init = Some (ret, m', st1) \<and> cntrack_inv st1
    \<and> flow_val_uncached ex_flow_env (Some 9) ex_out flow_state_init = Some (ret, m', st2) \<and> forget_cache st1 = forget_cache st2"
  by (rule conntrack_cache_transparent[OF refflow.ft_ht flow_state_init_inv ex_ports(1)]) (simp add: fresh_def flow_state_init_def)


theorem conntrack_reply_witness:
  "\<exists>m' st1 r' st2. dp_get_flow_val ex_flow_env (Some 9) ex_out flow_state_init = Some (Inr 9, m', st1)
     \<and> df_flow_dir (mb_df m') = DP_FLOW_DIR_ORG
     \<and> dp_get_flow_val ex_flow_env None ex_in st1 = Some (Inr 9, r', st2) \<and> df_flow_dir (mb_df r') = DP_FLOW_DIR_REPLY"
proof -
  obtain m' st1 where run: "dp_get_flow_val ex_flow_env (Some 9) ex_out flow_state_init = Some (Inr 9, m', st1)"
    using ex_first_packet by blast
  have ne: "dp_invert_flow_key ex_key \<noteq> ex_key" by (simp add: ex_key_def dp_invert_flow_key_def)
  have "fresh (Some 9) flow_state_init" "ft_nat flow_state_init = ex_nat_state" "ft_table flow_state_init ex_key = None"
    by (simp_all add: fresh_def flow_state_init_def)
  then have "df_flow_dir (mb_df m') = DP_FLOW_DIR_ORG \<and> (\<exists>r' st2. dp_get_flow_val ex_flow_env None ex_in st1 = Some (Inr 9, r', st2) \<and>
      df_flow_dir (mb_df r') = (if dp_invert_flow_key ex_key = ex_key then DP_FLOW_DIR_ORG else DP_FLOW_DIR_REPLY))"
    by (intro conntrack_reply[OF refflow.ft_ht flow_state_init_inv ex_ports(1) _ _ _ run ne ex_ports(2) ex_keys(2)])
      (simp_all add: ex_keys)
  with run ne show ?thesis by auto
qed

theorem ipv6_key_leftover_witness:
  "fk_vnf_type (snd (dp_build_flow_key ex_flow_env ex_nat_state ex_nat_port
     (ex_out\<lparr> mb_df := ex_nat_df\<lparr> df_l3_type := RTE_ETHER_TYPE_IPV6 \<rparr> \<rparr>) (flow_key_zero\<lparr> fk_vnf_type := DP_VNF_TYPE_NAT \<rparr>))) = DP_VNF_TYPE_NAT"
  using ipv6_key_leftover[of ex_nat_port "ex_out\<lparr> mb_df := ex_nat_df\<lparr> df_l3_type := RTE_ETHER_TYPE_IPV6 \<rparr> \<rparr>" ex_flow_env ex_nat_state
      "flow_key_zero\<lparr> fk_vnf_type := DP_VNF_TYPE_NAT \<rparr>" flow_key_zero]
  by (simp add: ex_nat_port_def dp_port_zero_def ex_nat_df_def dp_is_ipv6_nat64_def dp_masked_ipv6_match_def dp_nat64_prefix_def dp_nat64_mask_def)

end
