(* ===== verification/Dp_Graph.thy ===== *)
theory Dp_Graph
  imports Complex_Main Dp_Packet
begin

text \<open>
  The wiring of the packet graph (\<open>src/dp_graph.c\<close>, \<open>src/nodes/common_node.c\<close>) and the
  choice between the two physical ports (\<open>src/dp_multi_path.c\<close>).

  A node of the graph has a list of edges; which edge a packet takes is an index into that list.
  The edges to the ports are appended when the graph is set up and their indices are kept in one
  table per node, whose zeroes stand for the edge to \<open>drop\<close>.
\<close>

section \<open>Edges\<close>

definition DP_MAX_PF_PORTS :: nat where "DP_MAX_PF_PORTS = 2"
definition DP_MAX_VF_PORTS :: nat where "DP_MAX_VF_PORTS = 126"
definition DP_MAX_PORTS :: nat where "DP_MAX_PORTS = DP_MAX_PF_PORTS + DP_MAX_VF_PORTS"

text \<open>An edge is the node it leads to; the nodes that transmit are one per port.\<close>

datatype edge = To_drop | To_cls | To_arp | To_ipv6_nd | To_conntrack | To_ipip_decap | To_ipsec_decap
  | To_virtsvc | To_lb | To_dhcp | To_dhcpv6 | To_dnat | To_firewall | To_ipv4_lookup | To_ipv6_lookup
  | To_packet_relay | To_snat | To_ipip_encap | To_ipsec_encap | To_tx uint16

text \<open>A node with edges to ports: its edges and the table of edge indices per port.\<close>

record tx_node =
  tn_edges :: "edge list"
  tn_index :: "uint16 list"

definition tx_node_registered :: "edge list \<Rightarrow> tx_node" where
  "tx_node_registered next_nodes = \<lparr> tn_edges = To_drop # next_nodes, tn_index = replicate DP_MAX_PORTS 0 \<rparr>"

text \<open>The calls of librte_graph the wiring makes: appending an edge to a node,
  and cloning a node.\<close>

record graph_lib =
  rte_node_edge_update :: "edge list \<Rightarrow> edge \<Rightarrow> edge list option"
  rte_node_clone :: "uint16 \<Rightarrow> nat option"

definition dp_node_append_edge :: "graph_lib \<Rightarrow> edge \<Rightarrow> edge list \<Rightarrow> uint16 dp_result \<times> edge list" where
  "dp_node_append_edge lib next_node edges =
     (case rte_node_edge_update lib edges next_node of
       None \<Rightarrow> (Inl DP_ERROR, edges)
     | Some edges \<Rightarrow> if length edges = 0 then (Inl DP_ERROR, edges) else (Inr (of_nat (length edges - 1)), edges))"

definition dp_node_append_tx :: "graph_lib \<Rightarrow> uint16 \<Rightarrow> edge \<Rightarrow> tx_node \<Rightarrow> unit dp_result \<times> tx_node" where
  "dp_node_append_tx lib pid next_node nd =
     (if unat pid \<ge> DP_MAX_PORTS then (Inl DP_ERROR, nd)
      else case dp_node_append_edge lib next_node (tn_edges nd) of
        (Inl e, edges) \<Rightarrow> (Inl e, nd\<lparr> tn_edges := edges \<rparr>)
      | (Inr i, edges) \<Rightarrow> (DP_OK, nd\<lparr> tn_edges := edges, tn_index := (tn_index nd)[unat pid := i] \<rparr>))"

definition dp_node_append_vf_tx ::
  "graph_lib \<Rightarrow> dp_port option list \<Rightarrow> uint16 \<Rightarrow> edge \<Rightarrow> tx_node \<Rightarrow> unit dp_result \<times> tx_node" where
  "dp_node_append_vf_tx lib ports pid next_node nd =
     (case dp_get_port_by_id ports pid of
       None \<Rightarrow> (Inl DP_ERROR, nd)
     | Some port \<Rightarrow> if is_pf port then (Inl DP_ERROR, nd) else dp_node_append_tx lib pid next_node nd)"

definition dp_node_append_pf_tx ::
  "graph_lib \<Rightarrow> dp_port option list \<Rightarrow> uint16 \<Rightarrow> edge \<Rightarrow> tx_node \<Rightarrow> unit dp_result \<times> tx_node" where
  "dp_node_append_pf_tx lib ports pid next_node nd =
     (case dp_get_port_by_id ports pid of
       None \<Rightarrow> (Inl DP_ERROR, nd)
     | Some port \<Rightarrow> if \<not> is_pf port then (Inl DP_ERROR, nd) else dp_node_append_tx lib pid next_node nd)"

text \<open>The edge a packet takes from a node: the entry of the table, read without a
  check of the port identifier.\<close>

definition next_tx :: "tx_node \<Rightarrow> uint16 \<Rightarrow> edge option" where
  "next_tx nd pid = (if unat pid < length (tn_index nd) \<and> unat (tn_index nd ! unat pid) < length (tn_edges nd)
     then Some (tn_edges nd ! unat (tn_index nd ! unat pid)) else None)"

section \<open>Setup of the graph\<close>

text \<open>The nodes with dynamic edges.  \<open>ipip_encap\<close> has two tables over one list of
  edges: the second is the table of the edges to \<open>ipsec_encap\<close>.\<close>

record dp_graph =
  g_rx_node_ids :: "nat list"
  g_tx_node_ids :: "nat list"
  g_cls_edges :: "edge list"
  g_next_ipsec_decap_index :: uint16
  g_ipip_encap :: tx_node
  g_next_ipsec_index :: "uint16 list"
  g_ipsec_encap :: tx_node
  g_arp :: tx_node
  g_dhcp :: tx_node
  g_dhcpv6 :: tx_node
  g_ipv6_nd :: tx_node
  g_firewall :: tx_node
  g_rx_periodic :: tx_node
  g_virtsvc :: tx_node

definition dp_graph_registered :: "bool \<Rightarrow> dp_graph" where
  "dp_graph_registered enable_virtsvc = \<lparr>
     g_rx_node_ids = replicate DP_MAX_PORTS 0, g_tx_node_ids = replicate DP_MAX_PORTS 0,
     g_cls_edges = [To_drop, To_arp, To_ipv6_nd, To_conntrack, To_ipip_decap] @ (if enable_virtsvc then [To_virtsvc] else []),
     g_next_ipsec_decap_index = 0,
     g_ipip_encap = tx_node_registered [To_cls], g_next_ipsec_index = replicate DP_MAX_PORTS 0,
     g_ipsec_encap = tx_node_registered [], g_arp = tx_node_registered [], g_dhcp = tx_node_registered [],
     g_dhcpv6 = tx_node_registered [], g_ipv6_nd = tx_node_registered [],
     g_firewall = tx_node_registered [To_ipip_encap], g_rx_periodic = tx_node_registered [To_cls],
     g_virtsvc = tx_node_registered [] \<rparr>"

definition cls_node_append_ipsec_decap :: "graph_lib \<Rightarrow> dp_graph \<Rightarrow> unit dp_result \<times> dp_graph" where
  "cls_node_append_ipsec_decap lib g =
     (case dp_node_append_edge lib To_ipsec_decap (g_cls_edges g) of
       (Inl e, edges) \<Rightarrow> (Inl e, g\<lparr> g_cls_edges := edges \<rparr>)
     | (Inr i, edges) \<Rightarrow> (DP_OK, g\<lparr> g_cls_edges := edges, g_next_ipsec_decap_index := i \<rparr>))"

definition rx_node_create :: "graph_lib \<Rightarrow> uint16 \<Rightarrow> dp_graph \<Rightarrow> unit dp_result \<times> dp_graph" where
  "rx_node_create lib pid g =
     (if unat pid \<ge> DP_MAX_PORTS then (Inl DP_ERROR, g)
      else case rte_node_clone lib pid of
        None \<Rightarrow> (Inl DP_ERROR, g)
      | Some i \<Rightarrow> (DP_OK, g\<lparr> g_rx_node_ids := (g_rx_node_ids g)[unat pid := i] \<rparr>))"

definition tx_node_create :: "graph_lib \<Rightarrow> uint16 \<Rightarrow> dp_graph \<Rightarrow> unit dp_result \<times> dp_graph" where
  "tx_node_create lib pid g =
     (if unat pid \<ge> DP_MAX_PORTS then (Inl DP_ERROR, g)
      else case rte_node_clone lib pid of
        None \<Rightarrow> (Inl DP_ERROR, g)
      | Some i \<Rightarrow> (DP_OK, g\<lparr> g_tx_node_ids := (g_tx_node_ids g)[unat pid := i] \<rparr>))"

text \<open>One node gets its edge to a port.\<close>

definition wire ::
  "(dp_graph \<Rightarrow> tx_node) \<Rightarrow> (tx_node \<Rightarrow> dp_graph \<Rightarrow> dp_graph) \<Rightarrow> (tx_node \<Rightarrow> unit dp_result \<times> tx_node) \<Rightarrow>
   dp_graph \<Rightarrow> unit dp_result \<times> dp_graph" where
  "wire get upd app g = (case app (get g) of (r, nd) \<Rightarrow> (r, upd nd g))"

definition ipip_encap_node_append_pf_ipsec ::
  "graph_lib \<Rightarrow> dp_port option list \<Rightarrow> uint16 \<Rightarrow> dp_graph \<Rightarrow> unit dp_result \<times> dp_graph" where
  "ipip_encap_node_append_pf_ipsec lib ports pid g =
     (case dp_node_append_pf_tx lib ports pid To_ipsec_encap
            \<lparr> tn_edges = tn_edges (g_ipip_encap g), tn_index = g_next_ipsec_index g \<rparr> of
       (r, nd) \<Rightarrow> (r, g\<lparr> g_ipip_encap := (g_ipip_encap g)\<lparr> tn_edges := tn_edges nd \<rparr>,
                        g_next_ipsec_index := tn_index nd \<rparr>))"

text \<open>The steps run in order until one fails.\<close>

fun run_steps :: "('s \<Rightarrow> unit dp_result \<times> 's) list \<Rightarrow> 's \<Rightarrow> unit dp_result \<times> 's" where
  "run_steps [] s = (DP_OK, s)"
| "run_steps (f # fs) s = (case f s of (Inl e, s) \<Rightarrow> (Inl DP_ERROR, s) | (Inr _, s) \<Rightarrow> run_steps fs s)"

definition wire_pf :: "graph_lib \<Rightarrow> bool \<Rightarrow> dp_port option list \<Rightarrow> uint16 \<Rightarrow> (dp_graph \<Rightarrow> unit dp_result \<times> dp_graph) list" where
  "wire_pf lib ipsec ports pid =
     [wire g_ipip_encap (\<lambda>nd g. g\<lparr> g_ipip_encap := nd \<rparr>) (dp_node_append_pf_tx lib ports pid (To_tx pid))]
     @ (if ipsec then
         [ipip_encap_node_append_pf_ipsec lib ports pid,
          wire g_ipsec_encap (\<lambda>nd g. g\<lparr> g_ipsec_encap := nd \<rparr>) (dp_node_append_pf_tx lib ports pid (To_tx pid))]
        else [])"

definition wire_vf :: "graph_lib \<Rightarrow> dp_port option list \<Rightarrow> uint16 \<Rightarrow> (dp_graph \<Rightarrow> unit dp_result \<times> dp_graph) list" where
  "wire_vf lib ports pid = (let app = dp_node_append_vf_tx lib ports pid (To_tx pid) in
     [wire g_arp (\<lambda>nd g. g\<lparr> g_arp := nd \<rparr>) app,
      wire g_dhcp (\<lambda>nd g. g\<lparr> g_dhcp := nd \<rparr>) app,
      wire g_dhcpv6 (\<lambda>nd g. g\<lparr> g_dhcpv6 := nd \<rparr>) app,
      wire g_ipv6_nd (\<lambda>nd g. g\<lparr> g_ipv6_nd := nd \<rparr>) app,
      wire g_firewall (\<lambda>nd g. g\<lparr> g_firewall := nd \<rparr>) app,
      wire g_rx_periodic (\<lambda>nd g. g\<lparr> g_rx_periodic := nd \<rparr>) app])"

definition wire_port :: "graph_lib \<Rightarrow> bool \<Rightarrow> bool \<Rightarrow> dp_port option list \<Rightarrow> dp_port \<Rightarrow> dp_graph \<Rightarrow> unit dp_result \<times> dp_graph" where
  "wire_port lib ipsec enable_virtsvc ports port =
     (let pid = port_id port in
      run_steps ([rx_node_create lib pid, tx_node_create lib pid]
        @ (if is_pf port then wire_pf lib ipsec ports pid else wire_vf lib ports pid)
        @ (if enable_virtsvc
           then [wire g_virtsvc (\<lambda>nd g. g\<lparr> g_virtsvc := nd \<rparr>) (dp_node_append_tx lib pid (To_tx pid))] else [])))"

text \<open>\<open>all\<close> is the array of ports the loop runs over, \<open>ports\<close> the table by identifier.\<close>

definition dp_graph_init_nodes ::
  "graph_lib \<Rightarrow> bool \<Rightarrow> bool \<Rightarrow> dp_port option list \<Rightarrow> dp_port list \<Rightarrow> dp_graph \<Rightarrow> unit dp_result \<times> dp_graph" where
  "dp_graph_init_nodes lib ipsec enable_virtsvc ports all =
     run_steps ((if ipsec then [cls_node_append_ipsec_decap lib] else [])
       @ map (wire_port lib ipsec enable_virtsvc ports) all)"

text \<open>The two dynamic edges that lead into the IPsec nodes.\<close>

definition next_ipsec :: "dp_graph \<Rightarrow> uint16 \<Rightarrow> edge option" where
  "next_ipsec g pid = next_tx \<lparr> tn_edges = tn_edges (g_ipip_encap g), tn_index = g_next_ipsec_index g \<rparr> pid"

definition next_ipsec_decap :: "dp_graph \<Rightarrow> edge option" where
  "next_ipsec_decap g = (if unat (g_next_ipsec_decap_index g) < length (g_cls_edges g)
     then Some (g_cls_edges g ! unat (g_next_ipsec_decap_index g)) else None)"

section \<open>Multipath\<close>

definition PORT_SELECT_TABLE_SIZE :: nat where "PORT_SELECT_TABLE_SIZE = 10"

datatype egress_pf_port = OWNER_PORT | PEER_PORT

definition dp_conf_is_wcmp_enabled :: "nat \<Rightarrow> bool" where
  "dp_conf_is_wcmp_enabled wcmp_perc \<longleftrightarrow> wcmp_perc < 100"

text \<open>\<open>lround(perc / (100.0 / 10))\<close> on a percentage: half of the tenths rounds up.\<close>

definition wcmp_frac :: "nat \<Rightarrow> nat" where
  "wcmp_frac wcmp_perc = (wcmp_perc + 5) div 10"

definition dp_multipath_init :: "nat \<Rightarrow> egress_pf_port list \<Rightarrow> egress_pf_port list" where
  "dp_multipath_init wcmp_perc table =
     (if \<not> dp_conf_is_wcmp_enabled wcmp_perc then table
      else let frac = wcmp_frac wcmp_perc in
        map (\<lambda>i. if i < frac then OWNER_PORT else PEER_PORT) [0..<PORT_SELECT_TABLE_SIZE])"

definition dp_multipath_get_pf :: "nat \<Rightarrow> egress_pf_port list \<Rightarrow> dp_port \<Rightarrow> dp_port \<Rightarrow> uint32 \<Rightarrow> dp_port" where
  "dp_multipath_get_pf wcmp_perc table owner_port peer_port hash =
     (if \<not> dp_conf_is_wcmp_enabled wcmp_perc
      then (if \<not> link_status owner_port then peer_port else owner_port)
      else let selected_port = table ! (unat hash mod PORT_SELECT_TABLE_SIZE) in
        if selected_port = PEER_PORT \<and> link_status peer_port
           \<or> selected_port = OWNER_PORT \<and> \<not> link_status owner_port
        then peer_port else owner_port)"

section \<open>The contract of librte_graph\<close>

text \<open>An edge is appended at the end, or the call fails.\<close>

locale graph_library =
  fixes lib :: graph_lib
  assumes edge_update: "rte_node_edge_update lib es e = Some es' \<Longrightarrow> es' = es @ [e]"

definition ref_graph_lib :: graph_lib where
  "ref_graph_lib = \<lparr> rte_node_edge_update = (\<lambda>es e. Some (es @ [e])), rte_node_clone = (\<lambda>pid. Some (unat pid + 1)) \<rparr>"

interpretation refg: graph_library ref_graph_lib
  by unfold_locales (simp add: ref_graph_lib_def)

section \<open>What the tables hold\<close>

text \<open>The edges of the ports in \<open>S\<close> lead to \<open>e\<close>, those of every other port to \<open>drop\<close>.\<close>

definition wired :: "(uint16 \<Rightarrow> edge) \<Rightarrow> uint16 set \<Rightarrow> edge list \<Rightarrow> uint16 list \<Rightarrow> bool" where
  "wired e S es idx \<longleftrightarrow> length idx = DP_MAX_PORTS
     \<and> (\<forall>p. unat p < DP_MAX_PORTS \<longrightarrow> unat (idx ! unat p) < length es
           \<and> es ! unat (idx ! unat p) = (if p \<in> S then e p else To_drop))"

abbreviation wired_tx :: "uint16 set \<Rightarrow> tx_node \<Rightarrow> bool" where
  "wired_tx S nd \<equiv> wired To_tx S (tn_edges nd) (tn_index nd)"

lemma wired_more: "wired e S es idx \<Longrightarrow> wired e S (es @ xs) idx"
  by (auto simp: wired_def nth_append)

lemma wired_append:
  assumes "wired e S es idx" "unat p < DP_MAX_PORTS" "length es < 65536"
  shows "wired e (insert p S) (es @ [e p]) (idx[unat p := of_nat (length es)])"
proof -
  have i: "unat (of_nat (length es) :: uint16) = length es"
    using assms(3) by (simp add: unat_of_nat take_bit_nat_eq_self_iff)
  have l: "length idx = DP_MAX_PORTS" using assms(1) by (simp add: wired_def)
  have upd: "idx[unat p := of_nat (length es)] ! unat q = (if q = p then of_nat (length es) else idx ! unat q)" for q
    using l assms(2) by (simp add: nth_list_update word_unat_eq_iff)
  show ?thesis
    using assms(1) unfolding wired_def upd
    by (auto simp: i nth_append less_Suc_eq)
qed

lemma wired_registered: "wired_tx {} (tx_node_registered xs)"
  "wired e {} (tn_edges (tx_node_registered xs)) (replicate DP_MAX_PORTS 0)"
  by (auto simp: wired_def tx_node_registered_def)

lemma next_tx_wired:
  assumes "wired_tx S nd" "unat p < DP_MAX_PORTS"
  shows "next_tx nd p = Some (if p \<in> S then To_tx p else To_drop)"
  using assms by (simp add: wired_def next_tx_def)

context graph_library
begin

lemma append_edge_OK:
  assumes "dp_node_append_edge lib e es = (Inr i, es')"
  shows "es' = es @ [e]" "i = of_nat (length es)"
  using assms edge_update by (fastforce simp: dp_node_append_edge_def split: option.splits if_splits)+

lemma append_tx_OK:
  assumes "dp_node_append_tx lib pid e nd = (Inr u, nd')"
  shows "unat pid < DP_MAX_PORTS \<and> tn_edges nd' = tn_edges nd @ [e]
    \<and> tn_index nd' = (tn_index nd)[unat pid := of_nat (length (tn_edges nd))]"
  using assms append_edge_OK
  by (fastforce simp: dp_node_append_tx_def not_le split: if_splits prod.splits sum.splits)

lemma append_pf_OK:
  assumes "dp_node_append_pf_tx lib ports pid e nd = (Inr u, nd')"
  shows "dp_node_append_tx lib pid e nd = (Inr u, nd')"
  using assms by (auto simp: dp_node_append_pf_tx_def split: option.splits if_splits)

lemma append_vf_OK:
  assumes "dp_node_append_vf_tx lib ports pid e nd = (Inr u, nd')"
  shows "dp_node_append_tx lib pid e nd = (Inr u, nd')"
  using assms by (auto simp: dp_node_append_vf_tx_def split: option.splits if_splits)

lemma append_wired:
  assumes "dp_node_append_tx lib pid (To_tx pid) nd = (Inr u, nd')" "wired_tx S nd" "length (tn_edges nd) < 65536"
  shows "wired_tx (insert pid S) nd' \<and> length (tn_edges nd') = Suc (length (tn_edges nd))"
  using append_tx_OK[OF assms(1)] wired_append[OF assms(2) _ assms(3)] by simp

end

text \<open>The wiring after \<open>n\<close> ports, of which \<open>P\<close> are physical and \<open>V\<close> virtual.\<close>

definition graph_wired :: "bool \<Rightarrow> uint16 set \<Rightarrow> uint16 set \<Rightarrow> nat \<Rightarrow> dp_graph \<Rightarrow> bool" where
  "graph_wired ipsec P V n g \<longleftrightarrow>
     wired_tx P (g_ipip_encap g)
     \<and> wired (\<lambda>_. To_ipsec_encap) (if ipsec then P else {}) (tn_edges (g_ipip_encap g)) (g_next_ipsec_index g)
     \<and> wired_tx (if ipsec then P else {}) (g_ipsec_encap g)
     \<and> (\<forall>nd\<in>{g_arp g, g_dhcp g, g_dhcpv6 g, g_ipv6_nd g, g_firewall g, g_rx_periodic g}. wired_tx V nd)
     \<and> (\<forall>nd\<in>{g_ipip_encap g, g_ipsec_encap g, g_arp g, g_dhcp g, g_dhcpv6 g, g_ipv6_nd g, g_firewall g, g_rx_periodic g}.
           length (tn_edges nd) \<le> 2 + 2 * n)"

lemma run_steps_OK:
  "run_steps (f # fs) s = (Inr u, s') \<longleftrightarrow> (\<exists>v s1. f s = (Inr v, s1) \<and> run_steps fs s1 = (Inr u, s'))"
  by (auto split: prod.splits sum.splits)

lemma run_steps_append_OK:
  "run_steps (fs @ gs) s = (Inr u, s') \<longleftrightarrow> (\<exists>v s1. run_steps fs s = (Inr v, s1) \<and> run_steps gs s1 = (Inr u, s'))"
  by (induction fs arbitrary: s) (auto split: prod.splits sum.splits)

declare run_steps.simps(2) [simp del]

lemma wire_OK: "wire get upd app g = (Inr u, g') \<longleftrightarrow> (\<exists>nd. app (get g) = (Inr u, nd) \<and> g' = upd nd g)"
  by (auto simp: wire_def split: prod.splits)

lemma node_create_OK:
  "rx_node_create lib pid g = (Inr u, g') \<Longrightarrow> \<exists>ids. g' = g\<lparr> g_rx_node_ids := ids \<rparr>"
  "tx_node_create lib pid g = (Inr u, g') \<Longrightarrow> \<exists>ids. g' = g\<lparr> g_tx_node_ids := ids \<rparr>"
  by (auto simp: rx_node_create_def tx_node_create_def split: if_splits option.splits)

lemma graph_wired_frame [simp]:
  "graph_wired ipsec P V n (g\<lparr> g_rx_node_ids := ids \<rparr>) = graph_wired ipsec P V n g"
  "graph_wired ipsec P V n (g\<lparr> g_tx_node_ids := ids \<rparr>) = graph_wired ipsec P V n g"
  "graph_wired ipsec P V n (g\<lparr> g_virtsvc := nd \<rparr>) = graph_wired ipsec P V n g"
  by (simp_all add: graph_wired_def)

context graph_library
begin

lemma wire_vf_OK:
  assumes inv: "graph_wired ipsec P V n g" and n: "n < DP_MAX_PORTS"
    and ok: "run_steps (wire_vf lib ports pid) g = (Inr u, g')"
  shows "graph_wired ipsec P (insert pid V) (Suc n) g'"
proof -
  have app: "wired_tx (insert pid V) nd' \<and> length (tn_edges nd') \<le> 2 + 2 * Suc n"
    if "dp_node_append_vf_tx lib ports pid (To_tx pid) nd = (Inr v, nd')" "wired_tx V nd" "length (tn_edges nd) \<le> 2 + 2 * n"
    for nd nd' v
    using append_wired[OF append_vf_OK[OF that(1)] that(2)] that(3) n
    by (simp add: DP_MAX_PORTS_def DP_MAX_PF_PORTS_def DP_MAX_VF_PORTS_def)
  let ?app = "dp_node_append_vf_tx lib ports pid (To_tx pid)"
  from ok obtain a b c d e f where steps: "?app (g_arp g) = (DP_OK, a)" "?app (g_dhcp g) = (DP_OK, b)"
    "?app (g_dhcpv6 g) = (DP_OK, c)" "?app (g_ipv6_nd g) = (DP_OK, d)" "?app (g_firewall g) = (DP_OK, e)"
    "?app (g_rx_periodic g) = (DP_OK, f)"
    and g': "g' = g\<lparr> g_arp := a, g_dhcp := b, g_dhcpv6 := c, g_ipv6_nd := d, g_firewall := e, g_rx_periodic := f \<rparr>"
    by (auto simp: wire_vf_def Let_def run_steps_OK wire_OK)
  note old = inv[unfolded graph_wired_def, simplified]
  note new = steps[THEN app]
  show ?thesis
    using old new unfolding graph_wired_def g' by simp
qed

lemma wire_pf_OK:
  assumes inv: "graph_wired ipsec P V n g" and n: "n < DP_MAX_PORTS"
    and ok: "run_steps (wire_pf lib ipsec ports pid) g = (Inr u, g')"
  shows "graph_wired ipsec (insert pid P) V (Suc n) g'"
proof -
  have small: "length (tn_edges nd) < 65535" if "length (tn_edges nd) \<le> 2 + 2 * n" for nd
    using that n by (simp add: DP_MAX_PORTS_def DP_MAX_PF_PORTS_def DP_MAX_VF_PORTS_def)
  let ?e = "g_ipip_encap g" and ?i = "g_ipsec_encap g"
  have e: "wired_tx P ?e" "length (tn_edges ?e) \<le> 2 + 2 * n"
    "wired (\<lambda>_. To_ipsec_encap) (if ipsec then P else {}) (tn_edges ?e) (g_next_ipsec_index g)"
    and i: "wired_tx (if ipsec then P else {}) ?i" "length (tn_edges ?i) \<le> 2 + 2 * n"
    using inv by (auto simp: graph_wired_def)
  from ok obtain v nd where nd: "dp_node_append_pf_tx lib ports pid (To_tx pid) ?e = (Inr v, nd)"
    and rest: "run_steps (if ipsec then
         [ipip_encap_node_append_pf_ipsec lib ports pid,
          wire g_ipsec_encap (\<lambda>nd g. g\<lparr> g_ipsec_encap := nd \<rparr>) (dp_node_append_pf_tx lib ports pid (To_tx pid))]
        else []) (g\<lparr> g_ipip_encap := nd \<rparr>) = (Inr u, g')"
    by (auto simp: wire_pf_def run_steps_OK wire_OK)
  have nd': "wired_tx (insert pid P) nd" "length (tn_edges nd) = Suc (length (tn_edges ?e))" "tn_edges nd = tn_edges ?e @ [To_tx pid]"
    using append_wired[OF append_pf_OK[OF nd] e(1)] append_tx_OK[OF append_pf_OK[OF nd]] small[OF e(2)] by auto
  show ?thesis
  proof (cases ipsec)
    case False
    with rest nd' inv e(3) show ?thesis by (auto simp: graph_wired_def wired_more)
  next
    case True
    with rest obtain v1 nd1 v2 nd2 where
      nd1: "dp_node_append_pf_tx lib ports pid To_ipsec_encap
              \<lparr> tn_edges = tn_edges nd, tn_index = g_next_ipsec_index g \<rparr> = (Inr v1, nd1)"
      and nd2: "dp_node_append_pf_tx lib ports pid (To_tx pid) ?i = (Inr v2, nd2)"
      and g': "g' = g\<lparr> g_ipip_encap := nd\<lparr> tn_edges := tn_edges nd1 \<rparr>, g_next_ipsec_index := tn_index nd1, g_ipsec_encap := nd2 \<rparr>"
      by (auto simp: run_steps_OK wire_OK ipip_encap_node_append_pf_ipsec_def split: prod.splits)
    have "wired (\<lambda>_. To_ipsec_encap) (insert pid P) (tn_edges nd1) (tn_index nd1)" "tn_edges nd1 = tn_edges nd @ [To_ipsec_encap]"
      using append_tx_OK[OF append_pf_OK[OF nd1]] wired_append[OF wired_more[OF e(3), of "[To_tx pid]"], of pid]
        small[OF e(2)] nd' True by simp_all
    moreover have "wired_tx (insert pid P) nd2" "length (tn_edges nd2) = Suc (length (tn_edges ?i))"
      using append_wired[OF append_pf_OK[OF nd2] i(1)] small[OF i(2)] True by auto
    ultimately show ?thesis
      using inv nd' True wired_more[OF nd'(1), of "[To_ipsec_encap]"] by (auto simp: graph_wired_def g')
  qed
qed

lemma wire_port_OK:
  assumes "graph_wired ipsec P V n g" "n < DP_MAX_PORTS"
    and "wire_port lib ipsec vs ports port g = (Inr u, g')"
  shows "graph_wired ipsec (if is_pf port then insert (port_id port) P else P)
    (if is_pf port then V else insert (port_id port) V) (Suc n) g'"
proof -
  let ?w = "if is_pf port then wire_pf lib ipsec ports (port_id port) else wire_vf lib ports (port_id port)"
  from assms(3) obtain ga gb v w1 w2 g2 where "rx_node_create lib (port_id port) g = (Inr w1, ga)"
    "tx_node_create lib (port_id port) ga = (Inr w2, gb)" and w: "run_steps ?w gb = (Inr v, g2)"
    and g': "\<exists>nd. g' = g2\<lparr> g_virtsvc := nd \<rparr> \<or> g' = g2"
    unfolding wire_port_def Let_def run_steps_append_OK run_steps_OK
    by (fastforce simp: wire_OK run_steps_OK split: if_splits)
  hence g1: "graph_wired ipsec P V n gb"
    using assms(1) by (auto dest!: node_create_OK)
  have "graph_wired ipsec (if is_pf port then insert (port_id port) P else P)
    (if is_pf port then V else insert (port_id port) V) (Suc n) g2"
    using wire_pf_OK[OF g1 assms(2)] wire_vf_OK[OF g1 assms(2)] w by (simp split: if_splits)
  with g' show ?thesis by (auto simp del: graph_wired_frame(1,2))
qed

lemma wire_ports_OK:
  assumes "graph_wired ipsec P V n g" "n + length all \<le> DP_MAX_PORTS"
    and "run_steps (map (wire_port lib ipsec vs ports) all) g = (Inr u, g')"
  shows "graph_wired ipsec (P \<union> port_id ` {p \<in> set all. is_pf p}) (V \<union> port_id ` {p \<in> set all. \<not> is_pf p}) (n + length all) g'"
  using assms
proof (induction all arbitrary: P V n g)
  case (Cons p all)
  have set_pf: "{x. (x = p \<or> x \<in> set all) \<and> Q x} = (if Q p then insert p {x \<in> set all. Q x} else {x \<in> set all. Q x})" for Q
    by auto
  from Cons.prems(3) obtain v g1 where g1: "wire_port lib ipsec vs ports p g = (Inr v, g1)"
    and rest: "run_steps (map (wire_port lib ipsec vs ports) all) g1 = (Inr u, g')"
    by (auto simp: run_steps_OK simp del: run_steps.simps)
  note inv = wire_port_OK[OF Cons.prems(1) _ g1]
  have "n < DP_MAX_PORTS" using Cons.prems(2) by simp
  from Cons.IH[OF inv[OF this] _ rest] Cons.prems(2) show ?case
    by (cases "is_pf p") (simp_all add: set_pf)
qed simp

end

lemma graph_wired_registered: "graph_wired ipsec {} {} 0 (dp_graph_registered vs)"
  by (simp add: graph_wired_def dp_graph_registered_def wired_registered, simp add: tx_node_registered_def)

lemma graph_wired_cls [simp]:
  "graph_wired ipsec P V n (g\<lparr> g_cls_edges := es, g_next_ipsec_decap_index := i \<rparr>) = graph_wired ipsec P V n g"
  by (simp add: graph_wired_def)

text \<open>A part of the state that no step changes.\<close>

lemma run_steps_frame:
  assumes "\<And>f s. f \<in> set fs \<Longrightarrow> part (snd (f s)) = part s"
  shows "part (snd (run_steps fs s)) = part s"
  using assms
proof (induction fs arbitrary: s)
  case (Cons f fs)
  have f: "part (snd (f s)) = part s" for s using Cons.prems by simp
  have "part (snd (run_steps fs s)) = part s" for s using Cons by simp
  with f[of s] show ?case by (cases "f s") (auto simp: run_steps.simps(2) split: sum.split)
qed simp

definition cls_part :: "dp_graph \<Rightarrow> edge list \<times> uint16" where
  "cls_part g = (g_cls_edges g, g_next_ipsec_decap_index g)"

lemma wire_port_cls: "cls_part (snd (wire_port lib ipsec vs ports port g)) = cls_part g"
  unfolding wire_port_def Let_def
  by (rule run_steps_frame)
    (auto simp: wire_pf_def wire_vf_def Let_def wire_def cls_part_def rx_node_create_def tx_node_create_def
      ipip_encap_node_append_pf_ipsec_def split: if_splits prod.splits option.splits)

lemma wire_ports_cls: "cls_part (snd (run_steps (map (wire_port lib ipsec vs ports) all) g)) = cls_part g"
  by (rule run_steps_frame) (auto simp: wire_port_cls)

text \<open>What a graph that came up looks like.\<close>

lemma graph_init_wired:
  assumes lib: "graph_library lib" and n: "length all \<le> DP_MAX_PORTS"
    and ok: "dp_graph_init_nodes lib ipsec vs ports all (dp_graph_registered vs) = (DP_OK, g)"
  shows "graph_wired ipsec (port_id ` {p \<in> set all. is_pf p}) (port_id ` {p \<in> set all. \<not> is_pf p}) (length all) g"
    and "ipsec \<Longrightarrow> next_ipsec_decap g = Some To_ipsec_decap"
proof -
  from ok obtain v g0 where g0: "run_steps (if ipsec then [cls_node_append_ipsec_decap lib] else [])
      (dp_graph_registered vs) = (Inr v, g0)"
    and rest: "run_steps (map (wire_port lib ipsec vs ports) all) g0 = (DP_OK, g)"
    by (auto simp: dp_graph_init_nodes_def run_steps_append_OK)
  show "graph_wired ipsec (port_id ` {p \<in> set all. is_pf p}) (port_id ` {p \<in> set all. \<not> is_pf p}) (length all) g"
  proof -
    have "graph_wired ipsec {} {} 0 g0"
      using g0 by (auto simp: run_steps_OK cls_node_append_ipsec_decap_def graph_wired_registered
          split: if_splits prod.splits sum.splits)
    from graph_library.wire_ports_OK[OF lib this _ rest] n show ?thesis by simp
  qed
  show "next_ipsec_decap g = Some To_ipsec_decap" if ipsec
  proof -
    let ?es = "g_cls_edges (dp_graph_registered vs)"
    have "cls_part g0 = (?es @ [To_ipsec_decap], of_nat (length ?es))"
      using g0 that by (auto simp: run_steps_OK cls_node_append_ipsec_decap_def cls_part_def
          dest: graph_library.append_edge_OK[OF lib] split: prod.splits sum.splits)
    moreover have "cls_part g = cls_part g0"
      using wire_ports_cls[of lib ipsec vs ports all g0] rest by simp
    ultimately show ?thesis
      by (cases vs) (auto simp: next_ipsec_decap_def cls_part_def dp_graph_registered_def)
  qed
qed

lemma next_of_wired:
  assumes "graph_wired ipsec P V n g" "unat p < DP_MAX_PORTS"
  shows "next_tx (g_ipip_encap g) p = Some (if p \<in> P then To_tx p else To_drop)"
    and "next_ipsec g p = Some (if ipsec \<and> p \<in> P then To_ipsec_encap else To_drop)"
    and "next_tx (g_ipsec_encap g) p = Some (if ipsec \<and> p \<in> P then To_tx p else To_drop)"
    and "next_tx (g_firewall g) p = Some (if p \<in> V then To_tx p else To_drop)"
    and "next_tx (g_arp g) p = Some (if p \<in> V then To_tx p else To_drop)"
    and "next_tx (g_ipv6_nd g) p = Some (if p \<in> V then To_tx p else To_drop)"
    and "next_tx (g_dhcp g) p = Some (if p \<in> V then To_tx p else To_drop)"
    and "next_tx (g_dhcpv6 g) p = Some (if p \<in> V then To_tx p else To_drop)"
proof -
  show "next_ipsec g p = Some (if ipsec \<and> p \<in> P then To_ipsec_encap else To_drop)"
    using assms by (simp add: graph_wired_def next_ipsec_def next_tx_def wired_def)
  show "next_tx (g_ipsec_encap g) p = Some (if ipsec \<and> p \<in> P then To_tx p else To_drop)"
    using assms next_tx_wired[of "if ipsec then P else {}" "g_ipsec_encap g" p] by (simp add: graph_wired_def)
qed (use assms in \<open>simp_all add: graph_wired_def next_tx_wired\<close>)

lemma wcmp_frac_lround: "int (wcmp_frac n) = \<lfloor>real n / (100 / 10) + 1 / 2\<rfloor>"
proof -
  have "real n / (100 / 10) + 1 / 2 = real (n + 5) / real 10" by (simp add: field_simps)
  thus ?thesis by (simp only: wcmp_frac_def floor_divide_of_nat_eq)
qed

text \<open>The selected port is up whenever either port is.\<close>

lemma multipath_up:
  "link_status owner \<or> link_status peer \<Longrightarrow> link_status (dp_multipath_get_pf perc table owner peer hash)"
  by (cases "table ! (unat hash mod PORT_SELECT_TABLE_SIZE)") (auto simp: dp_multipath_get_pf_def Let_def)

lemma multipath_share:
  assumes "perc < 100" "link_status owner" "link_status peer" "owner \<noteq> peer"
  shows "dp_multipath_get_pf perc (dp_multipath_init perc table) owner peer hash = owner
    \<longleftrightarrow> unat hash mod PORT_SELECT_TABLE_SIZE < wcmp_frac perc"
  using assms by (auto simp: dp_multipath_get_pf_def dp_multipath_init_def dp_conf_is_wcmp_enabled_def
      PORT_SELECT_TABLE_SIZE_def Let_def)

lemma multipath_choice:
  "dp_multipath_get_pf perc table owner peer hash \<in> {owner, peer}"
  by (auto simp: dp_multipath_get_pf_def Let_def)

end
