(* ===== verification/Dp_Virtsvc.thy ===== *)
theory Dp_Virtsvc
  imports "HOL-Library.Multiset" Dp_Cntrack Dp_Graph
begin

text \<open>
  Virtual services (\<open>include/dp_virtsvc.h\<close>, \<open>src/dp_virtsvc.c\<close>, \<open>src/nodes/virtsvc_node.c\<close>):
  an IPv4 address and port offered to the virtual machines stands for an IPv6 service of the
  underlay network.  Each service has a table of connections indexed by the source port used
  towards the service (less the system ports) and a hash table from the connections of the
  virtual machines to these indices; two search trees find the service of a packet.

  The array of connections is a function on its indices; an index outside the array is an
  access outside the array, the result \<open>None\<close>.  The timer is an argument.
\<close>

section \<open>Data\<close>

definition DP_VIRTSVC_MAX :: nat where "DP_VIRTSVC_MAX = 256"
definition DP_NB_SYSTEM_PORTS :: nat where "DP_NB_SYSTEM_PORTS = 1024"
definition DP_VIRTSVC_PORTCOUNT :: nat where "DP_VIRTSVC_PORTCOUNT = 65536 - DP_NB_SYSTEM_PORTS"

datatype dp_virtsvc_conn_state = DP_VIRTSVC_CONN_TRANSIENT | DP_VIRTSVC_CONN_TRANSIENT_SYN
  | DP_VIRTSVC_CONN_TRANSIENT_SYNACK | DP_VIRTSVC_CONN_ESTABLISHED

record dp_virtsvc_conn_key =
  vck_port_id :: uint16
  vck_l4_port :: uint16
  vck_ip :: ipv4

record dp_virtsvc_conn =
  vc_last_pkt_timestamp :: uint64
  vc_ip :: ipv4
  vc_l4_port :: uint16
  vc_port_id :: uint16
  vc_state :: dp_virtsvc_conn_state

record dp_virtsvc =
  vs_virtual_addr :: ipv4
  vs_service_addr :: dp_ipv6
  vs_virtual_port :: uint16
  vs_service_port :: uint16
  vs_proto :: uint8
  vs_last_assigned_port :: uint16
  vs_ul_addr :: dp_ipv6
  vs_open_ports :: "dp_virtsvc_conn_key \<rightharpoonup> nat"
  vs_connections :: "nat \<Rightarrow> dp_virtsvc_conn"

text \<open>A tree of pointers to services: their positions in the array of services.\<close>

datatype lookup_tree = Leaf | Entry nat lookup_tree lookup_tree

definition conn_zero :: dp_virtsvc_conn where
  "conn_zero = \<lparr> vc_last_pkt_timestamp = 0, vc_ip = 0, vc_l4_port = 0, vc_port_id = 0, vc_state = DP_VIRTSVC_CONN_TRANSIENT \<rparr>"

text \<open>The key a connection was opened under.\<close>

definition conn_key :: "dp_virtsvc_conn \<Rightarrow> dp_virtsvc_conn_key" where
  "conn_key c = \<lparr> vck_port_id = vc_port_id c, vck_l4_port = vc_l4_port c, vck_ip = vc_ip c \<rparr>"

definition put_conn :: "nat \<Rightarrow> dp_virtsvc_conn \<Rightarrow> dp_virtsvc \<Rightarrow> dp_virtsvc" where
  "put_conn i c v = v\<lparr> vs_connections := (vs_connections v)(i := c) \<rparr>"

section \<open>Lookup\<close>

definition bswap32 :: "uint32 \<Rightarrow> uint32" where
  "bswap32 v = word_cat (bswap16 (ucast v)) (bswap16 (ucast (drop_bit 16 v)))"

text \<open>The comparison of the addresses subtracts them as they lie in memory and
  reads the wrapped difference as a signed number; the ports are widened first.\<close>

definition dp_virtsvc_ipv4_cmp :: "uint8 \<Rightarrow> ipv4 \<Rightarrow> uint16 \<Rightarrow> uint8 \<Rightarrow> ipv4 \<Rightarrow> uint16 \<Rightarrow> int" where
  "dp_virtsvc_ipv4_cmp proto1 addr1 port1 proto2 addr2 port2 =
     (let diff = uint proto1 - uint proto2 in
      if diff \<noteq> 0 then diff
      else let diff = sint (bswap32 addr1 - bswap32 addr2) in
      if diff \<noteq> 0 then diff
      else uint (bswap16 port1) - uint (bswap16 port2))"

text \<open>\<open>memcmp\<close> orders the sixteen bytes lexicographically.\<close>

definition memcmp_ipv6 :: "dp_ipv6 \<Rightarrow> dp_ipv6 \<Rightarrow> int" where
  "memcmp_ipv6 a b =
     (if a = b then 0
      else if ip6_prefix a < ip6_prefix b \<or> ip6_prefix a = ip6_prefix b \<and> ip6_suffix a < ip6_suffix b then -1 else 1)"

definition dp_virtsvc_ipv6_cmp :: "uint8 \<Rightarrow> dp_ipv6 \<Rightarrow> uint16 \<Rightarrow> uint8 \<Rightarrow> dp_ipv6 \<Rightarrow> uint16 \<Rightarrow> int" where
  "dp_virtsvc_ipv6_cmp proto1 addr1 port1 proto2 addr2 port2 =
     (let diff = uint proto1 - uint proto2 in
      if diff \<noteq> 0 then diff
      else let diff = memcmp_ipv6 addr1 addr2 in
      if diff \<noteq> 0 then diff
      else uint (bswap16 port1) - uint (bswap16 port2))"

definition dp_virtsvc_ipv4_comparator :: "dp_virtsvc \<Rightarrow> dp_virtsvc \<Rightarrow> int" where
  "dp_virtsvc_ipv4_comparator l r =
     dp_virtsvc_ipv4_cmp (vs_proto l) (vs_virtual_addr l) (vs_virtual_port l)
       (vs_proto r) (vs_virtual_addr r) (vs_virtual_port r)"

definition dp_virtsvc_ipv6_comparator :: "dp_virtsvc \<Rightarrow> dp_virtsvc \<Rightarrow> int" where
  "dp_virtsvc_ipv6_comparator l r =
     dp_virtsvc_ipv6_cmp (vs_proto l) (vs_service_addr l) (vs_service_port l)
       (vs_proto r) (vs_service_addr r) (vs_service_port r)"

text \<open>The positions \<open>start\<close> to \<open>end\<close> of the sorted array; \<open>mem\<close> says which of the
  allocations, counted in order, succeed.\<close>

function dp_virtsvc_array_to_tree ::
  "(nat \<Rightarrow> bool) \<Rightarrow> nat list \<Rightarrow> int \<Rightarrow> int \<Rightarrow> nat \<Rightarrow> (lookup_tree \<times> nat) option" where
  "dp_virtsvc_array_to_tree mem array start stop n =
     (if start > stop then Some (Leaf, n)
      else if \<not> mem n then None
      else let mid = (start + stop) div 2 in
        case dp_virtsvc_array_to_tree mem array start (mid - 1) (Suc n) of
          None \<Rightarrow> None
        | Some (left, n) \<Rightarrow>
          (case dp_virtsvc_array_to_tree mem array (mid + 1) stop n of
            None \<Rightarrow> None
          | Some (right, n) \<Rightarrow> Some (Entry (array ! nat mid) left right, n)))"
  by pat_completeness auto
termination
  by (relation "measure (\<lambda>(mem, array, start, stop, n). nat (stop - start + 1))") auto

declare dp_virtsvc_array_to_tree.simps [simp del]

text \<open>\<open>qsort\<close> is a parameter: it sorts an array of pointers by a comparator.\<close>

definition dp_virtsvc_create_trees ::
  "(bool \<times> (nat \<Rightarrow> bool)) \<Rightarrow> ((nat \<Rightarrow> nat \<Rightarrow> int) \<Rightarrow> nat list \<Rightarrow> nat list) \<Rightarrow> dp_virtsvc list \<Rightarrow> (lookup_tree \<times> lookup_tree) dp_result" where
  "dp_virtsvc_create_trees mem qsort services =
     (let service_count = length services in
      if service_count = 0 \<or> \<not> fst mem then Inl DP_ERROR
      else
        let by = (\<lambda>cmp i j. cmp (services ! i) (services ! j));
            array = qsort (by dp_virtsvc_ipv4_comparator) [0..<service_count] in
        case dp_virtsvc_array_to_tree (snd mem) array 0 (int service_count - 1) 0 of
          None \<Rightarrow> Inl DP_ERROR
        | Some (ipv4_tree, n) \<Rightarrow>
          (case dp_virtsvc_array_to_tree (snd mem) (qsort (by dp_virtsvc_ipv6_comparator) array) 0 (int service_count - 1) n of
            None \<Rightarrow> Inl DP_ERROR
          | Some (ipv6_tree, _) \<Rightarrow> Inr (ipv4_tree, ipv6_tree)))"

text \<open>The walk down a tree, shared by the lookups: \<open>cmp\<close> compares what is sought
  with a service.\<close>

fun tree_find :: "(dp_virtsvc \<Rightarrow> int) \<Rightarrow> dp_virtsvc list \<Rightarrow> lookup_tree \<Rightarrow> nat option" where
  "tree_find cmp services Leaf = None"
| "tree_find cmp services (Entry i left right) =
     (let diff = cmp (services ! i) in
      if diff = 0 then Some i
      else if diff < 0 then tree_find cmp services left else tree_find cmp services right)"

definition get_virtsvc_by_ipv4 :: "dp_virtsvc list \<Rightarrow> lookup_tree \<Rightarrow> ipv4 \<Rightarrow> uint16 \<Rightarrow> uint8 \<Rightarrow> nat option" where
  "get_virtsvc_by_ipv4 services tree virtual_addr virtual_port proto =
     tree_find (\<lambda>v. dp_virtsvc_ipv4_cmp proto virtual_addr virtual_port (vs_proto v) (vs_virtual_addr v) (vs_virtual_port v))
       services tree"

section \<open>Setup\<close>

record dp_conf_virtsvc =
  cv_proto :: uint8
  cv_virtual_addr :: ipv4
  cv_virtual_port :: uint16
  cv_service_port :: uint16
  cv_service_addr :: dp_ipv6

definition DP_UNDERLAY_FLAG_SECONDARY_POOL :: uint8 where "DP_UNDERLAY_FLAG_SECONDARY_POOL = 0x40"

text \<open>The index is stored as it lies in memory, the random byte is that of the
  cleared memory.\<close>

definition dp_generate_virtsvc_ul_ipv6 :: "ul_conf \<Rightarrow> uint32 \<Rightarrow> dp_ipv6" where
  "dp_generate_virtsvc_ul_ipv6 conf index =
     \<lparr> ip6_prefix = ip6_prefix (underlay_ip conf),
       ip6_suffix = ul_suffix DP_UNDERLAY_ADDRESS_TYPE 0xff DP_UNDERLAY_FLAG_SECONDARY_POOL 0 (bswap32 index) \<rparr>"

definition new_virtsvc :: "ul_conf \<Rightarrow> nat \<Rightarrow> dp_conf_virtsvc \<Rightarrow> dp_virtsvc" where
  "new_virtsvc conf i rule = \<lparr>
     vs_virtual_addr = cv_virtual_addr rule, vs_service_addr = cv_service_addr rule,
     vs_virtual_port = cv_virtual_port rule, vs_service_port = cv_service_port rule, vs_proto = cv_proto rule,
     vs_last_assigned_port = 0, vs_ul_addr = dp_generate_virtsvc_ul_ipv6 conf (of_nat i),
     vs_open_ports = Map.empty, vs_connections = (\<lambda>_. conn_zero) \<rparr>"

record virtsvc_state =
  vt_services :: "dp_virtsvc list"
  vt_ipv4_tree :: lookup_tree
  vt_ipv6_tree :: lookup_tree

text \<open>\<open>malloc\<close> is the allocation of the services, \<open>tables i\<close> whether the hash table
  of the \<open>i\<close>-th is created.\<close>

definition dp_virtsvc_init ::
  "ul_conf \<Rightarrow> bool \<Rightarrow> (nat \<Rightarrow> bool) \<Rightarrow> bool \<times> (nat \<Rightarrow> bool) \<Rightarrow> ((nat \<Rightarrow> nat \<Rightarrow> int) \<Rightarrow> nat list \<Rightarrow> nat list) \<Rightarrow>
   dp_conf_virtsvc list \<Rightarrow> virtsvc_state dp_result" where
  "dp_virtsvc_init conf malloc tables mem qsort rules =
     (if rules = [] then Inr \<lparr> vt_services = [], vt_ipv4_tree = Leaf, vt_ipv6_tree = Leaf \<rparr>
      else if \<not> malloc then Inl DP_ERROR
      else if \<exists>i<length rules. \<not> tables i then Inl DP_ERROR
      else
        let services = map (\<lambda>(i, rule). new_virtsvc conf i rule) (enumerate 0 rules) in
        case dp_virtsvc_create_trees mem qsort services of
          Inl e \<Rightarrow> Inl DP_ERROR
        | Inr (ipv4_tree, ipv6_tree) \<Rightarrow>
            Inr \<lparr> vt_services = services, vt_ipv4_tree = ipv4_tree, vt_ipv6_tree = ipv6_tree \<rparr>)"

definition dp_virtsvc_get_count :: "virtsvc_state \<Rightarrow> nat" where
  "dp_virtsvc_get_count vt = length (vt_services vt)"

section \<open>Connections\<close>

text \<open>The library, the timer frequency and the synchronisation link.\<close>

record virtsvc_env =
  ve_ports :: "(dp_virtsvc_conn_key, nat) rte_hash"
  ve_hash :: "dp_virtsvc_conn_key \<Rightarrow> uint32"
  ve_hz :: uint64
  ve_sync_enabled :: bool
  ve_link :: sync_link

definition port_timeout :: "virtsvc_env \<Rightarrow> uint64" where
  "port_timeout env = ucast DP_FLOW_DEFAULT_TIMEOUT * ve_hz env"

definition established_port_timeout :: "virtsvc_env \<Rightarrow> uint64" where
  "established_port_timeout env = ucast DP_FLOW_TCP_EXTENDED_TIMEOUT * ve_hz env"

definition dp_virtsvc_is_connection_old :: "virtsvc_env \<Rightarrow> dp_virtsvc_conn \<Rightarrow> uint64 \<Rightarrow> bool" where
  "dp_virtsvc_is_connection_old env conn current_tsc =
     (let timeout = vc_last_pkt_timestamp conn
            + (if vc_state conn = DP_VIRTSVC_CONN_ESTABLISHED then established_port_timeout env else port_timeout env) in
      current_tsc > timeout)"

definition dp_virtsvc_get_free_port :: "virtsvc_env \<Rightarrow> uint64 \<Rightarrow> dp_virtsvc \<Rightarrow> nat dp_result \<times> dp_virtsvc" where
  "dp_virtsvc_get_free_port env current_tsc virtsvc =
     (let last = unat (vs_last_assigned_port virtsvc);
          old = (\<lambda>p. dp_virtsvc_is_connection_old env (vs_connections virtsvc p) current_tsc) in
      case find old ([last + 1..<DP_VIRTSVC_PORTCOUNT] @ [0..<last + 1]) of
        Some p \<Rightarrow> (Inr p, virtsvc\<lparr> vs_last_assigned_port := of_nat p \<rparr>)
      | None \<Rightarrow> (Inl DP_ERROR, virtsvc))"

definition dp_virtsvc_use_port ::
  "virtsvc_env \<Rightarrow> dp_virtsvc_conn_key \<Rightarrow> nat \<Rightarrow> dp_virtsvc \<Rightarrow> (unit dp_result \<times> dp_virtsvc) option" where
  "dp_virtsvc_use_port env key conn_port virtsvc =
     (if conn_port \<ge> DP_VIRTSVC_PORTCOUNT then None
      else
        let conn = vs_connections virtsvc conn_port;
            open_ports = (if vc_last_pkt_timestamp conn \<noteq> 0
              then (case rte_hash_del_key (ve_ports env) (vs_open_ports virtsvc) (conn_key conn) of
                  Inl _ \<Rightarrow> vs_open_ports virtsvc | Inr t \<Rightarrow> t)
              else vs_open_ports virtsvc) in
        case rte_hash_add_key_data (ve_ports env) open_ports key conn_port of
          Inl ret \<Rightarrow> Some (Inl (ERRNO (- ret)), virtsvc\<lparr> vs_open_ports := open_ports \<rparr>)
        | Inr open_ports \<Rightarrow>
            Some (DP_OK, put_conn conn_port
              (conn\<lparr> vc_ip := vck_ip key, vc_l4_port := vck_l4_port key, vc_port_id := vck_port_id key,
                     vc_state := DP_VIRTSVC_CONN_TRANSIENT \<rparr>)
              (virtsvc\<lparr> vs_open_ports := open_ports \<rparr>)))"

definition dp_virtsvc_create_connection ::
  "virtsvc_env \<Rightarrow> uint64 \<Rightarrow> dp_virtsvc_conn_key \<Rightarrow> dp_virtsvc \<times> dp_sync_msg list \<Rightarrow>
   (nat dp_result \<times> dp_virtsvc \<times> dp_sync_msg list) option" where
  "dp_virtsvc_create_connection env tsc key = (\<lambda>(virtsvc, out).
     case dp_virtsvc_get_free_port env tsc virtsvc of
       (Inl e, virtsvc) \<Rightarrow> Some (Inl e, virtsvc, out)
     | (Inr free_port, virtsvc) \<Rightarrow>
       do {
         (r, virtsvc) \<leftarrow> dp_virtsvc_use_port env key free_port virtsvc;
         case r of
           Inl e \<Rightarrow> Some (Inl e, virtsvc, out)
         | Inr _ \<Rightarrow>
             let out = (if ve_sync_enabled env
                   then snd (dp_sync_send_virtsvc_conn (ve_link env) (vs_virtual_addr virtsvc) (vs_virtual_port virtsvc)
                     (vs_proto virtsvc) (of_nat free_port) (vck_ip key) (vck_l4_port key) (vck_port_id key) out)
                   else out) in
             Some (Inr free_port, virtsvc, out)
       })"

definition dp_virstvc_get_connection :: "virtsvc_env \<Rightarrow> dp_virtsvc_conn_key \<Rightarrow> dp_virtsvc \<Rightarrow> nat dp_result option" where
  "dp_virstvc_get_connection env key virtsvc =
     (case rte_hash_lookup_data (ve_ports env) (vs_open_ports virtsvc) key of
       Inl ret \<Rightarrow> Some (Inl (ERRNO (- ret)))
     | Inr d \<Rightarrow> if d < DP_VIRTSVC_PORTCOUNT then Some (Inr d) else None)"

text \<open>The connection of a packet of a virtual machine; the physical port is chosen
  by the hash of the key (\<open>select\<close> is the multipath choice).\<close>

definition dp_virtsvc_get_pf_route ::
  "virtsvc_env \<Rightarrow> (uint32 \<Rightarrow> dp_port) \<Rightarrow> uint64 \<Rightarrow> uint16 \<Rightarrow> ipv4 \<Rightarrow> uint16 \<Rightarrow> dp_virtsvc \<times> dp_sync_msg list \<Rightarrow>
   ((uint16 \<times> nat) dp_result \<times> dp_virtsvc \<times> dp_sync_msg list) option" where
  "dp_virtsvc_get_pf_route env select tsc vf_port_id vf_ip vf_l4_port = (\<lambda>(virtsvc, out).
     let key = \<lparr> vck_port_id = vf_port_id, vck_l4_port = vf_l4_port, vck_ip = vf_ip \<rparr> in
     do {
       ret \<leftarrow> dp_virstvc_get_connection env key virtsvc;
       (ret, virtsvc, out) \<leftarrow>
         (if ret = Inl (ERRNO ENOENT) then dp_virtsvc_create_connection env tsc key (virtsvc, out)
          else Some (ret, virtsvc, out));
       case ret of
         Inl e \<Rightarrow> Some (Inl e, virtsvc, out)
       | Inr conn_idx \<Rightarrow> Some (Inr (port_id (select (ve_hash env key)), conn_idx), virtsvc, out)
     })"

definition del_iface_conn :: "virtsvc_env \<Rightarrow> uint16 \<Rightarrow> nat \<Rightarrow> dp_virtsvc \<Rightarrow> dp_virtsvc" where
  "del_iface_conn env pid i service =
     (let conn = vs_connections service i in
      if vc_port_id conn = pid \<and> vc_last_pkt_timestamp conn \<noteq> 0 then
        let service = put_conn i (conn\<lparr> vc_last_pkt_timestamp := 0 \<rparr>) service in
        (case rte_hash_del_key (ve_ports env) (vs_open_ports service) (conn_key conn) of
          Inl _ \<Rightarrow> service | Inr t \<Rightarrow> service\<lparr> vs_open_ports := t \<rparr>)
      else service)"

definition dp_virtsvc_del_iface :: "virtsvc_env \<Rightarrow> uint16 \<Rightarrow> dp_virtsvc list \<Rightarrow> dp_virtsvc list" where
  "dp_virtsvc_del_iface env pid = map (fold (del_iface_conn env pid) [0..<DP_VIRTSVC_PORTCOUNT])"

definition dp_virtsvc_get_used_port_count :: "virtsvc_env \<Rightarrow> uint64 \<Rightarrow> dp_virtsvc \<Rightarrow> nat" where
  "dp_virtsvc_get_used_port_count env current_tsc virtsvc =
     length (filter (\<lambda>p. \<not> dp_virtsvc_is_connection_old env (vs_connections virtsvc p) current_tsc)
       [0..<DP_VIRTSVC_PORTCOUNT])"

text \<open>A connection reported by the active instance.  The message of the first
  failure reads the service that was not found: a null pointer.\<close>

definition dp_virtsvc_open_sync_connection ::
  "virtsvc_env \<Rightarrow> uint64 \<Rightarrow> ipv4 \<Rightarrow> uint16 \<Rightarrow> uint8 \<Rightarrow> ipv4 \<Rightarrow> uint16 \<Rightarrow> uint16 \<Rightarrow> uint16 \<Rightarrow> virtsvc_state \<Rightarrow>
   (unit dp_result \<times> virtsvc_state) option" where
  "dp_virtsvc_open_sync_connection env tsc virtual_addr virtual_port proto vf_ip vf_l4_port vf_port_id conn_port vt =
     (let key = \<lparr> vck_port_id = vf_port_id, vck_l4_port = vf_l4_port, vck_ip = vf_ip \<rparr> in
      case get_virtsvc_by_ipv4 (vt_services vt) (vt_ipv4_tree vt) virtual_addr virtual_port proto of
        None \<Rightarrow> None
      | Some i \<Rightarrow>
        let virtsvc = vt_services vt ! i in
        do {
          ret \<leftarrow> dp_virstvc_get_connection env key virtsvc;
          let virtsvc = (case ret of
                Inl _ \<Rightarrow> virtsvc
              | Inr c \<Rightarrow>
                let virtsvc = put_conn c ((vs_connections virtsvc c)\<lparr> vc_last_pkt_timestamp := 0 \<rparr>) virtsvc in
                (case rte_hash_del_key (ve_ports env) (vs_open_ports virtsvc) key of
                  Inl _ \<Rightarrow> virtsvc | Inr t \<Rightarrow> virtsvc\<lparr> vs_open_ports := t \<rparr>));
          (r, virtsvc) \<leftarrow> dp_virtsvc_use_port env key (unat conn_port) virtsvc;
          let virtsvc = (case r of
                Inl _ \<Rightarrow> virtsvc
              | Inr _ \<Rightarrow>
                (put_conn (unat conn_port)
                  ((vs_connections virtsvc (unat conn_port))\<lparr> vc_last_pkt_timestamp := tsc \<rparr>) virtsvc)
                \<lparr> vs_last_assigned_port := conn_port \<rparr>);
          Some (r, vt\<lparr> vt_services := (vt_services vt)[i := virtsvc] \<rparr>)
        })"

definition sync_service :: "virtsvc_env \<Rightarrow> dp_virtsvc \<Rightarrow> dp_sync_msg list \<Rightarrow> dp_sync_msg list" where
  "sync_service env service = fold (\<lambda>i out.
     let conn = vs_connections service i in
     if vc_last_pkt_timestamp conn \<noteq> 0
     then snd (dp_sync_send_virtsvc_conn (ve_link env) (vs_virtual_addr service) (vs_virtual_port service)
       (vs_proto service) (of_nat i) (vc_ip conn) (vc_l4_port conn) (vc_port_id conn) out)
     else out) [0..<DP_VIRTSVC_PORTCOUNT]"

definition dp_synchronize_virtsvc_connections :: "virtsvc_env \<Rightarrow> virtsvc_state \<Rightarrow> dp_sync_msg list \<Rightarrow> dp_sync_msg list" where
  "dp_synchronize_virtsvc_connections env vt = fold (sync_service env) (vt_services vt)"

section \<open>The node\<close>

definition virtsvc_tcp_state_change :: "uint8 \<Rightarrow> dp_virtsvc_conn \<Rightarrow> dp_virtsvc_conn" where
  "virtsvc_tcp_state_change tcp_flags conn = conn\<lparr> vc_state :=
     (if DP_TCP_PKT_FLAG_RST tcp_flags then DP_VIRTSVC_CONN_TRANSIENT
      else if DP_TCP_PKT_FLAG_FIN tcp_flags then DP_VIRTSVC_CONN_TRANSIENT
      else case vc_state conn of
        DP_VIRTSVC_CONN_TRANSIENT \<Rightarrow>
          if DP_TCP_PKT_FLAG_ONLY_SYN tcp_flags then DP_VIRTSVC_CONN_TRANSIENT_SYN else vc_state conn
      | DP_VIRTSVC_CONN_TRANSIENT_SYN \<Rightarrow>
          if DP_TCP_PKT_FLAG_ONLY_SYNACK tcp_flags then DP_VIRTSVC_CONN_TRANSIENT_SYNACK else vc_state conn
      | DP_VIRTSVC_CONN_TRANSIENT_SYNACK \<Rightarrow>
          if DP_TCP_PKT_FLAG_ONLY_ACK tcp_flags then DP_VIRTSVC_CONN_ESTABLISHED else vc_state conn
      | DP_VIRTSVC_CONN_ESTABLISHED \<Rightarrow> vc_state conn) \<rparr>"

definition virtsvc_get_port_for_conn :: "nat \<Rightarrow> uint16" where
  "virtsvc_get_port_for_conn conn_idx = of_nat (conn_idx + DP_NB_SYSTEM_PORTS)"

text \<open>The index into the connections of a service: the subtraction wraps, and the
  array is indexed with what it gives.\<close>

definition virtsvc_get_conn_on_port :: "uint16 \<Rightarrow> nat option" where
  "virtsvc_get_conn_on_port l4_port =
     (let port_idx = unat (l4_port - of_nat DP_NB_SYSTEM_PORTS) in
      if port_idx < DP_VIRTSVC_PORTCOUNT then Some port_idx else None)"

text \<open>Removing data from the front without looking at the result.\<close>

definition pktmbuf_adj :: "nat \<Rightarrow> rte_mbuf \<Rightarrow> rte_mbuf" where
  "pktmbuf_adj n m = (case rte_pktmbuf_adj n m of None \<Rightarrow> m | Some m \<Rightarrow> m)"

definition be_mac :: "mac \<Rightarrow> bytes" where
  "be_mac a = be16 (ucast (drop_bit 32 a)) @ be32 (ucast a)"

definition dp_fill_ether_hdr :: "nat \<Rightarrow> dp_port \<Rightarrow> uint16 \<Rightarrow> rte_mbuf \<Rightarrow> rte_mbuf" where
  "dp_fill_ether_hdr ether_hdr port ether_type m =
     put (ether_hdr + 12) (be16 ether_type) (put (ether_hdr + 6) (be_mac (own_mac port)) (put ether_hdr (be_mac (neigh_mac port)) m))"

record virtsvc_node_env =
  vn_env :: virtsvc_env
  vn_select :: "uint32 \<Rightarrow> dp_port"
  vn_ports :: "dp_port option list"
  vn_tx :: tx_node

definition touch_conn :: "nat \<Rightarrow> uint64 \<Rightarrow> (dp_virtsvc_conn \<Rightarrow> dp_virtsvc_conn) \<Rightarrow> dp_virtsvc \<Rightarrow> dp_virtsvc" where
  "touch_conn i tsc f v = put_conn i (f ((vs_connections v i)\<lparr> vc_last_pkt_timestamp := tsc \<rparr>)) v"

text \<open>The checksum of the rewritten transport header is left to the network card.\<close>

definition virtsvc_l4_offload :: "uint8 \<Rightarrow> nat \<Rightarrow> rte_mbuf \<Rightarrow> rte_mbuf" where
  "virtsvc_l4_offload proto l4_hdr m =
     (if proto = IPPROTO_TCP
      then (let m = add_flag TX_TCP_CKSUM (put (l4_hdr + 16) (be16 0) m) in
        m\<lparr> mb_l4_len := DP_TCP_HDR_LEN (mb_buf m) l4_hdr \<rparr>)
      else (add_flag TX_UDP_CKSUM (put (l4_hdr + 6) (be16 0) m))\<lparr> mb_l4_len := 8 \<rparr>)"

text \<open>The header of a request, from the IPv4 header at the front of the packet.\<close>

definition virtsvc_request_hdr :: "dp_virtsvc \<Rightarrow> rte_mbuf \<Rightarrow> rte_mbuf option" where
  "virtsvc_request_hdr virtsvc m =
     (let ipv4_hdr = mb_off m + ETHER_HDR_LEN; b = mb_buf m;
          hdr_total_len = get16 b (ipv4_hdr + 2); proto = get8 b (ipv4_hdr + 9); ttl = get8 b (ipv4_hdr + 8) in
      if unat hdr_total_len < IPV4_HDR_LEN then None
      else case rte_pktmbuf_prepend (ETHER_HDR_LEN + IPV6_HDR_LEN) (pktmbuf_adj (ETHER_HDR_LEN + IPV4_HDR_LEN) m) of
        None \<Rightarrow> None
      | Some m \<Rightarrow>
        let m = m\<lparr> mb_packet_type := (mb_packet_type m AND RTE_PTYPE_L4_MASK) OR RTE_PTYPE_L3_IPV6 OR RTE_PTYPE_L2_ETHER \<rparr>;
            ipv6_hdr = mb_off m + ETHER_HDR_LEN;
            m = put ipv6_hdr (be32 0x60000000) m;
            m = put (ipv6_hdr + 4) (be16 (hdr_total_len - 20)) m;
            m = put (ipv6_hdr + 6) [proto] m;
            m = put (ipv6_hdr + 7) [ttl] m;
            m = put (ipv6_hdr + 8) (be_ipv6 (vs_ul_addr virtsvc)) m;
            m = put (ipv6_hdr + 24) (be_ipv6 (vs_service_addr virtsvc)) m;
            m = zero_tx_offload (add_flag TX_IPV6 m) in
        Some (m\<lparr> mb_l2_len := ETHER_HDR_LEN, mb_l3_len := IPV6_HDR_LEN \<rparr>))"

text \<open>Result: the edge, the packet, the service, and the messages to the standby.\<close>

definition virtsvc_request_next ::
  "virtsvc_node_env \<Rightarrow> uint64 \<Rightarrow> rte_mbuf \<Rightarrow> dp_virtsvc \<times> dp_sync_msg list \<Rightarrow>
   (edge \<times> rte_mbuf \<times> dp_virtsvc \<times> dp_sync_msg list) option" where
  "virtsvc_request_next env tsc m vo =
     (let original_ip = get32 (mb_buf m) (mb_off m + ETHER_HDR_LEN + 12);
          proto = get8 (mb_buf m) (mb_off m + ETHER_HDR_LEN + 9) in
      case virtsvc_request_hdr (fst vo) m of
        None \<Rightarrow> Some (To_drop, m, vo)
      | Some m \<Rightarrow>
        let l4_hdr = mb_off m + ETHER_HDR_LEN + IPV6_HDR_LEN in
        do {
          (r, virtsvc, out) \<leftarrow> dp_virtsvc_get_pf_route (vn_env env) (vn_select env) tsc (mb_port m) original_ip
             (get16 (mb_buf m) l4_hdr) vo;
          case r of
            Inl _ \<Rightarrow> Some (To_drop, m, virtsvc, out)
          | Inr (pf_port_id, conn_idx) \<Rightarrow>
            let change = (if proto = IPPROTO_TCP then virtsvc_tcp_state_change (get8 (mb_buf m) (l4_hdr + 13)) else id);
                virtsvc = touch_conn conn_idx tsc change virtsvc;
                m = put l4_hdr (be16 (virtsvc_get_port_for_conn conn_idx)) m;
                m = put (l4_hdr + 2) (be16 (vs_service_port virtsvc)) m;
                m = virtsvc_l4_offload proto l4_hdr m in
            (case dp_get_port_by_id (vn_ports env) pf_port_id of
              None \<Rightarrow> Some (To_drop, m, virtsvc, out)
            | Some pf_port \<Rightarrow> do {
                e \<leftarrow> next_tx (vn_tx env) pf_port_id;
                Some (e, dp_fill_ether_hdr (mb_off m) pf_port RTE_ETHER_TYPE_IPV6 m, virtsvc, out)
              })
        })"

definition virtsvc_reply_hdr :: "uint16 \<Rightarrow> dp_virtsvc \<Rightarrow> rte_mbuf \<Rightarrow> rte_mbuf option" where
  "virtsvc_reply_hdr packet_id virtsvc m =
     (let ipv6_hdr = mb_off m + ETHER_HDR_LEN; b = mb_buf m;
          proto = get8 b (ipv6_hdr + 6); ttl = get8 b (ipv6_hdr + 7); total_length = get16 b (ipv6_hdr + 4) + 20 in
      case rte_pktmbuf_prepend (ETHER_HDR_LEN + IPV4_HDR_LEN) (pktmbuf_adj (ETHER_HDR_LEN + IPV6_HDR_LEN) m) of
        None \<Rightarrow> None
      | Some m \<Rightarrow>
        let m = m\<lparr> mb_packet_type := (mb_packet_type m AND NOT RTE_PTYPE_L3_MASK) OR RTE_PTYPE_L3_IPV4 OR RTE_PTYPE_L2_ETHER \<rparr>;
            ipv4_hdr = mb_off m + ETHER_HDR_LEN;
            m = put ipv4_hdr [0x45] m;
            m = put (ipv4_hdr + 2) (be16 total_length) m;
            m = put (ipv4_hdr + 1) [0] m;
            m = put (ipv4_hdr + 4) (le16 packet_id) m;
            m = put (ipv4_hdr + 6) (be16 0) m;
            m = put (ipv4_hdr + 8) [ttl] m;
            m = put (ipv4_hdr + 9) [proto] m;
            m = put (ipv4_hdr + 12) (be32 (vs_virtual_addr virtsvc)) m;
            m = put (ipv4_hdr + 10) (be16 0) m;
            m = zero_tx_offload (add_flag TX_IP_CKSUM (add_flag TX_IPV4 m)) in
        Some (m\<lparr> mb_l2_len := ETHER_HDR_LEN, mb_l3_len := IPV4_HDR_LEN \<rparr>))"

text \<open>The state includes the counter of packet identifiers, which advances with
  every header that is built.\<close>

definition virtsvc_reply_next ::
  "virtsvc_node_env \<Rightarrow> uint64 \<Rightarrow> rte_mbuf \<Rightarrow> dp_virtsvc \<Rightarrow> uint16 \<Rightarrow> (edge \<times> rte_mbuf \<times> dp_virtsvc \<times> uint16) option" where
  "virtsvc_reply_next env tsc m virtsvc packet_id =
     (let proto = get8 (mb_buf m) (mb_off m + ETHER_HDR_LEN + 6) in
      case virtsvc_reply_hdr packet_id virtsvc m of
        None \<Rightarrow> Some (To_drop, m, virtsvc, packet_id)
      | Some m \<Rightarrow>
        let packet_id = packet_id + 1; ipv4_hdr = mb_off m + ETHER_HDR_LEN; l4_hdr = ipv4_hdr + IPV4_HDR_LEN in
        do {
          i \<leftarrow> virtsvc_get_conn_on_port (get16 (mb_buf m) (l4_hdr + 2));
          let conn = vs_connections virtsvc i;
          if vc_last_pkt_timestamp conn = 0 then Some (To_drop, m, virtsvc, packet_id)
          else
            let change = (if proto = IPPROTO_TCP then virtsvc_tcp_state_change (get8 (mb_buf m) (l4_hdr + 13)) else id);
                virtsvc = touch_conn i tsc change virtsvc;
                m = put (l4_hdr + 2) (be16 (vc_l4_port conn)) m;
                m = put l4_hdr (be16 (vs_virtual_port virtsvc)) m;
                m = virtsvc_l4_offload proto l4_hdr m;
                m = put (ipv4_hdr + 16) (be32 (vc_ip conn)) m in
            (case dp_get_port_by_id (vn_ports env) (vc_port_id conn) of
              None \<Rightarrow> Some (To_drop, m, virtsvc, packet_id)
            | Some vf_port \<Rightarrow> do {
                e \<leftarrow> next_tx (vn_tx env) (vc_port_id conn);
                Some (e, dp_fill_ether_hdr (mb_off m) vf_port RTE_ETHER_TYPE_IPV4 m, virtsvc, packet_id)
              })
        })"

section \<open>The connection tables\<close>

text \<open>Every open connection has an index of its own whose entry names it and is in
  use; \<open>but i\<close> leaves the timestamp of one entry open.\<close>

definition conns_ok :: "nat option \<Rightarrow> dp_virtsvc \<Rightarrow> bool" where
  "conns_ok but v \<longleftrightarrow> unat (vs_last_assigned_port v) < DP_VIRTSVC_PORTCOUNT
     \<and> (\<forall>k i. vs_open_ports v k = Some i \<longrightarrow> i < DP_VIRTSVC_PORTCOUNT \<and> conn_key (vs_connections v i) = k
           \<and> (but \<noteq> Some i \<longrightarrow> vc_last_pkt_timestamp (vs_connections v i) \<noteq> 0))"

fun tree_set :: "lookup_tree \<Rightarrow> nat set" where
  "tree_set Leaf = {}"
| "tree_set (Entry i l r) = insert i (tree_set l \<union> tree_set r)"

definition virtsvc_inv :: "virtsvc_state \<Rightarrow> bool" where
  "virtsvc_inv vt \<longleftrightarrow> (\<forall>v\<in>set (vt_services vt). conns_ok None v)
     \<and> tree_set (vt_ipv4_tree vt) \<subseteq> {..<length (vt_services vt)}
     \<and> tree_set (vt_ipv6_tree vt) \<subseteq> {..<length (vt_services vt)}"

definition put_service :: "nat \<Rightarrow> dp_virtsvc \<Rightarrow> virtsvc_state \<Rightarrow> virtsvc_state" where
  "put_service i v vt = vt\<lparr> vt_services := (vt_services vt)[i := v] \<rparr>"

text \<open>What \<open>qsort\<close> promises: a permutation, and an ordered one when the comparator
  is consistent on the elements.\<close>

definition consistent :: "('a \<Rightarrow> 'a \<Rightarrow> int) \<Rightarrow> 'a set \<Rightarrow> bool" where
  "consistent cmp A \<longleftrightarrow> (\<forall>x\<in>A. \<forall>y\<in>A. sgn (cmp x y) = - sgn (cmp y x))
     \<and> (\<forall>x\<in>A. \<forall>y\<in>A. \<forall>z\<in>A. cmp x y \<le> 0 \<longrightarrow> cmp y z \<le> 0 \<longrightarrow> cmp x z \<le> 0)"

definition sorts :: "((nat \<Rightarrow> nat \<Rightarrow> int) \<Rightarrow> nat list \<Rightarrow> nat list) \<Rightarrow> bool" where
  "sorts qsort \<longleftrightarrow> (\<forall>cmp xs. mset (qsort cmp xs) = mset xs
     \<and> (consistent cmp (set xs) \<longrightarrow> sorted_wrt (\<lambda>x y. cmp x y \<le> 0) (qsort cmp xs)))"

text \<open>What can happen to the services: packets in both directions, the removal of
  an interface, and a message from the active instance.\<close>

inductive virtsvc_step :: "virtsvc_state \<Rightarrow> virtsvc_state \<Rightarrow> bool" where
  request: "hash_table (ve_ports (vn_env env)) \<Longrightarrow> tsc \<noteq> 0 \<Longrightarrow> i < length (vt_services vt) \<Longrightarrow>
    virtsvc_request_next env tsc m (vt_services vt ! i, out) = Some (e, m', v, out') \<Longrightarrow>
    virtsvc_step vt (put_service i v vt)"
| reply: "tsc \<noteq> 0 \<Longrightarrow> i < length (vt_services vt) \<Longrightarrow>
    virtsvc_reply_next env tsc m (vt_services vt ! i) n = Some (e, m', v, n') \<Longrightarrow>
    virtsvc_step vt (put_service i v vt)"
| del_iface: "hash_table (ve_ports env) \<Longrightarrow>
    virtsvc_step vt (vt\<lparr> vt_services := dp_virtsvc_del_iface env pid (vt_services vt) \<rparr>)"
| sync: "hash_table (ve_ports env) \<Longrightarrow> tsc \<noteq> 0 \<Longrightarrow>
    dp_virtsvc_open_sync_connection env tsc a p proto ip l4 pid conn_port vt = Some (r, vt') \<Longrightarrow> virtsvc_step vt vt'"

definition virtsvc_started :: "virtsvc_state \<Rightarrow> bool" where
  "virtsvc_started vt \<longleftrightarrow> (\<exists>conf malloc tables mem qsort rules. sorts qsort \<and> dp_virtsvc_init conf malloc tables mem qsort rules = Inr vt)"

section \<open>Lemmas\<close>

lemma put_conn_simps [simp]:
  "vs_connections (put_conn i c v) = (vs_connections v)(i := c)" "vs_open_ports (put_conn i c v) = vs_open_ports v"
  "vs_last_assigned_port (put_conn i c v) = vs_last_assigned_port v"
  "vs_service_port (put_conn i c v) = vs_service_port v" "vs_virtual_port (put_conn i c v) = vs_virtual_port v"
  by (simp_all add: put_conn_def)

lemma tcp_state_change_simps [simp]:
  "vc_last_pkt_timestamp (virtsvc_tcp_state_change f c) = vc_last_pkt_timestamp c"
  "conn_key (virtsvc_tcp_state_change f c) = conn_key c"
  by (simp_all add: virtsvc_tcp_state_change_def conn_key_def)

lemma conn_key_timestamp [simp]: "conn_key (c\<lparr> vc_last_pkt_timestamp := t \<rparr>) = conn_key c"
  by (simp add: conn_key_def)

lemma touch_conn_simps:
  assumes "f = id \<or> f = virtsvc_tcp_state_change fl"
  shows "conn_key (vs_connections (touch_conn i t f v) j) = conn_key (vs_connections v j)"
    and "vc_last_pkt_timestamp (vs_connections (touch_conn i t f v) j) =
      (if j = i then t else vc_last_pkt_timestamp (vs_connections v j))"
    and "vs_open_ports (touch_conn i t f v) = vs_open_ports v"
    and "vs_last_assigned_port (touch_conn i t f v) = vs_last_assigned_port v"
  using assms by (auto simp: touch_conn_def)

lemma conns_ok_touch:
  assumes "conns_ok but v" "but = None \<or> but = Some i" "t \<noteq> 0" "f = id \<or> f = virtsvc_tcp_state_change fl"
  shows "conns_ok None (touch_conn i t f v)"
  using assms(1-3) unfolding conns_ok_def touch_conn_simps[OF assms(4)] by auto

lemma conns_ok_weaken: "conns_ok None v \<Longrightarrow> conns_ok but v"
  by (auto simp: conns_ok_def)

lemma free_port_ok:
  assumes "dp_virtsvc_get_free_port env tsc v = (r, v')" "conns_ok None v"
  shows "conns_ok None v' \<and> (\<forall>p. r = Inr p \<longrightarrow> p < DP_VIRTSVC_PORTCOUNT \<and> vs_last_assigned_port v' = of_nat p)
    \<and> vs_connections v' = vs_connections v \<and> vs_open_ports v' = vs_open_ports v"
proof -
  have last: "unat (vs_last_assigned_port v) < DP_VIRTSVC_PORTCOUNT" using assms(2) by (simp add: conns_ok_def)
  have small: "unat (of_nat p :: uint16) = p" if "p < DP_VIRTSVC_PORTCOUNT" for p
    using that by (simp add: unat_of_nat take_bit_nat_eq_self_iff DP_VIRTSVC_PORTCOUNT_def DP_NB_SYSTEM_PORTS_def)
  let ?l = "[unat (vs_last_assigned_port v) + 1..<DP_VIRTSVC_PORTCOUNT] @ [0..<unat (vs_last_assigned_port v) + 1]"
  have "p < DP_VIRTSVC_PORTCOUNT" if "find f ?l = Some p" for f p
    using that last by (fastforce simp: find_Some_iff nth_append split: if_splits)
  then show ?thesis
    using assms small by (auto simp: dp_virtsvc_get_free_port_def Let_def conns_ok_def split: option.splits)
qed

lemma use_port_ok:
  assumes ht: "hash_table (ve_ports env)" and ok: "conns_ok None v"
    and use: "dp_virtsvc_use_port env key i v = Some (r, v')"
  shows "conns_ok (Some i) v' \<and> (\<forall>e. r = Inl e \<longrightarrow> conns_ok None v') \<and> i < DP_VIRTSVC_PORTCOUNT
    \<and> (r = DP_OK \<longrightarrow> vs_open_ports v' key = Some i \<and> conn_key (vs_connections v' i) = key)"
proof -
  let ?c = "vs_connections v i"
  define t where "t = (if vc_last_pkt_timestamp ?c \<noteq> 0 then (vs_open_ports v)(conn_key ?c := None) else vs_open_ports v)"
  have del: "(case rte_hash_del_key (ve_ports env) (vs_open_ports v) (conn_key ?c) of Inl _ \<Rightarrow> vs_open_ports v | Inr t \<Rightarrow> t)
      = (vs_open_ports v)(conn_key ?c := None)"
    by (auto simp: hash_table.del_key[OF ht] fun_upd_idem)
  have t: "t k = Some j \<Longrightarrow> vs_open_ports v k = Some j \<and> j \<noteq> i" for k j
    using ok by (auto simp: t_def conns_ok_def split: if_splits)
  have i: "i < DP_VIRTSVC_PORTCOUNT"
    using use by (auto simp: dp_virtsvc_use_port_def split: if_splits)
  show ?thesis
  proof (cases "rte_hash_add_key_data (ve_ports env) t key i")
    case (Inl e)
    hence "r = Inl (ERRNO (- e))" "v' = v\<lparr> vs_open_ports := t \<rparr>"
      using use i unfolding dp_virtsvc_use_port_def Let_def del t_def[symmetric] by auto
    moreover have "conns_ok None (v\<lparr> vs_open_ports := t \<rparr>)"
      using ok t unfolding conns_ok_def by fastforce
    ultimately show ?thesis using i by (simp add: conns_ok_weaken)
  next
    case (Inr t')
    let ?c' = "?c\<lparr> vc_ip := vck_ip key, vc_l4_port := vck_l4_port key, vc_port_id := vck_port_id key,
        vc_state := DP_VIRTSVC_CONN_TRANSIENT \<rparr>"
    have t': "t' = t(key \<mapsto> i)" using hash_table.add_key_data[OF ht Inr] .
    have k: "conn_key ?c' = key" by (simp add: conn_key_def)
    have "r = DP_OK" "v' = put_conn i ?c' (v\<lparr> vs_open_ports := t(key \<mapsto> i) \<rparr>)"
      using use i Inr t' unfolding dp_virtsvc_use_port_def Let_def del t_def[symmetric] by auto
    moreover have "conns_ok (Some i) (put_conn i ?c' (v\<lparr> vs_open_ports := t(key \<mapsto> i) \<rparr>))"
      using ok t i k unfolding conns_ok_def by (fastforce split: if_splits)
    ultimately show ?thesis using i k by simp
  qed
qed

lemma create_connection_ok:
  assumes ht: "hash_table (ve_ports env)" and ok: "conns_ok None v"
    and create: "dp_virtsvc_create_connection env tsc key (v, out) = Some (r, v', out')"
  shows "conns_ok (case r of Inl _ \<Rightarrow> None | Inr i \<Rightarrow> Some i) v'
    \<and> (\<forall>i. r = Inr i \<longrightarrow> i < DP_VIRTSVC_PORTCOUNT \<and> vs_open_ports v' key = Some i \<and> conn_key (vs_connections v' i) = key)"
proof (cases "dp_virtsvc_get_free_port env tsc v")
  case (Pair f v1)
  note free = free_port_ok[OF Pair ok]
  show ?thesis
  proof (cases f)
    case (Inl e)
    with Pair create free show ?thesis by (auto simp: dp_virtsvc_create_connection_def)
  next
    case (Inr p)
    then obtain r1 v2 where use: "dp_virtsvc_use_port env key p v1 = Some (r1, v2)"
      and rest: "(case r1 of Inl e \<Rightarrow> Inl e | Inr _ \<Rightarrow> Inr p) = r" "v' = v2"
      using create Pair by (auto simp: dp_virtsvc_create_connection_def Let_def split: bind_splits sum.splits)
    from use_port_ok[OF ht _ use] free rest show ?thesis by (auto split: sum.splits)
  qed
qed

lemma pf_route_ok:
  assumes ht: "hash_table (ve_ports env)" and ok: "conns_ok None v"
    and route: "dp_virtsvc_get_pf_route env select tsc pid ip l4 (v, out) = Some (r, v', out')"
  shows "conns_ok (case r of Inl _ \<Rightarrow> None | Inr (_, i) \<Rightarrow> Some i) v'
    \<and> (\<forall>pf i. r = Inr (pf, i) \<longrightarrow> i < DP_VIRTSVC_PORTCOUNT
        \<and> conn_key (vs_connections v' i) = \<lparr> vck_port_id = pid, vck_l4_port = l4, vck_ip = ip \<rparr>
        \<and> vs_open_ports v' \<lparr> vck_port_id = pid, vck_l4_port = l4, vck_ip = ip \<rparr> = Some i)"
proof -
  let ?k = "\<lparr> vck_port_id = pid, vck_l4_port = l4, vck_ip = ip \<rparr>"
  show ?thesis
  proof (cases "vs_open_ports v ?k")
    case (Some i)
    hence "dp_virstvc_get_connection env ?k v = Some (Inr i)"
      using ok by (auto simp: dp_virstvc_get_connection_def hash_table.lookup_data[OF ht] conns_ok_def)
    with route have "r = Inr (port_id (select (ve_hash env ?k)), i)" "v' = v"
      by (auto simp: dp_virtsvc_get_pf_route_def Let_def)
    with ok Some show ?thesis by (auto simp: conns_ok_def)
  next
    case None
    hence get: "dp_virstvc_get_connection env ?k v = Some (Inl (ERRNO ENOENT))"
      by (simp add: dp_virstvc_get_connection_def hash_table.lookup_data[OF ht])
    then obtain r1 where create: "dp_virtsvc_create_connection env tsc ?k (v, out) = Some (r1, v', out')"
      and r: "r = (case r1 of Inl e \<Rightarrow> Inl e | Inr i \<Rightarrow> Inr (port_id (select (ve_hash env ?k)), i))"
      using route by (auto simp: dp_virtsvc_get_pf_route_def Let_def split: bind_splits sum.splits)
    from create_connection_ok[OF ht ok create] r show ?thesis by (auto split: sum.splits)
  qed
qed

lemma request_next_cases:
  assumes "virtsvc_request_next env tsc m vo = Some (e, m', v', out')"
  obtains (dropped) "virtsvc_request_hdr (fst vo) m = None" "e = To_drop" "(v', out') = vo"
  | (refused) m1 where "virtsvc_request_hdr (fst vo) m = Some m1"
      "\<exists>x. dp_virtsvc_get_pf_route (vn_env env) (vn_select env) tsc (mb_port m1) (get32 (mb_buf m) (mb_off m + 14 + 12))
         (get16 (mb_buf m1) (mb_off m1 + 14 + 40)) vo = Some (Inl x, v', out')" "e = To_drop"
  | (sent) m1 pf i v1 f fl where "virtsvc_request_hdr (fst vo) m = Some m1"
      "dp_virtsvc_get_pf_route (vn_env env) (vn_select env) tsc (mb_port m1) (get32 (mb_buf m) (mb_off m + 14 + 12))
         (get16 (mb_buf m1) (mb_off m1 + 14 + 40)) vo = Some (Inr (pf, i), v1, out')"
      "f = id \<or> f = virtsvc_tcp_state_change fl" "v' = touch_conn i tsc f v1"
proof (cases "virtsvc_request_hdr (fst vo) m")
  case None
  with assms show ?thesis by (auto simp: virtsvc_request_next_def Let_def intro: dropped)
next
  case (Some m1)
  let ?route = "dp_virtsvc_get_pf_route (vn_env env) (vn_select env) tsc (mb_port m1)
    (get32 (mb_buf m) (mb_off m + 14 + 12)) (get16 (mb_buf m1) (mb_off m1 + 14 + 40)) vo"
  from assms Some obtain r v1 o1 where route: "?route = Some (r, v1, o1)"
    by (auto simp: virtsvc_request_next_def Let_def split: bind_splits)
  show ?thesis
  proof (cases r)
    case (Inl x)
    with assms Some route show ?thesis
      by (auto simp: virtsvc_request_next_def Let_def intro!: refused[OF Some])
  next
    case (Inr pi)
    obtain pf i where pi: "pi = (pf, i)" by (cases pi)
    let ?proto = "get8 (mb_buf m) (mb_off m + 14 + 9)"
    let ?f = "if ?proto = IPPROTO_TCP then virtsvc_tcp_state_change (get8 (mb_buf m1) (mb_off m1 + 14 + 40 + 13)) else id"
    have "out' = o1" "v' = touch_conn i tsc ?f v1"
      using assms Some route Inr pi
      by (auto simp: virtsvc_request_next_def Let_def split: bind_splits option.splits)
    thus ?thesis
      by (intro sent[OF Some, of pf i v1 ?f "get8 (mb_buf m1) (mb_off m1 + 14 + 40 + 13)"]) (use route Inr pi in auto)
  qed
qed

lemma request_next_ok:
  assumes ht: "hash_table (ve_ports (vn_env env))" and ok: "conns_ok None v" and tsc: "tsc \<noteq> 0"
    and req: "virtsvc_request_next env tsc m (v, out) = Some (e, m', v', out')"
  shows "conns_ok None v'"
  using req
proof (cases rule: request_next_cases)
  case (refused m1)
  then obtain x where "dp_virtsvc_get_pf_route (vn_env env) (vn_select env) tsc (mb_port m1)
      (get32 (mb_buf m) (mb_off m + 14 + 12)) (get16 (mb_buf m1) (mb_off m1 + 14 + 40)) (v, out) = Some (Inl x, v', out')"
    by blast
  from pf_route_ok[OF ht ok this] show ?thesis by simp
next
  case (sent m1 pf i v1 f fl)
  from pf_route_ok[OF ht ok sent(2)] have "conns_ok (Some i) v1" by simp
  from conns_ok_touch[OF this _ tsc sent(3)] sent(4) show ?thesis by simp
qed (use ok in simp)

lemma reply_next_ok:
  assumes ok: "conns_ok None v" and tsc: "tsc \<noteq> 0"
    and rep: "virtsvc_reply_next env tsc m v n = Some (e, m', v', n')"
  shows "conns_ok None v'"
proof -
  have "v' = v \<or> (\<exists>i f fl. (f = id \<or> f = virtsvc_tcp_state_change fl) \<and> v' = touch_conn i tsc f v)"
    using rep by (auto simp: virtsvc_reply_next_def Let_def split: option.splits if_splits bind_splits)
  thus ?thesis using conns_ok_touch[OF ok _ tsc] ok by auto
qed

lemma del_iface_ok:
  assumes "hash_table (ve_ports env)" "conns_ok None v"
  shows "conns_ok None (del_iface_conn env pid i v)"
  using assms(2) by (auto simp: del_iface_conn_def Let_def conns_ok_def hash_table.del_key[OF assms(1)] split: if_splits)

lemma del_ifaces_ok:
  assumes "hash_table (ve_ports env)" "conns_ok None v"
  shows "conns_ok None (fold (del_iface_conn env pid) is v)"
  using assms(2) by (induction "is" arbitrary: v) (auto simp: del_iface_ok[OF assms(1)])

lemma virtsvc_inv_put: "virtsvc_inv vt \<Longrightarrow> conns_ok None v \<Longrightarrow> virtsvc_inv (put_service i v vt)"
  using set_update_subset_insert[of "vt_services vt" i v] by (auto simp: virtsvc_inv_def put_service_def)

lemma tree_find_bound:
  assumes "tree_find cmp services t = Some i" shows "cmp (services ! i) = 0"
  using assms by (induction t) (auto simp: Let_def split: if_splits)

section \<open>The search trees\<close>

lemma sorts_set: "sorts qsort \<Longrightarrow> set (qsort cmp xs) = set xs"
  "sorts qsort \<Longrightarrow> length (qsort cmp xs) = length xs"
  "sorts qsort \<Longrightarrow> distinct (qsort cmp xs) = distinct xs"
  unfolding sorts_def by (metis mset_eq_setD, metis mset_eq_length, metis mset_eq_imp_distinct_iff)

lemma tree_find_set: "tree_find cmp services t = Some i \<Longrightarrow> i \<in> tree_set t"
  by (induction t) (auto simp: Let_def split: if_splits)

lemma array_tree_set:
  assumes "dp_virtsvc_array_to_tree mem a s e n = Some (t, n')" "0 \<le> s" "e < int (length a)"
  shows "tree_set t \<subseteq> set a"
  using assms
proof (induction mem a s e n arbitrary: t n' rule: dp_virtsvc_array_to_tree.induct)
  case (1 mem a s e n)
  show ?case
  proof (cases "s > e")
    case True
    with 1 show ?thesis by (simp add: dp_virtsvc_array_to_tree.simps[of _ _ s])
  next
    case False
    let ?mid = "(s + e) div 2"
    from False "1.prems" obtain l n1 r where mem: "mem n"
      and l: "dp_virtsvc_array_to_tree mem a s (?mid - 1) (Suc n) = Some (l, n1)"
      and r: "dp_virtsvc_array_to_tree mem a (?mid + 1) e n1 = Some (r, n')"
      and t: "t = Entry (a ! nat ?mid) l r"
      by (subst (asm) dp_virtsvc_array_to_tree.simps) (auto simp: Let_def split: if_splits option.splits)
    have mid: "nat ?mid < length a" "0 \<le> ?mid" "?mid - 1 < int (length a)" using False "1.prems" by auto
    have "tree_set l \<subseteq> set a" by (rule "1.IH"(1)[OF False _ refl l]) (use mem "1.prems" mid in auto)
    moreover have "tree_set r \<subseteq> set a" by (rule "1.IH"(2)[OF False _ refl l _ r]) (use mem "1.prems" mid in auto)
    ultimately show ?thesis using t mid by simp
  qed
qed

text \<open>What is sought compares greater than everything before its place and smaller
  than everything behind it.\<close>

definition separates :: "(nat \<Rightarrow> int) \<Rightarrow> nat list \<Rightarrow> bool" where
  "separates c a \<longleftrightarrow> (\<forall>j k. j < k \<longrightarrow> k < length a \<longrightarrow> c (a ! j) \<le> 0 \<longrightarrow> c (a ! k) < 0)"

lemma array_tree_find:
  assumes "dp_virtsvc_array_to_tree mem a s e n = Some (t, n')" "0 \<le> s" "e < int (length a)"
    and "separates (\<lambda>i. cmp (services ! i)) a"
  shows "tree_find cmp services t = Some i \<longleftrightarrow> (\<exists>j. s \<le> int j \<and> int j \<le> e \<and> a ! j = i \<and> cmp (services ! i) = 0)"
  using assms
proof (induction mem a s e n arbitrary: t n' rule: dp_virtsvc_array_to_tree.induct)
  case (1 mem a s e n)
  let ?c = "\<lambda>j. cmp (services ! (a ! j))"
  have sep: "?c j \<le> 0 \<Longrightarrow> ?c k < 0" if "j < k" "k < length a" for j k
    using "1.prems"(4) that by (auto simp: separates_def)
  show ?case
  proof (cases "s > e")
    case True
    with "1.prems" show ?thesis by (simp add: dp_virtsvc_array_to_tree.simps[of _ _ s])
  next
    case False
    let ?mid = "(s + e) div 2"
    from False "1.prems" obtain l n1 r where mem: "mem n"
      and l: "dp_virtsvc_array_to_tree mem a s (?mid - 1) (Suc n) = Some (l, n1)"
      and r: "dp_virtsvc_array_to_tree mem a (?mid + 1) e n1 = Some (r, n')"
      and t: "t = Entry (a ! nat ?mid) l r"
      by (subst (asm) dp_virtsvc_array_to_tree.simps) (auto simp: Let_def split: if_splits option.splits)
    obtain M where M: "?mid = int M" "M < length a" "s \<le> int M" "int M \<le> e"
      using False "1.prems" by (intro that[of "nat ?mid"]) auto
    have L: "tree_find cmp services l = Some i \<longleftrightarrow> (\<exists>j. s \<le> int j \<and> int j \<le> ?mid - 1 \<and> a ! j = i \<and> cmp (services ! i) = 0)"
      by (rule "1.IH"(1)[OF False _ refl l]) (use mem "1.prems" M in auto)
    have R: "tree_find cmp services r = Some i \<longleftrightarrow> (\<exists>j. ?mid + 1 \<le> int j \<and> int j \<le> e \<and> a ! j = i \<and> cmp (services ! i) = 0)"
      by (rule "1.IH"(2)[OF False _ refl l _ r]) (use mem "1.prems" M in auto)
    have before: "?c j = 0 \<Longrightarrow> j < M \<Longrightarrow> ?c M < 0" for j using sep[of j M] M by simp
    have after: "?c j = 0 \<Longrightarrow> M < j \<Longrightarrow> int j \<le> e \<Longrightarrow> ?c M > 0" for j
      using sep[of M j] "1.prems"(3) by force
    have nM: "nat ?mid = M" using M(1) by simp
    consider (here) "?c M = 0" | (left) "?c M < 0" | (right) "?c M > 0" by linarith
    then show ?thesis
    proof cases
      case here
      have "j = M" if "?c j = 0" "int j \<le> e" for j
        using before[OF that(1)] after[OF that(1) _ that(2)] here
        by (cases j M rule: linorder_cases) auto
      moreover have "tree_find cmp services t = Some (a ! M)" using here nM by (simp add: t)
      ultimately show ?thesis using here M(3,4) by (metis option.inject)
    next
      case left
      have "int j \<le> e \<longleftrightarrow> int j \<le> int M - 1" if "?c j = 0" for j
        using after[OF that] left that M(4) by (cases j M rule: linorder_cases) auto
      moreover have "tree_find cmp services t = tree_find cmp services l" using left nM by (simp add: t)
      ultimately show ?thesis using L unfolding M(1) by metis
    next
      case right
      have "s \<le> int j \<longleftrightarrow> int M + 1 \<le> int j" if "?c j = 0" for j
        using before[OF that] right that M(3) by (cases j M rule: linorder_cases) auto
      moreover have "tree_find cmp services t = tree_find cmp services r" using right nM by (simp add: t)
      ultimately show ?thesis using R unfolding M(1) by metis
    qed
  qed
qed

text \<open>The order of the IPv6 comparison is that of one number.\<close>

definition ipv6_rank :: "uint8 \<Rightarrow> dp_ipv6 \<Rightarrow> uint16 \<Rightarrow> int" where
  "ipv6_rank proto a p = ((uint proto * 2 ^ 64 + uint (ip6_prefix a)) * 2 ^ 64 + uint (ip6_suffix a)) * 2 ^ 16 + uint (bswap16 p)"

lemma digit_less:
  fixes a b c d B :: int
  assumes "0 \<le> b" "b < B" "0 \<le> d" "d < B"
  shows "a * B + b < c * B + d \<longleftrightarrow> a < c \<or> a = c \<and> b < d"
    and "a * B + b = c * B + d \<longleftrightarrow> a = c \<and> b = d"
proof -
  have strict: "x * B + u < y * B + v" if "x < y" "0 \<le> v" "u < B" for x y u v
  proof -
    have "(x + 1) * B \<le> y * B" using that assms by (intro mult_right_mono) auto
    thus ?thesis using that by (simp add: algebra_simps)
  qed
  show "a * B + b < c * B + d \<longleftrightarrow> a < c \<or> a = c \<and> b < d"
    using strict[of a c d b] strict[of c a b d] assms by (cases a c rule: linorder_cases) auto
  show "a * B + b = c * B + d \<longleftrightarrow> a = c \<and> b = d"
    using strict[of a c d b] strict[of c a b d] assms by (cases a c rule: linorder_cases) auto
qed

lemma digit_word:
  fixes b d :: "'a::len word"
  shows "x * 2 ^ LENGTH('a) + uint b < y * 2 ^ LENGTH('a) + uint d \<longleftrightarrow> x < y \<or> x = y \<and> b < d"
    and "x * 2 ^ LENGTH('a) + uint b = y * 2 ^ LENGTH('a) + uint d \<longleftrightarrow> x = y \<and> b = d"
  by (simp_all add: digit_less word_less_def word_uint_eq_iff)

lemma bswap16_twice [simp]: "bswap16 (bswap16 v) = v"
  by (rule bit_word_eqI) (auto simp: bswap16_def bit_word_cat_iff bit_simps)

lemma bswap16_inj [simp]: "bswap16 v = bswap16 w \<longleftrightarrow> v = w"
  by (metis bswap16_twice)

lemma ipv6_rank_less:
  "ipv6_rank p a q < ipv6_rank p' a' q' \<longleftrightarrow> p < p' \<or> p = p' \<and> (ip6_prefix a < ip6_prefix a'
      \<or> ip6_prefix a = ip6_prefix a' \<and> (ip6_suffix a < ip6_suffix a' \<or> ip6_suffix a = ip6_suffix a' \<and> bswap16 q < bswap16 q'))"
proof -
  let ?x = "(uint p * 2 ^ 64 + uint (ip6_prefix a)) * 2 ^ 64 + uint (ip6_suffix a)"
  let ?x' = "(uint p' * 2 ^ 64 + uint (ip6_prefix a')) * 2 ^ 64 + uint (ip6_suffix a')"
  let ?y = "uint p * 2 ^ 64 + uint (ip6_prefix a)" and ?y' = "uint p' * 2 ^ 64 + uint (ip6_prefix a')"
  have "ipv6_rank p a q < ipv6_rank p' a' q' \<longleftrightarrow> ?x < ?x' \<or> ?x = ?x' \<and> bswap16 q < bswap16 q'"
    unfolding ipv6_rank_def using digit_word(1)[of ?x "bswap16 q" ?x' "bswap16 q'"] by simp
  moreover have "?x < ?x' \<longleftrightarrow> ?y < ?y' \<or> ?y = ?y' \<and> ip6_suffix a < ip6_suffix a'"
    "?x = ?x' \<longleftrightarrow> ?y = ?y' \<and> ip6_suffix a = ip6_suffix a'"
    using digit_word[of ?y "ip6_suffix a" ?y' "ip6_suffix a'"] by simp_all
  moreover have "?y < ?y' \<longleftrightarrow> p < p' \<or> p = p' \<and> ip6_prefix a < ip6_prefix a'"
    "?y = ?y' \<longleftrightarrow> p = p' \<and> ip6_prefix a = ip6_prefix a'"
    using digit_word[of "uint p" "ip6_prefix a" "uint p'" "ip6_prefix a'"] by (simp_all add: word_less_def word_uint_eq_iff)
  ultimately show ?thesis by blast
qed

lemma ipv6_cmp_less: "dp_virtsvc_ipv6_cmp p a q p' a' q' < 0 \<longleftrightarrow> ipv6_rank p a q < ipv6_rank p' a' q'"
  unfolding ipv6_rank_less dp_virtsvc_ipv6_cmp_def memcmp_ipv6_def Let_def
  by (cases a; cases a') (auto simp: word_less_def word_uint_eq_iff)

lemma ipv6_cmp_swap: "dp_virtsvc_ipv6_cmp p a q p' a' q' > 0 \<longleftrightarrow> ipv6_rank p' a' q' < ipv6_rank p a q"
  unfolding ipv6_rank_less dp_virtsvc_ipv6_cmp_def memcmp_ipv6_def Let_def
  by (cases a; cases a') (auto simp: word_less_def word_uint_eq_iff)

lemma ipv6_cmp_zero: "dp_virtsvc_ipv6_cmp p a q p' a' q' = 0 \<longleftrightarrow> p = p' \<and> a = a' \<and> q = q'"
  unfolding dp_virtsvc_ipv6_cmp_def memcmp_ipv6_def Let_def
  by (auto simp: word_uint_eq_iff[symmetric])

definition service_rank :: "dp_virtsvc \<Rightarrow> int" where
  "service_rank v = ipv6_rank (vs_proto v) (vs_service_addr v) (vs_service_port v)"

lemma ipv6_comparator_consistent:
  "consistent (\<lambda>i j. dp_virtsvc_ipv6_comparator (services ! i) (services ! j)) A"
proof -
  have le: "dp_virtsvc_ipv6_comparator x y \<le> 0 \<longleftrightarrow> service_rank x \<le> service_rank y" for x y
    unfolding dp_virtsvc_ipv6_comparator_def service_rank_def using ipv6_cmp_swap linorder_not_le by metis
  have "sgn (dp_virtsvc_ipv6_comparator x y) = sgn (service_rank x - service_rank y)" for x y
    unfolding dp_virtsvc_ipv6_comparator_def service_rank_def
    using ipv6_cmp_less[of "vs_proto x" "vs_service_addr x" "vs_service_port x" "vs_proto y" "vs_service_addr y" "vs_service_port y"]
      ipv6_cmp_swap[of "vs_proto x" "vs_service_addr x" "vs_service_port x" "vs_proto y" "vs_service_addr y" "vs_service_port y"]
    by (auto simp: sgn_if)
  thus ?thesis unfolding consistent_def le by (auto simp: sgn_if)
qed

text \<open>Distinct services in the order of the comparison separate around any
  service that is sought.\<close>

lemma ipv6_separates:
  assumes sorted: "sorted_wrt (\<lambda>i j. dp_virtsvc_ipv6_comparator (services ! i) (services ! j) \<le> 0) a"
    and dist: "inj_on (\<lambda>i. service_rank (services ! i)) (set a)" "distinct a"
  shows "separates (\<lambda>i. (\<lambda>v. dp_virtsvc_ipv6_cmp proto addr port (vs_proto v) (vs_service_addr v) (vs_service_port v)) (services ! i)) a"
  unfolding separates_def
proof (intro allI impI)
  fix j k assume jk: "j < k" "k < length a"
    and le: "dp_virtsvc_ipv6_cmp proto addr port (vs_proto (services ! (a ! j))) (vs_service_addr (services ! (a ! j)))
      (vs_service_port (services ! (a ! j))) \<le> 0"
  have "service_rank (services ! (a ! j)) \<le> service_rank (services ! (a ! k))"
    using sorted_wrt_nth_less[OF sorted jk] ipv6_cmp_swap linorder_not_le
    unfolding dp_virtsvc_ipv6_comparator_def service_rank_def by metis
  moreover have "a ! j \<noteq> a ! k" using jk dist(2) by (simp add: nth_eq_iff_index_eq)
  hence "service_rank (services ! (a ! j)) \<noteq> service_rank (services ! (a ! k))"
    using dist(1) jk by (meson inj_onD nth_mem order.strict_trans)
  moreover have "ipv6_rank proto addr port \<le> service_rank (services ! (a ! j))"
    using le ipv6_cmp_swap linorder_not_le unfolding service_rank_def by metis
  ultimately show "dp_virtsvc_ipv6_cmp proto addr port (vs_proto (services ! (a ! k))) (vs_service_addr (services ! (a ! k)))
      (vs_service_port (services ! (a ! k))) < 0"
    unfolding ipv6_cmp_less service_rank_def by simp
qed

lemma create_trees_cases:
  assumes "dp_virtsvc_create_trees mem qsort services = Inr (t4, t6)"
  obtains n1 n2 where
    "dp_virtsvc_array_to_tree (snd mem) (qsort (\<lambda>i j. dp_virtsvc_ipv4_comparator (services ! i) (services ! j)) [0..<length services])
       0 (int (length services) - 1) 0 = Some (t4, n1)"
    "dp_virtsvc_array_to_tree (snd mem) (qsort (\<lambda>i j. dp_virtsvc_ipv6_comparator (services ! i) (services ! j))
       (qsort (\<lambda>i j. dp_virtsvc_ipv4_comparator (services ! i) (services ! j)) [0..<length services]))
       0 (int (length services) - 1) n1 = Some (t6, n2)"
  using assms by (auto simp: dp_virtsvc_create_trees_def Let_def split: if_splits option.splits)

lemma create_trees_set:
  assumes "sorts qsort" "dp_virtsvc_create_trees mem qsort services = Inr (t4, t6)"
  shows "tree_set t4 \<subseteq> {..<length services}" "tree_set t6 \<subseteq> {..<length services}"
  using create_trees_cases[OF assms(2)] array_tree_set sorts_set[OF assms(1)] assms(1)
  by (metis (no_types, lifting) atLeastLessThan_upt diff_less_eq length_upt lessThan_atLeast0 less_add_one order_refl diff_zero set_upt)+

section \<open>Every step keeps the tables\<close>

lemma started_inv:
  assumes "virtsvc_started vt" shows "virtsvc_inv vt"
proof -
  obtain conf malloc tables mem qsort rules where q: "sorts qsort"
    and init: "dp_virtsvc_init conf malloc tables mem qsort rules = Inr vt"
    using assms by (auto simp: virtsvc_started_def)
  show ?thesis
  proof (cases "rules = []")
    case True
    with init show ?thesis by (auto simp: dp_virtsvc_init_def virtsvc_inv_def)
  next
    case False
    let ?s = "map (\<lambda>(i, rule). new_virtsvc conf i rule) (enumerate 0 rules)"
    from False init obtain t4 t6 where t: "dp_virtsvc_create_trees mem qsort ?s = Inr (t4, t6)"
      and vt: "vt = \<lparr> vt_services = ?s, vt_ipv4_tree = t4, vt_ipv6_tree = t6 \<rparr>"
      by (auto simp: dp_virtsvc_init_def Let_def split: if_splits sum.splits)
    have "conns_ok None (new_virtsvc conf i r)" for i r
      by (simp add: conns_ok_def new_virtsvc_def DP_VIRTSVC_PORTCOUNT_def DP_NB_SYSTEM_PORTS_def)
    with create_trees_set[OF q t] show ?thesis by (auto simp: virtsvc_inv_def vt)
  qed
qed

lemma sync_connection_inv:
  assumes ht: "hash_table (ve_ports env)" and inv: "virtsvc_inv vt" and tsc: "tsc \<noteq> 0"
    and open': "dp_virtsvc_open_sync_connection env tsc a p proto ip l4 pid conn_port vt = Some (r, vt')"
  shows "virtsvc_inv vt'"
proof -
  let ?k = "\<lparr> vck_port_id = pid, vck_l4_port = l4, vck_ip = ip \<rparr>"
  from open' obtain i where i: "get_virtsvc_by_ipv4 (vt_services vt) (vt_ipv4_tree vt) a p proto = Some i"
    by (auto simp: dp_virtsvc_open_sync_connection_def Let_def split: option.splits)
  have "i < length (vt_services vt)"
    using inv tree_find_set[OF i[unfolded get_virtsvc_by_ipv4_def]] by (auto simp: virtsvc_inv_def)
  hence ok: "conns_ok None (vt_services vt ! i)" using inv by (simp add: virtsvc_inv_def)
  define v where "v = vt_services vt ! i"
  define drop where "drop c = (let v = put_conn c ((vs_connections v c)\<lparr> vc_last_pkt_timestamp := 0 \<rparr>) v in
      (case rte_hash_del_key (ve_ports env) (vs_open_ports v) ?k of Inl _ \<Rightarrow> v | Inr t \<Rightarrow> v\<lparr> vs_open_ports := t \<rparr>))" for c
  have drop_ok: "conns_ok None (drop c)" if "vs_open_ports v ?k = Some c" for c
    using ok that unfolding v_def[symmetric] by (auto simp: drop_def Let_def hash_table.del_key[OF ht] conns_ok_def)
  from open' obtain g v1 v2 where get: "dp_virstvc_get_connection env ?k v = Some g"
    and v1: "v1 = (case g of Inl _ \<Rightarrow> v | Inr c \<Rightarrow> drop c)"
    and use: "dp_virtsvc_use_port env ?k (unat conn_port) v1 = Some (r, v2)"
    and vt': "vt' = put_service i (case r of Inl _ \<Rightarrow> v2 | Inr _ \<Rightarrow>
        (touch_conn (unat conn_port) tsc id v2)\<lparr> vs_last_assigned_port := conn_port \<rparr>) vt"
    unfolding dp_virtsvc_open_sync_connection_def Let_def i option.case v_def[symmetric] drop_def put_service_def touch_conn_def
    by (auto split: bind_splits sum.splits)
  have "conns_ok None v1"
    using get ok drop_ok unfolding v1 v_def[symmetric]
    by (auto simp: dp_virstvc_get_connection_def hash_table.lookup_data[OF ht] split: sum.splits option.splits if_splits)
  note u = use_port_ok[OF ht this use]
  have "conns_ok None (case r of Inl _ \<Rightarrow> v2 | Inr _ \<Rightarrow>
      (touch_conn (unat conn_port) tsc id v2)\<lparr> vs_last_assigned_port := conn_port \<rparr>)"
    using u conns_ok_touch[of "Some (unat conn_port)" v2 "unat conn_port" tsc id 0] tsc
    by (auto simp: conns_ok_def split: sum.splits)
  with virtsvc_inv_put[OF inv] show ?thesis by (simp add: vt')
qed

interpretation vss: transition_system virtsvc_started virtsvc_step virtsvc_inv
proof
  show "virtsvc_inv vt'" if "virtsvc_step vt vt'" "virtsvc_inv vt" for vt vt'
    using that
  proof cases
    case (request env tsc i m out e m' v out')
    have "conns_ok None (vt_services vt ! i)" using that(2) request(4) by (simp add: virtsvc_inv_def)
    from request_next_ok[OF request(2) this request(3,5)] virtsvc_inv_put[OF that(2)] request(1) show ?thesis by simp
  next
    case (reply tsc i env m n e m' v n')
    have "conns_ok None (vt_services vt ! i)" using that(2) reply(3) by (simp add: virtsvc_inv_def)
    from reply_next_ok[OF this reply(2,4)] virtsvc_inv_put[OF that(2)] reply(1) show ?thesis by simp
  next
    case (del_iface env pid)
    with that(2) show ?thesis
      by (auto simp: virtsvc_inv_def dp_virtsvc_del_iface_def intro!: del_ifaces_ok)
  next
    case (sync env tsc a p proto ip l4 pid conn_port r)
    with that(2) show ?thesis by (auto intro: sync_connection_inv)
  qed
qed (rule started_inv)

section \<open>Headers of requests and replies\<close>

lemma put_mac_length [simp]: "length (be_mac a) = 6"
  by (simp add: be_mac_def)

lemma fill_ether_simps [simp]:
  "mb_off (dp_fill_ether_hdr p port t m) = mb_off m" "length (mb_buf (dp_fill_ether_hdr p port t m)) = length (mb_buf m)"
  "mb_port (dp_fill_ether_hdr p port t m) = mb_port m" "mb_df (dp_fill_ether_hdr p port t m) = mb_df m"
  by (simp_all add: dp_fill_ether_hdr_def)

lemma get_fill_ether:
  "p + 14 \<le> q \<Longrightarrow> get8 (mb_buf (dp_fill_ether_hdr p port t m)) q = get8 (mb_buf m) q"
  "p + 14 \<le> q \<Longrightarrow> get16 (mb_buf (dp_fill_ether_hdr p port t m)) q = get16 (mb_buf m) q"
  "p + 14 \<le> q \<Longrightarrow> get32 (mb_buf (dp_fill_ether_hdr p port t m)) q = get32 (mb_buf m) q"
  "p + 14 \<le> q \<Longrightarrow> get_ipv6 (mb_buf (dp_fill_ether_hdr p port t m)) q = get_ipv6 (mb_buf m) q"
  by (simp_all add: dp_fill_ether_hdr_def get_other)

lemma add_flag_simps [simp]:
  "mb_buf (add_flag f m) = mb_buf m" "mb_off (add_flag f m) = mb_off m" "mb_len (add_flag f m) = mb_len m"
  "mb_port (add_flag f m) = mb_port m" "mb_df (add_flag f m) = mb_df m"
  by (simp_all add: add_flag_def)

lemma zero_tx_simps [simp]:
  "mb_buf (zero_tx_offload m) = mb_buf m" "mb_off (zero_tx_offload m) = mb_off m" "mb_len (zero_tx_offload m) = mb_len m"
  "mb_port (zero_tx_offload m) = mb_port m" "mb_df (zero_tx_offload m) = mb_df m"
  by (simp_all add: zero_tx_offload_def)

lemma l4_offload_simps [simp]:
  "mb_off (virtsvc_l4_offload proto p m) = mb_off m" "length (mb_buf (virtsvc_l4_offload proto p m)) = length (mb_buf m)"
  "mb_port (virtsvc_l4_offload proto p m) = mb_port m"
  by (simp_all add: virtsvc_l4_offload_def Let_def)

lemma get_l4_offload:
  "q \<le> p + 4 \<Longrightarrow> get16 (mb_buf (virtsvc_l4_offload proto p m)) q = get16 (mb_buf m) q"
  "q \<le> p + 2 \<Longrightarrow> get32 (mb_buf (virtsvc_l4_offload proto p m)) q = get32 (mb_buf m) q"
  "q + 10 \<le> p \<Longrightarrow> get_ipv6 (mb_buf (virtsvc_l4_offload proto p m)) q = get_ipv6 (mb_buf m) q"
  by (simp_all add: virtsvc_l4_offload_def Let_def get_other)

lemma request_hdr:
  assumes "virtsvc_request_hdr v m = Some m1" "34 \<le> mb_len m" "mb_off m + mb_len m \<le> length (mb_buf m)"
  shows "mb_off m1 = mb_off m - 20 \<and> 20 \<le> mb_off m \<and> length (mb_buf m1) = length (mb_buf m) \<and> mb_port m1 = mb_port m
    \<and> get16 (mb_buf m1) (mb_off m + 34) = get16 (mb_buf m) (mb_off m + 34)
    \<and> get_ipv6 (mb_buf m1) (mb_off m1 + 22) = vs_ul_addr v \<and> get_ipv6 (mb_buf m1) (mb_off m1 + 38) = vs_service_addr v"
proof -
  have "20 \<le> mb_off m"
    using assms(1,2) by (auto simp: virtsvc_request_hdr_def Let_def pktmbuf_adj_def rte_pktmbuf_adj_def
        rte_pktmbuf_prepend_def split: if_splits)
  then obtain p where p: "mb_off m = p + 20" by (metis le_Suc_ex add.commute)
  show ?thesis using assms unfolding p
    by (auto simp: p virtsvc_request_hdr_def Let_def pktmbuf_adj_def rte_pktmbuf_adj_def rte_pktmbuf_prepend_def
        get_other ac_simps split: if_splits)
qed

lemma reply_hdr:
  assumes "54 \<le> mb_len m"
  shows "\<exists>m1. virtsvc_reply_hdr n v m = Some m1 \<and> mb_off m1 = mb_off m + 20 \<and> length (mb_buf m1) = length (mb_buf m)
    \<and> get16 (mb_buf m1) (mb_off m + 56) = get16 (mb_buf m) (mb_off m + 56)"
  using assms
  by (auto simp: virtsvc_reply_hdr_def Let_def pktmbuf_adj_def rte_pktmbuf_adj_def rte_pktmbuf_prepend_def get_other)

lemma conn_on_port:
  assumes "i < DP_VIRTSVC_PORTCOUNT"
  shows "virtsvc_get_conn_on_port (virtsvc_get_port_for_conn i) = Some i"
    and "unat (virtsvc_get_port_for_conn i) = i + DP_NB_SYSTEM_PORTS"
proof -
  show u: "unat (virtsvc_get_port_for_conn i) = i + DP_NB_SYSTEM_PORTS"
    using assms by (simp add: virtsvc_get_port_for_conn_def unat_of_nat take_bit_nat_eq_self_iff
        DP_VIRTSVC_PORTCOUNT_def DP_NB_SYSTEM_PORTS_def del: of_nat_add)
  have "virtsvc_get_port_for_conn i - of_nat DP_NB_SYSTEM_PORTS = (of_nat i :: uint16)"
    by (simp add: virtsvc_get_port_for_conn_def)
  moreover have "unat (of_nat i :: uint16) = i"
    using assms by (simp add: unat_of_nat take_bit_nat_eq_self_iff DP_VIRTSVC_PORTCOUNT_def DP_NB_SYSTEM_PORTS_def)
  ultimately show "virtsvc_get_conn_on_port (virtsvc_get_port_for_conn i) = Some i"
    using assms by (simp add: virtsvc_get_conn_on_port_def)
qed

text \<open>A request that is sent out: the source port it carries and the connection
  behind that port.\<close>

lemma request_sent:
  assumes ht: "hash_table (ve_ports (vn_env env))" and ok: "conns_ok None v" and tsc: "tsc \<noteq> 0"
    and m: "42 \<le> mb_len m" "mb_off m + mb_len m \<le> length (mb_buf m)"
    and req: "virtsvc_request_next env tsc m (v, out) = Some (To_tx pf, m', v', out')"
  obtains i where "i < DP_VIRTSVC_PORTCOUNT" "20 \<le> mb_off m" "mb_off m' = mb_off m - 20"
    "get16 (mb_buf m') (mb_off m' + 54) = virtsvc_get_port_for_conn i"
    "conn_key (vs_connections v' i) = \<lparr> vck_port_id = mb_port m, vck_l4_port = get16 (mb_buf m) (mb_off m + 34),
       vck_ip = get32 (mb_buf m) (mb_off m + 26) \<rparr>"
    "vc_last_pkt_timestamp (vs_connections v' i) \<noteq> 0"
    "get_ipv6 (mb_buf m') (mb_off m' + 22) = vs_ul_addr v" "get_ipv6 (mb_buf m') (mb_off m' + 38) = vs_service_addr v"
proof -
  from req obtain m1 where m1: "virtsvc_request_hdr v m = Some m1"
    by (auto simp: virtsvc_request_next_def Let_def split: option.splits)
  have "34 \<le> mb_len m" using m by simp
  note h = request_hdr[OF m1 this m(2)]
  let ?ip = "get32 (mb_buf m) (mb_off m + 26)" and ?l4 = "get16 (mb_buf m) (mb_off m + 34)"
  have at: "mb_off m1 + 54 = mb_off m + 34" "mb_port m1 = mb_port m" "20 \<le> mb_off m" "length (mb_buf m1) = length (mb_buf m)"
    "get16 (mb_buf m1) (mb_off m1 + 54) = ?l4" using h m by (auto simp: ac_simps)
  have o: "mb_off m = mb_off m1 + 20" using at(1) by simp
  let ?R = "dp_virtsvc_get_pf_route (vn_env env) (vn_select env) tsc (mb_port m1) (get32 (mb_buf m) (mb_off m + 14 + 12))
         (get16 (mb_buf m1) (mb_off m1 + 14 + 40)) (v, out)"
  from req obtain pf' i v1 where R: "?R = Some (Inr (pf', i), v1, out')"
    by (cases rule: request_next_cases) (use m1 in auto)
  have route: "dp_virtsvc_get_pf_route (vn_env env) (vn_select env) tsc (mb_port m) ?ip ?l4 (v, out) = Some (Inr (pf', i), v1, out')"
    using R at h by (simp add: ac_simps)
  define change where "change = (if get8 (mb_buf m) (mb_off m + 14 + 9) = IPPROTO_TCP
      then virtsvc_tcp_state_change (get8 (mb_buf m1) (mb_off m1 + 14 + 40 + 13)) else id)"
  have ch: "change = id \<or> change = virtsvc_tcp_state_change (get8 (mb_buf m1) (mb_off m1 + 14 + 40 + 13))"
    by (simp add: change_def)
  have v': "v' = touch_conn i tsc change v1"
    and m': "\<exists>port x. m' = dp_fill_ether_hdr (mb_off m1) port RTE_ETHER_TYPE_IPV6
        (virtsvc_l4_offload (get8 (mb_buf m) (mb_off m + 14 + 9)) (mb_off m1 + 14 + 40)
          (put (mb_off m1 + 14 + 40 + 2) (be16 x) (put (mb_off m1 + 14 + 40) (be16 (virtsvc_get_port_for_conn i)) m1)))"
    using req unfolding virtsvc_request_next_def Let_def fst_conv m1 option.case R Option.bind.bind_lunit prod.case sum.case
      change_def[symmetric]
    by (auto split: option.splits bind_splits)
  from pf_route_ok[OF ht ok route] have i: "i < DP_VIRTSVC_PORTCOUNT"
    and key: "conn_key (vs_connections v1 i) = \<lparr> vck_port_id = mb_port m, vck_l4_port = ?l4, vck_ip = ?ip \<rparr>" by auto
  have bytes: "get16 (mb_buf m') (mb_off m' + 54) = virtsvc_get_port_for_conn i" "mb_off m' = mb_off m1"
    "get_ipv6 (mb_buf m') (mb_off m' + 22) = get_ipv6 (mb_buf m1) (mb_off m1 + 22)"
    "get_ipv6 (mb_buf m') (mb_off m' + 38) = get_ipv6 (mb_buf m1) (mb_off m1 + 38)"
    using m' m at(4) unfolding o by (auto simp: get_fill_ether get_l4_offload get_other ac_simps)
  have "conn_key (vs_connections v' i) = conn_key (vs_connections v1 i)" "vc_last_pkt_timestamp (vs_connections v' i) = tsc"
    using touch_conn_simps[OF ch] by (simp_all add: v')
  with bytes key i at h m tsc show ?thesis by (intro that[of i]) auto
qed

text \<open>A reply to the port of an open connection.\<close>

lemma reply_sent:
  assumes i: "i < DP_VIRTSVC_PORTCOUNT" "vc_last_pkt_timestamp (vs_connections v i) \<noteq> 0"
    and r: "62 \<le> mb_len r" "mb_off r + mb_len r \<le> length (mb_buf r)" "get16 (mb_buf r) (mb_off r + 56) = virtsvc_get_port_for_conn i"
    and port: "dp_get_port_by_id (vn_ports env) (vc_port_id (vs_connections v i)) = Some vf"
    and tx: "next_tx (vn_tx env) (vc_port_id (vs_connections v i)) = Some e"
  shows "\<exists>r' v' n'. virtsvc_reply_next env tsc r v n = Some (e, r', v', n')
    \<and> get32 (mb_buf r') (mb_off r' + 30) = vc_ip (vs_connections v i)
    \<and> get16 (mb_buf r') (mb_off r' + 36) = vc_l4_port (vs_connections v i)"
proof -
  from reply_hdr[of r n v] r obtain m1 where m1: "virtsvc_reply_hdr n v r = Some m1" "mb_off m1 = mb_off r + 20"
    "length (mb_buf m1) = length (mb_buf r)" "get16 (mb_buf m1) (mb_off m1 + 14 + 20 + 2) = virtsvc_get_port_for_conn i"
    by (auto simp: ac_simps)
  have c: "virtsvc_get_conn_on_port (get16 (mb_buf m1) (mb_off m1 + 14 + 20 + 2)) = Some i"
    using m1(4) conn_on_port[OF i(1)] by simp
  let ?l4 = "mb_off m1 + 14 + 20"
  let ?m2 = "put (mb_off m1 + 14 + 16) (be32 (vc_ip (vs_connections v i)))
      (virtsvc_l4_offload (get8 (mb_buf r) (mb_off r + 14 + 6)) ?l4
        (put ?l4 (be16 (vs_virtual_port v)) (put (?l4 + 2) (be16 (vc_l4_port (vs_connections v i))) m1)))"
  let ?r' = "dp_fill_ether_hdr (mb_off m1) vf RTE_ETHER_TYPE_IPV4 ?m2"
  have "\<exists>v' n'. virtsvc_reply_next env tsc r v n = Some (e, ?r', v', n')"
    unfolding virtsvc_reply_next_def Let_def m1(1) option.case c Option.bind.bind_lunit port tx
    using i(2) by (simp add: touch_conn_def)
  moreover have "get32 (mb_buf ?r') (mb_off ?r' + 30) = vc_ip (vs_connections v i)"
    "get16 (mb_buf ?r') (mb_off ?r' + 36) = vc_l4_port (vs_connections v i)"
    using m1(2,3) r(1,2) by (simp_all add: get_fill_ether get_l4_offload get_other ac_simps)
  ultimately show ?thesis by blast
qed

section \<open>A reference library and examples\<close>

primrec insert_by :: "('a \<Rightarrow> 'a \<Rightarrow> int) \<Rightarrow> 'a \<Rightarrow> 'a list \<Rightarrow> 'a list" where
  "insert_by cmp x [] = [x]"
| "insert_by cmp x (y # ys) = (if cmp x y \<le> 0 then x # y # ys else y # insert_by cmp x ys)"

definition ref_qsort :: "(nat \<Rightarrow> nat \<Rightarrow> int) \<Rightarrow> nat list \<Rightarrow> nat list" where
  "ref_qsort cmp xs = foldr (insert_by cmp) xs []"

lemma insert_by_mset [simp]: "mset (insert_by cmp x ys) = add_mset x (mset ys)"
  by (induction ys) auto

lemma consistent_trans:
  assumes "consistent cmp A" "x \<in> A" "y \<in> A" "z \<in> A" "cmp x y \<le> 0" "cmp y z \<le> 0"
  shows "cmp x z \<le> 0"
  using assms(1)[unfolded consistent_def, THEN conjunct2, rule_format, OF assms(2-6)] .

lemma consistent_sgn:
  assumes "consistent cmp A" "x \<in> A" "y \<in> A"
  shows "sgn (cmp x y) = - sgn (cmp y x)"
  using assms(1)[unfolded consistent_def, THEN conjunct1, rule_format, OF assms(2,3)] .

lemma consistent_subset:
  assumes "consistent cmp A" "B \<subseteq> A"
  shows "consistent cmp B"
  unfolding consistent_def
  using consistent_sgn[OF assms(1) subsetD[OF assms(2)] subsetD[OF assms(2)]]
    consistent_trans[OF assms(1) subsetD[OF assms(2)] subsetD[OF assms(2)] subsetD[OF assms(2)]]
  by (intro conjI ballI impI) assumption+

lemma insert_by_sorted:
  assumes "consistent cmp (insert x (set ys))" "sorted_wrt (\<lambda>x y. cmp x y \<le> 0) ys"
  shows "sorted_wrt (\<lambda>x y. cmp x y \<le> 0) (insert_by cmp x ys)"
  using assms
proof (induction ys)
  case (Cons y ys)
  have set: "set (insert_by cmp x ys) = insert x (set ys)"
    using mset_eq_setD[of "insert_by cmp x ys" "x # ys"] by simp
  show ?case
  proof (cases "cmp x y \<le> 0")
    case True
    have "cmp x z \<le> 0" if "z \<in> set ys" for z
    proof -
      from Cons.prems(2) that have "cmp y z \<le> 0" by simp
      with True that show ?thesis by (intro consistent_trans[OF Cons.prems(1), of x y z]) auto
    qed
    with True Cons.prems show ?thesis by simp
  next
    case False
    have "sgn (cmp y x) = - sgn (cmp x y)" by (rule consistent_sgn[OF Cons.prems(1)]) simp_all
    with False have yx: "cmp y x \<le> 0" by (simp add: sgn_if split: if_splits)
    have "consistent cmp (insert x (set ys))" using Cons.prems(1) by (rule consistent_subset) auto
    with Cons.IH Cons.prems(2) have "sorted_wrt (\<lambda>x y. cmp x y \<le> 0) (insert_by cmp x ys)" by simp
    with False Cons.prems(2) set yx show ?thesis by simp
  qed
qed simp

lemma ref_qsort_sorts: "sorts ref_qsort"
proof -
  have "mset (foldr (insert_by cmp) xs []) = mset xs" for cmp :: "nat \<Rightarrow> nat \<Rightarrow> int" and xs by (induction xs) auto
  moreover have "sorted_wrt (\<lambda>x y. cmp x y \<le> 0) (foldr (insert_by cmp) xs [])" if "consistent cmp (set xs)"
    for cmp :: "nat \<Rightarrow> nat \<Rightarrow> int" and xs
    using that
  proof (induction xs)
    case (Cons x xs)
    have "set (foldr (insert_by cmp) xs []) = set xs" using calculation by (metis mset_eq_setD)
    moreover have "consistent cmp (set xs)" using Cons.prems by (rule consistent_subset) auto
    ultimately show ?case using Cons by (simp add: insert_by_sorted)
  qed simp
  ultimately show ?thesis by (simp add: sorts_def ref_qsort_def)
qed

definition ex_virtsvc_env :: virtsvc_env where
  "ex_virtsvc_env = \<lparr> ve_ports = ref_hash 64512, ve_hash = (\<lambda>k. 0), ve_hz = 1, ve_sync_enabled = False,
     ve_link = \<lparr> sync_alloc = True, sync_tx = True \<rparr> \<rparr>"

definition ex_ul_conf :: ul_conf where
  "ex_ul_conf = \<lparr> underlay_ip = \<lparr> ip6_prefix = 0xfc00, ip6_suffix = 1 \<rparr>, enable_underlay_type = True,
     enable_static_underlay_ip = True \<rparr>"

text \<open>One UDP service.\<close>

definition ex_svc_rule :: dp_conf_virtsvc where
  "ex_svc_rule = \<lparr> cv_proto = IPPROTO_UDP, cv_virtual_addr = 0x0a000001, cv_virtual_port = 53, cv_service_port = 5353,
     cv_service_addr = \<lparr> ip6_prefix = 0xfd00, ip6_suffix = 7 \<rparr> \<rparr>"

definition ex_service :: dp_virtsvc where
  "ex_service = new_virtsvc ex_ul_conf 0 ex_svc_rule"

definition ex_services :: virtsvc_state where
  "ex_services = \<lparr> vt_services = [ex_service], vt_ipv4_tree = Entry 0 Leaf Leaf, vt_ipv6_tree = Entry 0 Leaf Leaf \<rparr>"

lemma ex_trees: "dp_virtsvc_create_trees (True, \<lambda>_. True) ref_qsort [v] = Inr (Entry 0 Leaf Leaf, Entry 0 Leaf Leaf)"
  by (simp add: dp_virtsvc_create_trees_def Let_def ref_qsort_def dp_virtsvc_array_to_tree.simps)

lemma ex_services_started: "virtsvc_started ex_services"
  unfolding virtsvc_started_def
  by (intro exI[of _ ex_ul_conf] exI[of _ True] exI[of _ "\<lambda>_. True"] exI[of _ "(True, \<lambda>_. True)"] exI[of _ ref_qsort]
      exI[of _ "[ex_svc_rule]"])
    (simp add: ref_qsort_sorts dp_virtsvc_init_def ex_services_def ex_service_def ex_trees Let_def)

text \<open>The connection of the machine at port 2, address 10.0.0.9, source port 4000,
  reported by the active instance at index 5.\<close>

definition ex_conn_key :: dp_virtsvc_conn_key where
  "ex_conn_key = \<lparr> vck_port_id = 2, vck_l4_port = 4000, vck_ip = 0x0a000009 \<rparr>"

definition ex_conn :: dp_virtsvc_conn where
  "ex_conn = \<lparr> vc_last_pkt_timestamp = 100, vc_ip = 0x0a000009, vc_l4_port = 4000, vc_port_id = 2,
     vc_state = DP_VIRTSVC_CONN_TRANSIENT \<rparr>"

definition ex_used :: dp_virtsvc where
  "ex_used = ex_service\<lparr> vs_open_ports := [ex_conn_key \<mapsto> 5],
     vs_connections := (\<lambda>_. conn_zero)(5 := ex_conn), vs_last_assigned_port := 5 \<rparr>"

lemma ex_synced:
  "dp_virtsvc_open_sync_connection ex_virtsvc_env 100 0x0a000001 53 IPPROTO_UDP 0x0a000009 4000 2 5 ex_services =
     Some (DP_OK, put_service 0 ex_used ex_services)"
proof -
  have key: "\<lparr> vck_port_id = 2, vck_l4_port = 4000, vck_ip = 0x0a000009 \<rparr> = ex_conn_key" by (simp add: ex_conn_key_def)
  have found: "get_virtsvc_by_ipv4 (vt_services ex_services) (vt_ipv4_tree ex_services) 0x0a000001 53 IPPROTO_UDP = Some 0"
    by (simp add: get_virtsvc_by_ipv4_def ex_services_def ex_service_def new_virtsvc_def ex_svc_rule_def dp_virtsvc_ipv4_cmp_def)
  have s: "vt_services ex_services ! 0 = ex_service" "vs_open_ports ex_service = Map.empty" "vs_connections ex_service = (\<lambda>_. conn_zero)"
    by (simp_all add: ex_services_def ex_service_def new_virtsvc_def)
  have get: "dp_virstvc_get_connection ex_virtsvc_env ex_conn_key ex_service = Some (Inl (ERRNO ENOENT))"
    by (simp add: dp_virstvc_get_connection_def ex_virtsvc_env_def s ref_hash_def)
  have use: "dp_virtsvc_use_port ex_virtsvc_env ex_conn_key 5 ex_service =
      Some (DP_OK, put_conn 5 (ex_conn\<lparr> vc_last_pkt_timestamp := 0 \<rparr>) (ex_service\<lparr> vs_open_ports := [ex_conn_key \<mapsto> 5] \<rparr>))"
    by (simp add: dp_virtsvc_use_port_def Let_def s conn_zero_def ex_virtsvc_env_def ref_hash_def ex_conn_def ex_conn_key_def
        DP_VIRTSVC_PORTCOUNT_def DP_NB_SYSTEM_PORTS_def)
  show ?thesis
    unfolding dp_virtsvc_open_sync_connection_def Let_def key found option.case s(1) get Option.bind.bind_lunit sum.case
    by (simp add: use put_service_def ex_used_def put_conn_def s ex_conn_def)
qed

text \<open>A request of that machine for the service, 28 bytes long, and a reply to the
  port 1029 that the connection was given.\<close>

definition ex_vm_request :: rte_mbuf where
  "ex_vm_request = (ex_mbuf IPPROTO_UDP 32
     (replicate 12 0 @ [8, 0] @ [0x45, 0, 0, 28, 0, 0, 0, 0, 64, 17, 0, 0, 10, 0, 0, 9, 10, 0, 0, 1]
       @ [0x0f, 0xa0, 0, 53, 0, 8, 0, 0]))\<lparr> mb_port := 2 \<rparr>"

definition ex_vm_reply :: rte_mbuf where
  "ex_vm_reply = ex_mbuf IPPROTO_UDP 0 (replicate 54 0 @ [0x14, 0xe9, 0x04, 0x05, 0, 8, 0, 0])"

definition ex_svc_node :: virtsvc_node_env where
  "ex_svc_node = \<lparr> vn_env = ex_virtsvc_env, vn_select = (\<lambda>_. dp_port_zero\<lparr> is_pf := True, port_id := 0 \<rparr>),
     vn_ports = [Some (dp_port_zero\<lparr> is_pf := True, port_id := 0 \<rparr>), None, Some (dp_port_zero\<lparr> is_pf := False, port_id := 2 \<rparr>)],
     vn_tx = \<lparr> tn_edges = [To_drop, To_tx 0, To_tx 2], tn_index = [1, 0, 2] \<rparr> \<rparr>"

lemma ex_vm_request_bytes:
  "mb_off ex_vm_request = 32" "mb_len ex_vm_request = 42" "length (mb_buf ex_vm_request) = 74" "mb_port ex_vm_request = 2"
  "get16 (mb_buf ex_vm_request) 48 = 28" "get32 (mb_buf ex_vm_request) 58 = 0x0a000009" "get16 (mb_buf ex_vm_request) 66 = 4000"
  by (simp_all add: ex_vm_request_def ex_mbuf_def) code_simp+

lemma ex_vm_reply_bytes:
  "mb_off ex_vm_reply = 0" "mb_len ex_vm_reply = 62" "length (mb_buf ex_vm_reply) = 62" "get16 (mb_buf ex_vm_reply) 56 = 1029"
  by (simp_all add: ex_vm_reply_def ex_mbuf_def) code_simp

lemma ex_used_ok: "conns_ok None ex_used"
  by (simp add: conns_ok_def ex_used_def ex_conn_def ex_conn_key_def conn_key_def conn_zero_def
      DP_VIRTSVC_PORTCOUNT_def DP_NB_SYSTEM_PORTS_def)

lemma ex_request_sent:
  "\<exists>m' v'. virtsvc_request_next ex_svc_node 200 ex_vm_request (ex_used, []) = Some (To_tx 0, m', v', [])
     \<and> get16 (mb_buf m') (mb_off m' + 54) = 1029"
proof -
  have "virtsvc_request_hdr ex_used ex_vm_request \<noteq> None"
    by (simp add: virtsvc_request_hdr_def Let_def ex_vm_request_bytes pktmbuf_adj_def rte_pktmbuf_adj_def rte_pktmbuf_prepend_def)
  then obtain m1 where m1: "virtsvc_request_hdr ex_used ex_vm_request = Some m1" by blast
  have "34 \<le> mb_len ex_vm_request" "mb_off ex_vm_request + mb_len ex_vm_request \<le> length (mb_buf ex_vm_request)"
    by (simp_all add: ex_vm_request_bytes)
  from request_hdr[OF m1 this] have h: "mb_off m1 = 12" "length (mb_buf m1) = 74" "mb_port m1 = 2" "get16 (mb_buf m1) 66 = 4000"
    by (simp_all add: ex_vm_request_bytes)
  have ip: "get32 (mb_buf ex_vm_request) (mb_off ex_vm_request + 14 + 12) = 0x0a000009"
    by (simp add: ex_vm_request_bytes)
  have key: "\<lparr> vck_port_id = 2, vck_l4_port = 4000, vck_ip = 0x0a000009 \<rparr> = ex_conn_key" by (simp add: ex_conn_key_def)
  have get: "dp_virstvc_get_connection ex_virtsvc_env ex_conn_key ex_used = Some (Inr 5)"
    by (simp add: dp_virstvc_get_connection_def ex_virtsvc_env_def ref_hash_def ex_used_def DP_VIRTSVC_PORTCOUNT_def DP_NB_SYSTEM_PORTS_def)
  have R: "dp_virtsvc_get_pf_route (vn_env ex_svc_node) (vn_select ex_svc_node) 200 (mb_port m1) 0x0a000009
         (get16 (mb_buf m1) (mb_off m1 + 14 + 40)) (ex_used, []) = Some (Inr (0, 5), ex_used, [])"
    by (simp add: h ex_svc_node_def dp_virtsvc_get_pf_route_def Let_def key get)
  have e: "next_tx (vn_tx ex_svc_node) 0 = Some (To_tx 0)" "dp_get_port_by_id (vn_ports ex_svc_node) 0 = Some (dp_port_zero\<lparr> is_pf := True, port_id := 0 \<rparr>)"
    by (simp_all add: ex_svc_node_def next_tx_def dp_get_port_by_id_def)
  have p: "virtsvc_get_port_for_conn 5 = 1029" by (simp add: virtsvc_get_port_for_conn_def DP_NB_SYSTEM_PORTS_def)
  show ?thesis
    unfolding virtsvc_request_next_def Let_def fst_conv m1 option.case ip R Option.bind.bind_lunit prod.case sum.case e
    using h by (auto simp: get_fill_ether get_l4_offload get_other p)
qed

section \<open>Properties\<close>



text \<open>C17: what a virtual machine sends to a service comes back to it.  A request that leaves
  carries the addresses of the service; a reply to the port it was sent from is delivered to
  the machine's own port, with the address and the transport port the request came from.\<close>

theorem virtsvc_reply_delivered:
  assumes "hash_table (ve_ports (vn_env env))" "conns_ok None v" "tsc \<noteq> 0"
    and m: "42 \<le> mb_len m" "mb_off m + mb_len m \<le> length (mb_buf m)"
    and req: "virtsvc_request_next env tsc m (v, out) = Some (To_tx pf, m', v', out')"
    and r: "62 \<le> mb_len r" "mb_off r + mb_len r \<le> length (mb_buf r)"
      "get16 (mb_buf r) (mb_off r + 56) = get16 (mb_buf m') (mb_off m' + 54)"
    and vf: "dp_get_port_by_id (vn_ports env) (mb_port m) = Some vf" "next_tx (vn_tx env) (mb_port m) = Some e"
  shows "get_ipv6 (mb_buf m') (mb_off m' + 22) = vs_ul_addr v \<and> get_ipv6 (mb_buf m') (mb_off m' + 38) = vs_service_addr v
    \<and> (\<exists>r' v'' n'. virtsvc_reply_next env tsc' r v' n = Some (e, r', v'', n')
        \<and> get32 (mb_buf r') (mb_off r' + 30) = get32 (mb_buf m) (mb_off m + 26)
        \<and> get16 (mb_buf r') (mb_off r' + 36) = get16 (mb_buf m) (mb_off m + 34))"
proof -
  from request_sent[OF assms(1,2,3) m req] obtain i where i: "i < DP_VIRTSVC_PORTCOUNT"
    "get16 (mb_buf m') (mb_off m' + 54) = virtsvc_get_port_for_conn i"
    "conn_key (vs_connections v' i) = \<lparr> vck_port_id = mb_port m, vck_l4_port = get16 (mb_buf m) (mb_off m + 34),
       vck_ip = get32 (mb_buf m) (mb_off m + 26) \<rparr>"
    "vc_last_pkt_timestamp (vs_connections v' i) \<noteq> 0"
    "get_ipv6 (mb_buf m') (mb_off m' + 22) = vs_ul_addr v" "get_ipv6 (mb_buf m') (mb_off m' + 38) = vs_service_addr v"
    by blast
  have c: "vc_port_id (vs_connections v' i) = mb_port m" "vc_ip (vs_connections v' i) = get32 (mb_buf m) (mb_off m + 26)"
    "vc_l4_port (vs_connections v' i) = get16 (mb_buf m) (mb_off m + 34)"
    using i(3) by (auto simp: conn_key_def)
  from reply_sent[OF i(1,4) r(1,2), of env vf e] r(3) i vf c show ?thesis by simp
qed

theorem virtsvc_reply_delivered_witness:
  "\<exists>m' v' r' v'' n'. virtsvc_request_next ex_svc_node 200 ex_vm_request (ex_used, []) = Some (To_tx 0, m', v', [])
     \<and> virtsvc_reply_next ex_svc_node 201 ex_vm_reply v' 0 = Some (To_tx 2, r', v'', n')
     \<and> get32 (mb_buf r') (mb_off r' + 30) = 0x0a000009 \<and> get16 (mb_buf r') (mb_off r' + 36) = 4000"
proof -
  from ex_request_sent obtain m' v' where req: "virtsvc_request_next ex_svc_node 200 ex_vm_request (ex_used, []) = Some (To_tx 0, m', v', [])"
    and p: "get16 (mb_buf m') (mb_off m' + 54) = 1029" by blast
  have ht: "hash_table (ve_ports (vn_env ex_svc_node))" by (simp add: ex_svc_node_def ex_virtsvc_env_def refh.hash_table_axioms)
  have m: "42 \<le> mb_len ex_vm_request" "mb_off ex_vm_request + mb_len ex_vm_request \<le> length (mb_buf ex_vm_request)"
    "mb_port ex_vm_request = 2" "get32 (mb_buf ex_vm_request) (mb_off ex_vm_request + 26) = 0x0a000009"
    "get16 (mb_buf ex_vm_request) (mb_off ex_vm_request + 34) = 4000"
    by (simp_all add: ex_vm_request_bytes)
  have r: "62 \<le> mb_len ex_vm_reply" "mb_off ex_vm_reply + mb_len ex_vm_reply \<le> length (mb_buf ex_vm_reply)"
    "get16 (mb_buf ex_vm_reply) (mb_off ex_vm_reply + 56) = get16 (mb_buf m') (mb_off m' + 54)"
    unfolding p by (simp_all add: ex_vm_reply_bytes)
  have vf: "dp_get_port_by_id (vn_ports ex_svc_node) (mb_port ex_vm_request) = Some (dp_port_zero\<lparr> is_pf := False, port_id := 2 \<rparr>)"
    "next_tx (vn_tx ex_svc_node) (mb_port ex_vm_request) = Some (To_tx 2)"
    unfolding m by (simp_all add: ex_svc_node_def next_tx_def dp_get_port_by_id_def)
  show ?thesis
    using virtsvc_reply_delivered[OF ht ex_used_ok _ m(1,2) req r vf, where tsc'=201 and n=0] req unfolding m by auto
qed

text \<open>C18: the lookup of the service an incoming packet belongs to is exact.  With services
  that differ in protocol, address or port, the balanced tree built over the sorted array finds
  a service if and only if it is the one the packet comes from.\<close>

theorem virtsvc_ipv6_lookup_exact:
  assumes q: "sorts qsort" and built: "dp_virtsvc_create_trees mem qsort services = Inr (t4, t6)"
    and dist: "inj_on (\<lambda>i. (vs_proto (services ! i), vs_service_addr (services ! i), vs_service_port (services ! i)))
      {..<length services}"
  shows "tree_find (\<lambda>v. dp_virtsvc_ipv6_cmp proto addr port (vs_proto v) (vs_service_addr v) (vs_service_port v)) services t6 = Some i
    \<longleftrightarrow> i < length services \<and> vs_proto (services ! i) = proto \<and> vs_service_addr (services ! i) = addr
      \<and> vs_service_port (services ! i) = port"
proof -
  let ?c4 = "\<lambda>i j. dp_virtsvc_ipv4_comparator (services ! i) (services ! j)"
  let ?c6 = "\<lambda>i j. dp_virtsvc_ipv6_comparator (services ! i) (services ! j)"
  define a where "a = qsort ?c6 (qsort ?c4 [0..<length services])"
  obtain n1 n2 where t6: "dp_virtsvc_array_to_tree (snd mem) a 0 (int (length services) - 1) n1 = Some (t6, n2)"
    using create_trees_cases[OF built] unfolding a_def by blast
  have a: "set a = {..<length services}" "length a = length services" "distinct a"
    by (simp_all add: a_def sorts_set[OF q] lessThan_atLeast0)
  have "sorted_wrt (\<lambda>i j. ?c6 i j \<le> 0) a"
    using q ipv6_comparator_consistent[of services] unfolding a_def sorts_def by blast
  moreover have "inj_on (\<lambda>i. service_rank (services ! i)) (set a)"
    using dist unfolding a(1) inj_on_def service_rank_def
    by (metis ipv6_cmp_less ipv6_cmp_swap ipv6_cmp_zero linorder_neqE less_irrefl)
  ultimately have sep: "separates (\<lambda>i. (\<lambda>v. dp_virtsvc_ipv6_cmp proto addr port (vs_proto v) (vs_service_addr v)
      (vs_service_port v)) (services ! i)) a"
    using a(3) by (rule ipv6_separates)
  have "(\<exists>j. 0 \<le> int j \<and> int j \<le> int (length services) - 1 \<and> a ! j = i) \<longleftrightarrow> i \<in> set a"
    unfolding in_set_conv_nth a(2) by (metis of_nat_0_le_iff of_nat_less_iff zle_diff1_eq)
  with array_tree_find[OF t6 _ _ sep, of i] a(1,2) show ?thesis by (simp add: ipv6_cmp_zero) blast
qed

theorem virtsvc_ipv6_lookup_exact_witness:
  "tree_find (\<lambda>v. dp_virtsvc_ipv6_cmp IPPROTO_UDP \<lparr> ip6_prefix = 0xfd00, ip6_suffix = 7 \<rparr> 5353 (vs_proto v) (vs_service_addr v)
     (vs_service_port v)) [ex_service] (Entry 0 Leaf Leaf) = Some 0"
proof -
  have "inj_on (\<lambda>i. (vs_proto ([ex_service] ! i), vs_service_addr ([ex_service] ! i), vs_service_port ([ex_service] ! i)))
      {..<length [ex_service]}" by (simp add: inj_on_def)
  from virtsvc_ipv6_lookup_exact[OF ref_qsort_sorts ex_trees this] show ?thesis
    by (simp add: ex_service_def new_virtsvc_def ex_svc_rule_def)
qed

section \<open>Where the code differs\<close>

text \<open>The comparison of IPv4 addresses is not an order: the wrapped difference of two
  addresses whose last byte differs in the highest bit only is the smallest number, both ways.
  With two such services one of them is never found by its address, whatever order they are
  sorted in.\<close>

definition ex_svc_at :: "ipv4 \<Rightarrow> dp_virtsvc" where
  "ex_svc_at a = ex_service\<lparr> vs_virtual_addr := a \<rparr>"

lemma bswap32_examples: "bswap32 0x0a000001 = 0x0100000a" "bswap32 0x0a000081 = 0x8100000a"
  by code_simp+

lemma ipv4_cmp_both_less:
  "dp_virtsvc_ipv4_cmp p 0x0a000001 q p 0x0a000081 q' < 0" "dp_virtsvc_ipv4_cmp p 0x0a000081 q p 0x0a000001 q' < 0"
  by (simp_all add: dp_virtsvc_ipv4_cmp_def Let_def bswap32_examples)

lemma virtsvc_ipv4_lookup_misses:
  fixes a b :: ipv4
  defines "a \<equiv> 0x0a000001" and "b \<equiv> 0x0a000081"
  assumes "sorts qsort" "dp_virtsvc_create_trees mem qsort [ex_svc_at a, ex_svc_at b] = Inr (t4, t6)"
  shows "get_virtsvc_by_ipv4 [ex_svc_at a, ex_svc_at b] t4 a 53 IPPROTO_UDP = None
    \<or> get_virtsvc_by_ipv4 [ex_svc_at a, ex_svc_at b] t4 b 53 IPPROTO_UDP = None"
proof -
  have perm: "mset (qsort cmp [0, Suc 0]) = {#0, 1#}" for cmp using assms(3) by (simp add: sorts_def)
  have two: "xs = [0, 1] \<or> xs = [1, 0]" if "mset xs = {#0, 1 :: nat#}" for xs
  proof -
    from that have "length xs = 2" using size_mset[of xs] by simp
    then obtain x y where "xs = [x, y]" by (auto simp: numeral_2_eq_2 length_Suc_conv)
    with that show ?thesis by (auto simp: add_eq_conv_ex)
  qed
  define array where "array = qsort (\<lambda>i j. dp_virtsvc_ipv4_comparator ([ex_svc_at a, ex_svc_at b] ! i) ([ex_svc_at a, ex_svc_at b] ! j))
    [0..<length [ex_svc_at a, ex_svc_at b]]"
  have array: "mset array = {#0, 1#}" using perm by (simp add: array_def upt_rec)
  obtain n where t4: "dp_virtsvc_array_to_tree (snd mem) array 0 1 0 = Some (t4, n)"
    by (rule create_trees_cases[OF assms(4), folded array_def]) simp
  have t4: "t4 = Entry (array ! 0) Leaf (Entry (array ! 1) Leaf Leaf)"
    using t4 by (simp add: dp_virtsvc_array_to_tree.simps split: if_splits)
  show ?thesis
    using two[OF array] ipv4_cmp_both_less[of IPPROTO_UDP 53 53] unfolding t4 assms(1,2)
    by (auto simp: get_virtsvc_by_ipv4_def ex_svc_at_def ex_service_def new_virtsvc_def ex_svc_rule_def)
qed

text \<open>A reply to one of the system ports reads a connection outside the array.\<close>

lemma conn_on_system_port:
  assumes "unat p < DP_NB_SYSTEM_PORTS"
  shows "virtsvc_get_conn_on_port p = None"
proof -
  have "\<not> of_nat DP_NB_SYSTEM_PORTS \<le> p" using assms by (simp add: DP_NB_SYSTEM_PORTS_def word_le_nat_alt)
  hence "unat (p - of_nat DP_NB_SYSTEM_PORTS) = unat p + DP_VIRTSVC_PORTCOUNT"
    using assms by (simp add: unat_sub_if' DP_NB_SYSTEM_PORTS_def DP_VIRTSVC_PORTCOUNT_def word_le_nat_alt)
  thus ?thesis by (simp add: virtsvc_get_conn_on_port_def)
qed

lemma virtsvc_reply_system_port:
  assumes "54 \<le> mb_len r" "unat (get16 (mb_buf r) (mb_off r + 56)) < DP_NB_SYSTEM_PORTS"
  shows "virtsvc_reply_next env tsc r v n = None"
proof -
  from reply_hdr[OF assms(1)] obtain m1 where m1: "virtsvc_reply_hdr n v r = Some m1"
    and o: "mb_off m1 = mb_off r + 20" and g: "get16 (mb_buf m1) (mb_off r + 56) = get16 (mb_buf r) (mb_off r + 56)" by blast
  have "virtsvc_get_conn_on_port (get16 (mb_buf m1) (mb_off m1 + 14 + 20 + 2)) = None"
    using conn_on_system_port[OF assms(2)] g o by (simp add: ac_simps)
  thus ?thesis unfolding virtsvc_reply_next_def Let_def m1 option.case by simp
qed

end
