(* ===== verification/Dp_Ipsec_Nodes.thy ===== *)
theory Dp_Ipsec_Nodes
  imports "HOL-Library.Multiset" "HOL-Library.Monad_Syntax" Dp_Grpc_Sa Dp_Vnf Dp_Graph
begin

text \<open>
  The two graph nodes that encrypt and decrypt (\<open>src/nodes/ipsec_encap_node.c\<close>,
  \<open>src/nodes/ipsec_decap_node.c\<close>) and the submission of a burst of crypto operations
  (\<open>dp_ipsec_process_burst\<close> of \<open>src/dp_ipsec.c\<close>).

  A burst is a list of pointers to packet buffers in a heap.  librte_ipsec and the crypto
  device are library code: the record \<open>crypto_lib\<close> holds the calls the nodes make, over a device
  state of any type, and the locale \<open>crypto_library\<close> what their documentation promises.  The
  session of an association is named by the association it is part of.  Reading a packet
  or an operation that is not allocated is undefined behaviour: the result \<open>None\<close>.
\<close>

section \<open>The library\<close>

type_synonym pkts = "ptr \<rightharpoonup> rte_mbuf"

text \<open>\<open>rte_ipsec_pkt_crypto_prepare\<close> is called for one packet at a time, its result is whether
  the operation was built.  A completed operation comes back as its pointer and whether its
  status is success.  The grouping delivers the packets per session, with the flags it raises
  on each.  The change the device makes to the data of a packet is taken to happen in
  \<open>rte_ipsec_pkt_process\<close>, which finishes it: it returns the packets with the failed ones last, and
  the number of those that did not fail.\<close>

record 'd crypto_lib =
  rte_crypto_op_bulk_alloc :: "nat \<Rightarrow> 'd \<Rightarrow> ptr list option"
  rte_ipsec_pkt_crypto_prepare :: "ptr \<Rightarrow> rte_mbuf \<Rightarrow> 'd \<Rightarrow> bool \<times> rte_mbuf \<times> 'd"
  rte_cryptodev_enqueue_burst :: "ptr list \<Rightarrow> 'd \<Rightarrow> nat \<times> 'd"
  rte_cryptodev_dequeue_burst :: "nat \<Rightarrow> 'd \<Rightarrow> (ptr \<times> bool) list \<times> 'd"
  rte_ipsec_pkt_crypto_group :: "(ptr \<times> ptr \<times> bool) list \<Rightarrow> (ptr \<times> (ptr \<times> ol_flag set) list) list"
  rte_ipsec_pkt_process :: "ptr \<Rightarrow> (ptr \<times> rte_mbuf) list \<Rightarrow> 'd \<Rightarrow> (ptr \<times> rte_mbuf) list \<times> nat \<times> 'd"

section \<open>Submission of a burst\<close>

primrec dequeue_loop :: "'d crypto_lib \<Rightarrow> nat \<Rightarrow> nat \<Rightarrow> (ptr \<times> bool) list \<Rightarrow> 'd \<Rightarrow> (ptr \<times> bool) list \<times> 'd" where
  "dequeue_loop C 0 enqueued got d = (got, d)"
| "dequeue_loop C (Suc i) enqueued got d =
     (if length got < enqueued
      then case rte_cryptodev_dequeue_burst C (enqueued - length got) d of
        (more_ops, d) \<Rightarrow> dequeue_loop C i enqueued (got @ more_ops) d
      else (got, d))"

definition dp_ipsec_process_burst :: "'d crypto_lib \<Rightarrow> ptr list \<Rightarrow> 'd \<Rightarrow> (ptr \<times> bool) list \<times> 'd" where
  "dp_ipsec_process_burst C ops d =
     (case rte_cryptodev_enqueue_burst C ops d of
       (enqueued, d) \<Rightarrow> dequeue_loop C DP_IPSEC_DEQUEUE_RETRIES enqueued [] d)"

section \<open>A burst through a node\<close>

definition set_crypto_failed :: "bool \<Rightarrow> rte_mbuf \<Rightarrow> rte_mbuf" where
  "set_crypto_failed b m = m\<lparr> mb_mark := (mb_mark m)\<lparr> mark_crypto_failed := b \<rparr> \<rparr>"

primrec foldM :: "('a \<Rightarrow> 's \<Rightarrow> 's option) \<Rightarrow> 'a list \<Rightarrow> 's \<Rightarrow> 's option" where
  "foldM f [] s = Some s"
| "foldM f (x # xs) s = do { s \<leftarrow> f x s; foldM f xs s }"

definition mark_failed :: "ptr \<Rightarrow> pkts \<Rightarrow> pkts option" where
  "mark_failed p h = do { m \<leftarrow> h p; Some (h(p \<mapsto> set_crypto_failed True m)) }"

text \<open>What the two nodes do differently: the key of a packet, the admission of a packet under
  the association that was found, what happens to a packet the library has finished and to
  one it has refused, and the edge.\<close>

record crypto_node =
  cn_key :: "rte_mbuf \<Rightarrow> sad_key option"
  cn_admit :: "ptr \<Rightarrow> rte_mbuf \<Rightarrow> (bool \<times> rte_mbuf) option"
  cn_finish :: "rte_mbuf \<Rightarrow> rte_mbuf"
  cn_refuse :: "rte_mbuf \<Rightarrow> rte_mbuf"
  cn_next :: "rte_mbuf \<Rightarrow> edge option"

text \<open>\<open>ipsec_encap_prepare\<close> and \<open>ipsec_decap_prepare\<close>, the same code.\<close>

definition ipsec_prepare :: "'d crypto_lib \<Rightarrow> rte_mbuf \<Rightarrow> ptr \<Rightarrow> 'd \<Rightarrow> bool \<times> rte_mbuf \<times> 'd" where
  "ipsec_prepare C m sa d =
     rte_ipsec_pkt_crypto_prepare C sa (m\<lparr> mb_l2_len := ETHER_HDR_LEN, mb_l3_len := IPV6_HDR_LEN \<rparr>) d"

text \<open>The state of the loop that frames the packets: the packets, the device, and the
  session and packet of every operation built so far.\<close>

definition frame_packet ::
  "'d crypto_lib \<Rightarrow> crypto_node \<Rightarrow> ptr \<times> ptr option \<Rightarrow> pkts \<times> 'd \<times> (ptr \<times> ptr) list \<Rightarrow> (pkts \<times> 'd \<times> (ptr \<times> ptr) list) option" where
  "frame_packet C N = (\<lambda>(p, sa_opt) (h, d, framed). case sa_opt of
       None \<Rightarrow> Some (h, d, framed)
     | Some sa \<Rightarrow> do {
         m \<leftarrow> h p;
         (admitted, m) \<leftarrow> cn_admit N sa m;
         if \<not> admitted then Some (h(p \<mapsto> m), d, framed)
         else case ipsec_prepare C m sa d of
           (ok, m, d) \<Rightarrow> Some (h(p \<mapsto> m), d, if ok then framed @ [(sa, p)] else framed)
       })"

text \<open>The session, the packet and the status of a completed operation.\<close>

definition completed_op :: "(ptr \<times> ptr \<times> ptr) list \<Rightarrow> ptr \<times> bool \<Rightarrow> (ptr \<times> ptr \<times> bool) option" where
  "completed_op live = (\<lambda>(op, status). do { (sa, p) \<leftarrow> map_of live op; Some (sa, p, status) })"

definition raise_flags :: "pkts \<Rightarrow> ptr \<times> ol_flag set \<Rightarrow> (ptr \<times> rte_mbuf) option" where
  "raise_flags h = (\<lambda>(p, flags). do { m \<leftarrow> h p; Some (p, m\<lparr> mb_ol_flags := mb_ol_flags m \<union> flags \<rparr>) })"

definition finish_group ::
  "'d crypto_lib \<Rightarrow> crypto_node \<Rightarrow> ptr \<times> (ptr \<times> ol_flag set) list \<Rightarrow> pkts \<times> 'd \<Rightarrow> (pkts \<times> 'd) option" where
  "finish_group C N = (\<lambda>(sa, ms) (h, d). do {
     group \<leftarrow> those (map (raise_flags h) ms);
     case rte_ipsec_pkt_process C sa group d of
       (group, nb_ok, d) \<Rightarrow>
         Some (fold (\<lambda>(p, m) h. h(p \<mapsto> m))
           (map (\<lambda>(p, m). (p, cn_finish N m)) (take nb_ok group) @ map (\<lambda>(p, m). (p, cn_refuse N m)) (drop nb_ok group)) h, d)
   })"

definition node_edges :: "crypto_node \<Rightarrow> ptr list \<Rightarrow> pkts \<Rightarrow> edge list option" where
  "node_edges N objs h = those (map (\<lambda>p. do { m \<leftarrow> h p; cn_next N m }) objs)"

text \<open>The operations are freed at the end, those still queued in the device too.\<close>

definition crypto_node_process ::
  "ipsec_lib \<Rightarrow> ipsec_state \<Rightarrow> 'd crypto_lib \<Rightarrow> crypto_node \<Rightarrow> ptr list \<Rightarrow> pkts \<times> 'd \<Rightarrow> (edge list \<times> pkts \<times> 'd) option" where
  "crypto_node_process L s C N objs = (\<lambda>(h, d).
     case rte_crypto_op_bulk_alloc C (length objs) d of
       None \<Rightarrow> do { h \<leftarrow> foldM mark_failed objs h; edges \<leftarrow> node_edges N objs h; Some (edges, h, d) }
     | Some ops \<Rightarrow> do {
         h \<leftarrow> foldM mark_failed objs h;
         keys \<leftarrow> those (map (\<lambda>p. do { m \<leftarrow> h p; cn_key N m }) objs);
         let sas = dp_ipsec_lookup_sa L s keys;
         (h, d, framed) \<leftarrow> foldM (frame_packet C N) (zip objs sas) (h, d, []);
         (h, d) \<leftarrow>
           (if framed = [] then Some (h, d)
            else case dp_ipsec_process_burst C (take (length framed) ops) d of
              (got, d) \<Rightarrow> do {
                completed \<leftarrow> those (map (completed_op (zip ops framed)) got);
                foldM (finish_group C N) (rte_ipsec_pkt_crypto_group C completed) (h, d)
              });
         edges \<leftarrow> node_edges N objs h;
         Some (edges, h, d)
       })"

section \<open>The encrypting node\<close>

definition ipsec_encap_build_key :: "dp_port option list \<Rightarrow> rte_mbuf \<Rightarrow> sad_key option" where
  "ipsec_encap_build_key ports m = do {
     port \<leftarrow> dp_get_port_by_id ports (mb_port m);
     let ipv6_hdr = mb_off m + ETHER_HDR_LEN;
     Some (dp_ipsec_build_key (if_vni (iface port)) (get_ipv6 (mb_buf m) (ipv6_hdr + 8)) (get_ipv6 (mb_buf m) (ipv6_hdr + 24)))
   }"

definition clear_sec_flags :: "rte_mbuf \<Rightarrow> rte_mbuf" where
  "clear_sec_flags m = m\<lparr> mb_ol_flags := mb_ol_flags m - {RX_SEC_OFFLOAD, RX_SEC_OFFLOAD_FAILED} \<rparr>"

definition ipsec_encap_next :: "tx_node \<Rightarrow> rte_mbuf \<Rightarrow> edge option" where
  "ipsec_encap_next tx m =
     (if mark_crypto_failed (mb_mark m) then Some To_drop else next_tx tx (df_nxt_hop (mb_df m)))"

definition ipsec_encap_node :: "dp_port option list \<Rightarrow> tx_node \<Rightarrow> crypto_node" where
  "ipsec_encap_node ports tx = \<lparr>
     cn_key = ipsec_encap_build_key ports, cn_admit = (\<lambda>sa m. Some (True, m)),
     cn_finish = (\<lambda>m. clear_sec_flags (set_crypto_failed False m)), cn_refuse = clear_sec_flags,
     cn_next = ipsec_encap_next tx \<rparr>"

definition ipsec_encap_node_process ::
  "ipsec_lib \<Rightarrow> ipsec_state \<Rightarrow> 'd crypto_lib \<Rightarrow> dp_port option list \<Rightarrow> tx_node \<Rightarrow> ptr list \<Rightarrow> pkts \<times> 'd \<Rightarrow>
   (edge list \<times> pkts \<times> 'd) option" where
  "ipsec_encap_node_process L s C ports tx = crypto_node_process L s C (ipsec_encap_node ports tx)"

section \<open>The decrypting node\<close>

definition IPSEC_DECAP_MIN_LEN :: nat where
  "IPSEC_DECAP_MIN_LEN = ETHER_HDR_LEN + IPV6_HDR_LEN + 8"

definition ipsec_decap_build_key :: "rte_mbuf \<Rightarrow> sad_key" where
  "ipsec_decap_build_key m =
     (let ipv6_hdr = mb_off m + ETHER_HDR_LEN in
      if mb_len m < IPSEC_DECAP_MIN_LEN then \<lparr> key_spi = 0, key_dip = dp_empty_ipv6, key_sip = dp_empty_ipv6 \<rparr>
      else dp_ipsec_build_key (get32 (mb_buf m) (ipv6_hdr + IPV6_HDR_LEN))
        (get_ipv6 (mb_buf m) (ipv6_hdr + 8)) (get_ipv6 (mb_buf m) (ipv6_hdr + 24)))"

text \<open>The check against the network of the association: the association is only
  read when the destination of the tunnel is known.\<close>

definition ipsec_decap_admit ::
  "ipsec_state \<Rightarrow> vnf_lib \<Rightarrow> dp_port option list \<Rightarrow> vnf_state \<Rightarrow> ptr \<Rightarrow> rte_mbuf \<Rightarrow> (bool \<times> rte_mbuf) option" where
  "ipsec_decap_admit s lib ports vst p m =
     (case dp_vnf_resolve_tunnel_dst lib ports vst (mb_df m) of
       (None, df) \<Rightarrow> Some (False, m\<lparr> mb_df := df \<rparr>)
     | (Some _, df) \<Rightarrow> do { sa \<leftarrow> ips_heap s p; Some (df_tun_dst_vni df = sa_vni sa, m\<lparr> mb_df := df \<rparr>) })"

definition ipsec_decap_restore_flow :: "rte_mbuf \<Rightarrow> unit dp_result \<times> rte_mbuf" where
  "ipsec_decap_restore_flow m =
     (let proto = get8 (mb_buf m) (mb_off m + ETHER_HDR_LEN + 6);
          ok = (\<lambda>l3_type. (DP_OK, m\<lparr> mb_df := (mb_df m)\<lparr> df_l3_type := l3_type, df_tun_proto_id := proto \<rparr> \<rparr>)) in
      if proto = IPPROTO_IPIP then ok RTE_ETHER_TYPE_IPV4
      else if proto = IPPROTO_IPV6 then ok RTE_ETHER_TYPE_IPV6
      else (Inl DP_ERROR, m))"

definition ipsec_decap_finish :: "rte_mbuf \<Rightarrow> rte_mbuf" where
  "ipsec_decap_finish m = (case ipsec_decap_restore_flow m of
       (Inl _, m) \<Rightarrow> m
     | (Inr _, m) \<Rightarrow> set_crypto_failed False m)"

definition ipsec_decap_next :: "rte_mbuf \<Rightarrow> edge option" where
  "ipsec_decap_next m = Some (if mark_crypto_failed (mb_mark m) then To_drop else To_ipip_decap)"

definition ipsec_decap_node :: "ipsec_state \<Rightarrow> vnf_lib \<Rightarrow> dp_port option list \<Rightarrow> vnf_state \<Rightarrow> crypto_node" where
  "ipsec_decap_node s lib ports vst = \<lparr>
     cn_key = (\<lambda>m. Some (ipsec_decap_build_key m)), cn_admit = ipsec_decap_admit s lib ports vst,
     cn_finish = ipsec_decap_finish, cn_refuse = id, cn_next = ipsec_decap_next \<rparr>"

definition ipsec_decap_node_process ::
  "ipsec_lib \<Rightarrow> ipsec_state \<Rightarrow> 'd crypto_lib \<Rightarrow> vnf_lib \<Rightarrow> dp_port option list \<Rightarrow> vnf_state \<Rightarrow> ptr list \<Rightarrow> pkts \<times> 'd \<Rightarrow>
   (edge list \<times> pkts \<times> 'd) option" where
  "ipsec_decap_node_process L s C lib ports vst = crypto_node_process L s C (ipsec_decap_node s lib ports vst)"

section \<open>The contract of librte_ipsec and the crypto device\<close>

text \<open>What lies on the wire: the data of a packet.\<close>

definition pkt_data :: "rte_mbuf \<Rightarrow> bytes" where
  "pkt_data m = take (mb_len m) (drop (mb_off m) (mb_buf m))"

text \<open>The library does not touch what belongs to the application.\<close>

definition same_meta :: "rte_mbuf \<Rightarrow> rte_mbuf \<Rightarrow> bool" where
  "same_meta m m' \<longleftrightarrow> mb_port m' = mb_port m \<and> mb_df m' = mb_df m \<and> mb_mark m' = mb_mark m"

text \<open>\<open>queued\<close> are the operations in the device; \<open>protected p\<close> the data that \<open>rte_ipsec_pkt_process\<close>
  makes under the session of the association \<open>p\<close>: the ESP packet for an outbound one, the
  authenticated content for an inbound one.  Operations are delivered once, with a status;
  the grouping raises the failure flag where the status is not success, and a packet with
  that flag fails.\<close>

locale crypto_library =
  fixes C :: "'d crypto_lib" and queued :: "'d \<Rightarrow> ptr multiset" and protected_data :: "ptr \<Rightarrow> bytes \<Rightarrow> bool"
  assumes alloc: "rte_crypto_op_bulk_alloc C n d = Some ops \<Longrightarrow> length ops = n \<and> distinct ops"
    and prepare: "rte_ipsec_pkt_crypto_prepare C p m d = (ok, m', d') \<Longrightarrow> same_meta m m' \<and> queued d' = queued d"
    and enqueue: "rte_cryptodev_enqueue_burst C ops d = (n, d') \<Longrightarrow> n \<le> length ops \<and> queued d' = queued d + mset (take n ops)"
    and dequeue: "rte_cryptodev_dequeue_burst C n d = (got, d') \<Longrightarrow> length got \<le> n \<and> mset (map fst got) + queued d' = queued d"
    and group: "mset (concat (map (\<lambda>(sa, ms). map (\<lambda>(p, flags). (sa, p, RX_SEC_OFFLOAD_FAILED \<notin> flags)) ms)
        (rte_ipsec_pkt_crypto_group C completed))) = mset completed"
    and process: "rte_ipsec_pkt_process C sa ms d = (out, n, d') \<Longrightarrow>
        n \<le> length out \<and> mset (map fst out) = mset (map fst ms) \<and> queued d' = queued d
        \<and> (\<forall>(p, m') \<in> set out. \<exists>m. (p, m) \<in> set ms \<and> same_meta m m')
        \<and> (\<forall>(p, m') \<in> set (take n out). protected_data sa (pkt_data m') \<and> (\<exists>m. (p, m) \<in> set ms \<and> RX_SEC_OFFLOAD_FAILED \<notin> mb_ol_flags m))"

text \<open>What a node keeps, whatever it does with a packet.\<close>

locale secured_node = crypto_library C queued protected_data
  for C :: "'d crypto_lib" and queued :: "'d \<Rightarrow> ptr multiset" and protected_data :: "ptr \<Rightarrow> bytes \<Rightarrow> bool" +
  fixes N :: crypto_node
  assumes key_mark: "cn_key N (set_crypto_failed b m) = cn_key N m"
    and admit_meta: "cn_admit N sa m = Some (ok, m') \<Longrightarrow> mb_port m' = mb_port m \<and> mb_mark m' = mb_mark m"
    and refuse_mark: "mb_mark (cn_refuse N m) = mb_mark m"
    and failed_dropped: "mark_crypto_failed (mb_mark m) \<Longrightarrow> cn_next N m = Some To_drop"

section \<open>Lemmas\<close>

lemma crypto_failed_simps [simp]:
  "mark_crypto_failed (mb_mark (set_crypto_failed b m)) = b" "mb_port (set_crypto_failed b m) = mb_port m"
  "mb_df (set_crypto_failed b m) = mb_df m" "mb_buf (set_crypto_failed b m) = mb_buf m" "mb_off (set_crypto_failed b m) = mb_off m"
  "mb_len (set_crypto_failed b m) = mb_len m" "pkt_data (set_crypto_failed b m) = pkt_data m"
  by (simp_all add: set_crypto_failed_def pkt_data_def)

lemma those_map_eq: "(\<And>x. x \<in> set xs \<Longrightarrow> f x = Some (g x)) \<Longrightarrow> those (map f xs) = Some (map g xs)"
  by (induction xs) auto

lemma distinct_submset:
  assumes "mset xs \<subseteq># mset ys" "distinct ys"
  shows "distinct xs"
proof -
  from assms(1) obtain zs where "mset ys = mset (xs @ zs)" by (metis ex_mset mset_append subset_mset.add_diff_inverse)
  with assms(2) have "distinct (xs @ zs)" by (metis mset_eq_imp_distinct_iff)
  thus ?thesis by simp
qed

lemma fold_updates: "distinct (map fst xs) \<Longrightarrow> fold (\<lambda>(p, m) h. h(p \<mapsto> m)) xs h = h ++ map_of xs"
proof (induction xs arbitrary: h)
  case (Cons x xs)
  obtain p m where x: "x = (p, m)" by fastforce
  with Cons.prems have "map_of xs p = None" by (simp add: map_of_eq_None_iff)
  thus ?case using Cons by (auto simp: x fun_eq_iff map_add_def split: option.splits)
qed simp

lemma foldM_mark_failed:
  "(\<forall>p\<in>set ps. h p \<noteq> None) \<Longrightarrow>
   foldM mark_failed ps h = Some (\<lambda>p. if p \<in> set ps then map_option (set_crypto_failed True) (h p) else h p)"
proof (induction ps arbitrary: h)
  case (Cons q ps)
  from Cons.prems obtain m where m: "h q = Some m" by auto
  have idem: "set_crypto_failed True (set_crypto_failed True x) = set_crypto_failed True x" for x
    by (simp add: set_crypto_failed_def)
  have "\<forall>p\<in>set ps. (h(q \<mapsto> set_crypto_failed True m)) p \<noteq> None" using Cons.prems by auto
  note IH = Cons.IH[OF this]
  have step: "mark_failed q h = Some (h(q \<mapsto> set_crypto_failed True m))" by (simp add: mark_failed_def m)
  show ?case unfolding foldM.simps step Option.bind.bind_lunit IH by (auto simp: fun_eq_iff m idem)
qed simp

lemma lookup_sa_single: "dp_ipsec_lookup_sa L s ks = map (\<lambda>k. hd (dp_ipsec_lookup_sa L s [k])) ks"
  "dp_ipsec_lookup_sa L s [k] = [hd (dp_ipsec_lookup_sa L s [k])]"
  by (simp_all add: dp_ipsec_lookup_sa_def split: option.split)

lemma completed_ops:
  assumes "set (map fst got) \<subseteq> set (map fst live)"
  shows "those (map (completed_op live) got) =
    Some (map (\<lambda>(op, status). (fst (the (map_of live op)), snd (the (map_of live op)), status)) got)"
proof -
  have ok: "\<exists>y. map_of live (fst x) = Some y" if "x \<in> set got" for x
    using assms that by (metis image_eqI in_mono list.set_map map_of_eq_None_iff not_None_eq)
  show ?thesis
  proof (rule those_map_eq)
    fix x assume x: "x \<in> set got"
    obtain op status sa p where "x = (op, status)" "map_of live op = Some (sa, p)" using ok[OF x] by (metis prod.collapse)
    thus "completed_op live x = Some (case x of (op, status) \<Rightarrow> (fst (the (map_of live op)), snd (the (map_of live op)), status))"
      by (simp add: completed_op_def)
  qed
qed

context crypto_library
begin

lemma dequeue_loop_ops:
  "dequeue_loop C k n got d = (got', d') \<Longrightarrow> mset (map fst got') + queued d' = mset (map fst got) + queued d"
proof (induction k arbitrary: got d)
  case (Suc k)
  show ?case
  proof (cases "length got < n")
    case True
    obtain new d1 where new: "rte_cryptodev_dequeue_burst C (n - length got) d = (new, d1)" by fastforce
    with Suc.prems True have "dequeue_loop C k n (got @ new) d1 = (got', d')" by simp
    from Suc.IH[OF this] dequeue[OF new] show ?thesis by simp
  next
    case False
    with Suc.prems show ?thesis by simp
  qed
qed simp

text \<open>From an idle device a burst only gets operations of its own back, each at most once.\<close>

lemma process_burst_own:
  assumes "dp_ipsec_process_burst C ops d = (got, d')" "queued d = {#}"
  shows "mset (map fst got) + queued d' \<subseteq># mset ops"
proof -
  obtain n d1 where enq: "rte_cryptodev_enqueue_burst C ops d = (n, d1)" by fastforce
  with assms(1) have "dequeue_loop C DP_IPSEC_DEQUEUE_RETRIES n [] d1 = (got, d')" by (simp add: dp_ipsec_process_burst_def)
  from dequeue_loop_ops[OF this] enqueue[OF enq] assms(2) have "mset (map fst got) + queued d' = mset (take n ops)" by simp
  also have "mset (take n ops) \<subseteq># mset ops"
    by (metis append_take_drop_id mset_append mset_subset_eq_add_left)
  finally show ?thesis .
qed

end

context secured_node
begin

text \<open>Framing: what has become of the packets, and which operations there are.\<close>

definition framed_pkt :: "rte_mbuf \<Rightarrow> ptr option \<Rightarrow> rte_mbuf \<Rightarrow> bool \<Rightarrow> bool" where
  "framed_pkt m sa_opt m' ok \<longleftrightarrow> mb_mark m' = mb_mark m \<and> mb_port m' = mb_port m
     \<and> (ok \<longrightarrow> (\<exists>sa m1. sa_opt = Some sa \<and> cn_admit N sa m = Some (True, m1) \<and> same_meta m1 m'))"

lemma frame_packet_step:
  assumes "h p = Some m" "\<And>sa. sa_opt = Some sa \<Longrightarrow> cn_admit N sa m \<noteq> None"
  shows "\<exists>m' d' ok. frame_packet C N (p, sa_opt) (h, d, F) =
      Some (h(p \<mapsto> m'), d', if ok then F @ [(the sa_opt, p)] else F) \<and> framed_pkt m sa_opt m' ok \<and> queued d' = queued d"
proof (cases sa_opt)
  case None
  thus ?thesis using assms(1) by (intro exI[of _ m] exI[of _ d] exI[of _ False])
      (simp add: frame_packet_def framed_pkt_def fun_upd_idem)
next
  case (Some sa)
  with assms(2) obtain b m1 where adm: "cn_admit N sa m = Some (b, m1)" by fastforce
  note meta = admit_meta[OF adm]
  show ?thesis
  proof (cases b)
    case False
    with Some adm meta assms(1) show ?thesis
      by (intro exI[of _ m1] exI[of _ d] exI[of _ False]) (simp add: frame_packet_def framed_pkt_def)
  next
    case True
    obtain ok m2 d2 where prep: "ipsec_prepare C m1 sa d = (ok, m2, d2)" by (metis prod_cases3)
    from prepare[OF prep[unfolded ipsec_prepare_def]] have "same_meta m1 m2" "queued d2 = queued d"
      by (auto simp: same_meta_def)
    with Some adm meta assms(1) True prep show ?thesis
      by (intro exI[of _ m2] exI[of _ d2] exI[of _ ok]) (simp add: frame_packet_def framed_pkt_def same_meta_def)
  qed
qed

lemma frame_packets:
  assumes "distinct (map fst xs)" "\<And>p sa_opt. (p, sa_opt) \<in> set xs \<Longrightarrow> \<exists>m. h p = Some m \<and> (\<forall>sa. sa_opt = Some sa \<longrightarrow> cn_admit N sa m \<noteq> None)"
  shows "\<exists>h' d' F'. foldM (frame_packet C N) xs (h, d, F) = Some (h', d', F @ F') \<and> queued d' = queued d
    \<and> distinct (map snd F') \<and> set F' \<subseteq> {(sa, p). (p, Some sa) \<in> set xs} \<and> (\<forall>p. p \<notin> fst ` set xs \<longrightarrow> h' p = h p)
    \<and> (\<forall>(p, sa_opt) \<in> set xs. \<exists>m m'. h p = Some m \<and> h' p = Some m' \<and> framed_pkt m sa_opt m' (p \<in> snd ` set F'))"
  using assms
proof (induction xs arbitrary: h d F)
  case (Cons x xs)
  obtain p sa_opt where x: "x = (p, sa_opt)" by fastforce
  from Cons.prems(2)[of p sa_opt] obtain m where m: "h p = Some m" "\<And>sa. sa_opt = Some sa \<Longrightarrow> cn_admit N sa m \<noteq> None"
    by (auto simp: x)
  from frame_packet_step[where h=h and p=p and m=m and sa_opt=sa_opt and d=d and F=F, OF m] obtain m1 d1 ok where
    st: "frame_packet C N (p, sa_opt) (h, d, F) = Some (h(p \<mapsto> m1), d1, if ok then F @ [(the sa_opt, p)] else F)"
    and f1: "framed_pkt m sa_opt m1 ok" "queued d1 = queued d" by blast
  have notin: "p \<notin> fst ` set xs" using Cons.prems(1) by (simp add: x)
  let ?F = "if ok then F @ [(the sa_opt, p)] else F"
  have "\<exists>m. (h(p \<mapsto> m1)) q = Some m \<and> (\<forall>sa. so = Some sa \<longrightarrow> cn_admit N sa m \<noteq> None)" if "(q, so) \<in> set xs" for q so
    using Cons.prems(2)[of q so] that notin by force
  moreover have "distinct (map fst xs)" using Cons.prems(1) by simp
  ultimately obtain h' d' F' where IH: "foldM (frame_packet C N) xs (h(p \<mapsto> m1), d1, ?F) = Some (h', d', ?F @ F')"
    "queued d' = queued d1" "distinct (map snd F')" "set F' \<subseteq> {(sa, p). (p, Some sa) \<in> set xs}"
    "\<forall>q. q \<notin> fst ` set xs \<longrightarrow> h' q = (h(p \<mapsto> m1)) q"
    "\<forall>(q, so) \<in> set xs. \<exists>m m'. (h(p \<mapsto> m1)) q = Some m \<and> h' q = Some m' \<and> framed_pkt m so m' (q \<in> snd ` set F')"
    using Cons.IH[of "h(p \<mapsto> m1)" d1 ?F] by blast
  define G where "G = (if ok then [(the sa_opt, p)] else []) @ F'"
  have run: "foldM (frame_packet C N) (x # xs) (h, d, F) = Some (h', d', F @ G)"
    using st IH(1) by (simp add: x G_def)
  have pF: "p \<notin> snd ` set F'" using IH(4) notin by force
  have so: "ok \<Longrightarrow> sa_opt = Some (the sa_opt)" using f1(1) by (auto simp: framed_pkt_def)
  have G: "distinct (map snd G)" "set G \<subseteq> {(sa, p). (p, Some sa) \<in> set (x # xs)}"
    using IH(3,4) pF so by (auto simp: G_def x)
  have memG: "p \<in> snd ` set G \<longleftrightarrow> ok" "q \<noteq> p \<Longrightarrow> q \<in> snd ` set G \<longleftrightarrow> q \<in> snd ` set F'" for q
    using pF by (auto simp: G_def)
  have "\<exists>m m'. h q = Some m \<and> h' q = Some m' \<and> framed_pkt m so m' (q \<in> snd ` set G)" if "(q, so) \<in> set (x # xs)" for q so
  proof (cases "(q, so) = (p, sa_opt)")
    case True
    with m(1) IH(5) notin f1(1) memG(1) show ?thesis by simp
  next
    case False
    with that have q: "(q, so) \<in> set xs" by (auto simp: x)
    hence "q \<noteq> p" using notin by force
    moreover from bspec[OF IH(6) q] obtain m m' where "(h(p \<mapsto> m1)) q = Some m" "h' q = Some m'"
      "framed_pkt m so m' (q \<in> snd ` set F')" by auto
    ultimately show ?thesis using memG(2)[of q] by simp
  qed
  with run G IH(2,5) f1(2) show ?case by (intro exI[of _ h'] exI[of _ d'] exI[of _ G]) (auto simp: x)
qed simp

text \<open>Finishing: each packet of a group is finished or refused.\<close>

definition finished_pkt :: "ptr \<Rightarrow> ol_flag set \<Rightarrow> rte_mbuf \<Rightarrow> rte_mbuf \<Rightarrow> bool" where
  "finished_pkt sa flags m m' \<longleftrightarrow> (\<exists>m2. same_meta m m2
     \<and> (m' = cn_refuse N m2 \<or> m' = cn_finish N m2 \<and> protected_data sa (pkt_data m2) \<and> RX_SEC_OFFLOAD_FAILED \<notin> flags))"

lemma finish_group_step:
  assumes "distinct (map fst ms)" "\<forall>p \<in> fst ` set ms. h p \<noteq> None"
  shows "\<exists>h' d'. finish_group C N (sa, ms) (h, d) = Some (h', d') \<and> (\<forall>p. p \<notin> fst ` set ms \<longrightarrow> h' p = h p)
    \<and> (\<forall>(p, flags) \<in> set ms. \<exists>m m'. h p = Some m \<and> h' p = Some m' \<and> finished_pkt sa flags m m')"
proof -
  define G where "G = map (\<lambda>(p, flags). (p, (the (h p))\<lparr> mb_ol_flags := mb_ol_flags (the (h p)) \<union> flags \<rparr>)) ms"
  have group: "those (map (raise_flags h) ms) = Some G"
    unfolding G_def by (rule those_map_eq) (use assms(2) in \<open>force simp: raise_flags_def\<close>)
  obtain out n d' where out: "rte_ipsec_pkt_process C sa G d = (out, n, d')" by (metis prod_cases3)
  note P = process[OF out]
  have keys: "map fst G = map fst ms" by (auto simp: G_def)
  have perm: "mset (map fst out) = mset (map fst ms)" using P keys by simp
  have dist: "distinct (map fst out)" using assms(1) mset_eq_imp_distinct_iff[OF perm] by blast
  have setk: "fst ` set out = fst ` set ms" using mset_eq_setD[OF perm] by simp
  define W where "W = map (\<lambda>(p, m). (p, cn_finish N m)) (take n out) @ map (\<lambda>(p, m). (p, cn_refuse N m)) (drop n out)"
  have "map fst W = map fst (take n out) @ map fst (drop n out)" unfolding W_def by (simp add: case_prod_beta')
  hence Wk: "map fst W = map fst out" by (metis append_take_drop_id map_append)
  have W: "fold (\<lambda>(p, m) h. h(p \<mapsto> m)) W h = h ++ map_of W" using dist unfolding Wk[symmetric] by (rule fold_updates)
  have entry: "\<exists>m m'. h p = Some m \<and> (h ++ map_of W) p = Some m' \<and> finished_pkt sa flags m m'" if pf: "(p, flags) \<in> set ms" for p flags
  proof -
    from pf assms(2) obtain m where m: "h p = Some m" by force
    have inG: "m0 = m\<lparr> mb_ol_flags := mb_ol_flags m \<union> flags \<rparr>" if "(p, m0) \<in> set G" for m0
    proof -
      from that obtain fl where fl: "(p, fl) \<in> set ms" "m0 = m\<lparr> mb_ol_flags := mb_ol_flags m \<union> fl \<rparr>"
        using m by (auto simp: G_def)
      with pf assms(1) have "fl = flags" by (metis map_of_is_SomeI option.inject)
      with fl show ?thesis by simp
    qed
    have "p \<in> fst ` set out" using pf setk by force
    then obtain m2 where m2: "(p, m2) \<in> set out" by auto
    with P inG have meta: "same_meta m m2" by (fastforce simp: same_meta_def)
    have "(p, m2) \<in> set (take n out) \<or> (p, m2) \<in> set (drop n out)" using m2 by (metis Un_iff append_take_drop_id set_append)
    then obtain m' where m': "(p, m') \<in> set W" "finished_pkt sa flags m m'"
    proof
      assume t: "(p, m2) \<in> set (take n out)"
      hence "(p, cn_finish N m2) \<in> set W" by (force simp: W_def)
      moreover have "protected_data sa (pkt_data m2)" "RX_SEC_OFFLOAD_FAILED \<notin> flags" using P t inG by fastforce+
      ultimately show ?thesis using meta that unfolding finished_pkt_def by blast
    next
      assume t: "(p, m2) \<in> set (drop n out)"
      hence "(p, cn_refuse N m2) \<in> set W" by (force simp: W_def)
      thus ?thesis using meta that unfolding finished_pkt_def by blast
    qed
    have "map_of W p = Some m'" using m'(1) dist Wk by (simp add: map_of_is_SomeI)
    with m m' show ?thesis by simp
  qed
  have "(h ++ map_of W) p = h p" if "p \<notin> fst ` set ms" for p
    using that setk Wk by (metis list.set_map map_add_dom_app_simps(3) map_of_eq_None_iff domIff)
  moreover have "finish_group C N (sa, ms) (h, d) = Some (h ++ map_of W, d')"
    unfolding finish_group_def prod.case group Option.bind.bind_lunit out W_def[symmetric] W ..
  ultimately show ?thesis using entry by blast
qed

definition group_pkts :: "(ptr \<times> (ptr \<times> ol_flag set) list) list \<Rightarrow> ptr list" where
  "group_pkts gs = concat (map (\<lambda>(sa, ms). map fst ms) gs)"

lemma finish_groups:
  assumes "distinct (group_pkts gs)" "\<forall>p \<in> set (group_pkts gs). h p \<noteq> None"
  shows "\<exists>h' d'. foldM (finish_group C N) gs (h, d) = Some (h', d') \<and> (\<forall>p. p \<notin> set (group_pkts gs) \<longrightarrow> h' p = h p)
    \<and> (\<forall>(sa, ms) \<in> set gs. \<forall>(p, flags) \<in> set ms. \<exists>m m'. h p = Some m \<and> h' p = Some m' \<and> finished_pkt sa flags m m')"
  using assms
proof (induction gs arbitrary: h d)
  case (Cons g gs)
  obtain sa ms where g: "g = (sa, ms)" by fastforce
  have pk: "group_pkts (g # gs) = map fst ms @ group_pkts gs" by (simp add: group_pkts_def g)
  from Cons.prems have "distinct (map fst ms)" "\<forall>p \<in> fst ` set ms. h p \<noteq> None" by (auto simp: pk)
  from finish_group_step[OF this, of sa d] obtain h1 d1 where
    s1: "finish_group C N (sa, ms) (h, d) = Some (h1, d1)" "\<And>p. p \<notin> fst ` set ms \<Longrightarrow> h1 p = h p"
    and f1: "\<forall>(p, flags) \<in> set ms. \<exists>m m'. h p = Some m \<and> h1 p = Some m' \<and> finished_pkt sa flags m m'" by blast
  have dis: "fst ` set ms \<inter> set (group_pkts gs) = {}" using Cons.prems(1) by (auto simp: pk)
  have "h1 p \<noteq> None" if "p \<in> set (group_pkts gs)" for p
    using Cons.prems(2) dis s1(2)[of p] that by (metis UnI2 disjoint_iff pk set_append)
  hence "distinct (group_pkts gs)" "\<forall>p \<in> set (group_pkts gs). h1 p \<noteq> None" using Cons.prems(1) by (auto simp: pk)
  from Cons.IH[OF this, of d1] obtain h2 d2 where
    s2: "foldM (finish_group C N) gs (h1, d1) = Some (h2, d2)" "\<And>p. p \<notin> set (group_pkts gs) \<Longrightarrow> h2 p = h1 p"
    and f2: "\<And>sa' ms' p flags. (sa', ms') \<in> set gs \<Longrightarrow> (p, flags) \<in> set ms' \<Longrightarrow>
       \<exists>m m'. h1 p = Some m \<and> h2 p = Some m' \<and> finished_pkt sa' flags m m'" by fast
  have "\<exists>m m'. h p = Some m \<and> h2 p = Some m' \<and> finished_pkt sa' flags m m'"
    if "(sa', ms') \<in> set (g # gs)" "(p, flags) \<in> set ms'" for sa' ms' p flags
  proof (cases "(sa', ms') = g")
    case True
    with that have p: "(p, flags) \<in> set ms" "sa' = sa" by (auto simp: g)
    hence "p \<notin> set (group_pkts gs)" using dis by force
    with s2(2) f1 p show ?thesis by fastforce
  next
    case False
    with that have gs: "(sa', ms') \<in> set gs" by auto
    hence "p \<in> set (group_pkts gs)" using that(2) by (force simp: group_pkts_def)
    hence "p \<notin> fst ` set ms" using dis by blast
    with f2[OF gs that(2)] s1(2) show ?thesis by simp
  qed
  moreover have "h2 p = h p" if "p \<notin> set (group_pkts (g # gs))" for p using that s1(2) s2(2) by (simp add: pk)
  moreover have "foldM (finish_group C N) (g # gs) (h, d) = Some (h2, d2)" using s1(1) s2(1) by (simp add: g)
  ultimately show ?case by fast
qed (simp add: group_pkts_def)

lemma group_pairs:
  "map (fst \<circ> snd) (concat (map (\<lambda>(sa, ms). map (\<lambda>(p, flags). (sa, p, Q flags)) ms) gs)) = group_pkts gs"
  by (induction gs) (auto simp: group_pkts_def)

text \<open>The packets of the groups are those of the operations that came back.\<close>

lemma completed_groups:
  assumes own: "mset (map fst got) + q \<subseteq># mset (take (length F) ops)" and ops: "distinct ops" "length F \<le> length ops"
    and F: "distinct (map snd F)"
  obtains completed where "those (map (completed_op (zip ops F)) got) = Some completed"
    "distinct (group_pkts (rte_ipsec_pkt_crypto_group C completed))"
    "\<And>sa ms p flags. (sa, ms) \<in> set (rte_ipsec_pkt_crypto_group C completed) \<Longrightarrow> (p, flags) \<in> set ms \<Longrightarrow> (sa, p) \<in> set F"
proof -
  define live where "live = zip ops F"
  define completed where "completed = map (\<lambda>(op, status). (fst (the (map_of live op)), snd (the (map_of live op)), status)) got"
  define gs where "gs = rte_ipsec_pkt_crypto_group C completed"
  have keys: "map fst live = take (length F) ops" "map snd live = F" using ops(2) by (simp_all add: live_def map_fst_zip_take map_snd_zip_take)
  have sub: "mset (map fst got) \<subseteq># mset (take (length F) ops)" using subset_mset.order_trans[OF mset_subset_eq_add_left own] .
  have dist: "distinct (map fst got)" using distinct_submset[OF sub distinct_take[OF ops(1)]] .
  have within: "set (map fst got) \<subseteq> set (map fst live)" using set_mset_mono[OF sub] by (simp add: keys)
  have res: "those (map (completed_op live) got) = Some completed" unfolding completed_def by (rule completed_ops[OF within])
  have lk: "\<exists>x. map_of live op = Some x \<and> (op, x) \<in> set live" if "op \<in> set (map fst got)" for op
  proof -
    from that within have "op \<in> fst ` set live" by auto
    then obtain x where "map_of live op = Some x" using map_of_eq_None_iff[of live op] by blast
    thus ?thesis using map_of_SomeD by fast
  qed
  have inj: "inj_on (\<lambda>op. snd (the (map_of live op))) (set (map fst got))"
  proof (rule inj_onI)
    fix a b assume a: "a \<in> set (map fst got)" and b: "b \<in> set (map fst got)"
      and eq: "snd (the (map_of live a)) = snd (the (map_of live b))"
    from lk[OF a] obtain x where x: "map_of live a = Some x" "(a, x) \<in> set live" by blast
    from lk[OF b] obtain y where y: "map_of live b = Some y" "(b, y) \<in> set live" by blast
    have "map (\<lambda>e. snd (snd e)) live = map snd F" unfolding keys(2)[symmetric] by simp
    hence "distinct (map (\<lambda>e. snd (snd e)) live)" using F by simp
    hence "inj_on (\<lambda>e. snd (snd e)) (set live)" by (simp add: distinct_map)
    from inj_onD[OF this _ x(2) y(2)] x(1) y(1) eq have "(a, x) = (b, y)" by simp
    thus "a = b" by simp
  qed
  have "map (fst \<circ> snd) completed = map (\<lambda>op. snd (the (map_of live op))) (map fst got)"
    by (simp add: completed_def case_prod_beta' comp_def)
  moreover have "distinct (map (\<lambda>op. snd (the (map_of live op))) (map fst got))"
    using dist inj distinct_map[of "\<lambda>op. snd (the (map_of live op))" "map fst got"] by blast
  ultimately have dc: "distinct (map (fst \<circ> snd) completed)" by (simp only:)
  define pairs where "pairs = concat (map (\<lambda>(sa, ms). map (\<lambda>(p, flags). (sa, p, RX_SEC_OFFLOAD_FAILED \<notin> flags)) ms) gs)"
  have perm: "mset pairs = mset completed" unfolding pairs_def gs_def by (rule group)
  have eq: "map (fst \<circ> snd) pairs = group_pkts gs" unfolding pairs_def by (rule group_pairs)
  have "mset (map (fst \<circ> snd) pairs) = mset (map (fst \<circ> snd) completed)" unfolding mset_map perm ..
  from mset_eq_imp_distinct_iff[OF this] dc have dg: "distinct (group_pkts gs)" unfolding eq by blast
  have "(sa, p) \<in> set F" if "(sa, ms) \<in> set gs" "(p, flags) \<in> set ms" for sa ms p flags
  proof -
    have "(sa, p, RX_SEC_OFFLOAD_FAILED \<notin> flags) \<in> set pairs" using that by (force simp: pairs_def)
    hence "(sa, p, RX_SEC_OFFLOAD_FAILED \<notin> flags) \<in> set completed" unfolding mset_eq_setD[OF perm] .
    then obtain op st where op: "(op, st) \<in> set got" "(sa, p) = the (map_of live op)" by (auto simp: completed_def)
    have "op \<in> set (map fst got)" using op(1) by force
    from lk[OF this] op(2) have "(op, sa, p) \<in> set live" by auto
    thus ?thesis unfolding live_def by (rule set_zip_rightD)
  qed
  with res dg show ?thesis unfolding live_def gs_def by (rule that)
qed

text \<open>What a node does with a packet of a burst: it is dropped, or it went through the session
  of the association found under its key, which admitted it.\<close>

definition protected_pkt :: "ipsec_lib \<Rightarrow> ipsec_state \<Rightarrow> rte_mbuf \<Rightarrow> rte_mbuf \<Rightarrow> bool" where
  "protected_pkt L s m m' \<longleftrightarrow> (\<exists>k sa m1 m2. cn_key N m = Some k \<and> dp_ipsec_lookup_sa L s [k] = [Some sa]
     \<and> cn_admit N sa (set_crypto_failed True m) = Some (True, m1) \<and> same_meta m1 m2 \<and> protected_data sa (pkt_data m2)
     \<and> m' = cn_finish N m2)"

lemma burst_edges:
  assumes "\<And>p. p \<in> set objs \<Longrightarrow> \<exists>m. h' p = Some m \<and> cn_next N m \<noteq> None"
  shows "\<exists>edges. node_edges N objs h' = Some edges \<and> length edges = length objs
    \<and> (\<forall>i < length objs. \<exists>m. h' (objs ! i) = Some m \<and> cn_next N m = Some (edges ! i))"
proof -
  have "node_edges N objs h' = Some (map (\<lambda>p. the (cn_next N (the (h' p)))) objs)"
    unfolding node_edges_def by (rule those_map_eq) (use assms in fastforce)
  moreover have "\<exists>m. h' (objs ! i) = Some m \<and> cn_next N m = Some (the (cn_next N (the (h' (objs ! i)))))" if "i < length objs" for i
    using assms[of "objs ! i"] that by auto
  ultimately show ?thesis by (intro exI[of _ "map (\<lambda>p. the (cn_next N (the (h' p)))) objs"]) simp
qed

lemma burst_result:
  assumes run: "crypto_node_process L s C N objs (h, d) = do { edges \<leftarrow> node_edges N objs h'; Some (edges, h', d') }"
    and each: "\<And>p. p \<in> set objs \<Longrightarrow> \<exists>m m'. h p = Some m \<and> h' p = Some m' \<and> (mark_crypto_failed (mb_mark m') \<or> protected_pkt L s m m')"
    and goes: "\<And>p m m'. p \<in> set objs \<Longrightarrow> h p = Some m \<Longrightarrow> protected_pkt L s m m' \<Longrightarrow> cn_next N m' \<noteq> None"
  shows "\<exists>edges h' d'. crypto_node_process L s C N objs (h, d) = Some (edges, h', d') \<and> length edges = length objs
    \<and> (\<forall>i < length objs. \<exists>m m'. h (objs ! i) = Some m \<and> h' (objs ! i) = Some m' \<and> cn_next N m' = Some (edges ! i)
        \<and> (edges ! i = To_drop \<or> protected_pkt L s m m'))"
proof -
  have nx: "\<exists>m. h' p = Some m \<and> cn_next N m \<noteq> None" if "p \<in> set objs" for p
    using each[OF that] goes[OF that] failed_dropped by fastforce
  from burst_edges[of objs h', OF nx] obtain edges where e: "node_edges N objs h' = Some edges" "length edges = length objs"
    "\<forall>i < length objs. \<exists>m. h' (objs ! i) = Some m \<and> cn_next N m = Some (edges ! i)" by blast
  have "\<exists>m m'. h (objs ! i) = Some m \<and> h' (objs ! i) = Some m' \<and> cn_next N m' = Some (edges ! i)
      \<and> (edges ! i = To_drop \<or> protected_pkt L s m m')" if "i < length objs" for i
    using each[OF nth_mem[OF that]] e(3) that failed_dropped by fastforce
  with run e(1,2) show ?thesis by auto
qed

text \<open>The packets and the device after a burst whose operations could be allocated.\<close>

lemma burst_packets:
  assumes idle: "queued d = {#}" and objs: "distinct objs" "length keys = length objs" and ops: "distinct ops" "length ops = length objs"
    and pkts: "\<forall>p \<in> set objs. hm p \<noteq> None"
    and admits: "\<forall>k sa m. dp_ipsec_lookup_sa L s [k] = [Some sa] \<longrightarrow> cn_admit N sa m \<noteq> None"
  shows "\<exists>h2 d2 F h3 d3. foldM (frame_packet C N) (zip objs (dp_ipsec_lookup_sa L s keys)) (hm, d, []) = Some (h2, d2, F)
    \<and> (if F = [] then Some (h2, d2) else case dp_ipsec_process_burst C (take (length F) ops) d2 of (got, d) \<Rightarrow> do {
        completed \<leftarrow> those (map (completed_op (zip ops F)) got);
        foldM (finish_group C N) (rte_ipsec_pkt_crypto_group C completed) (h2, d) }) = Some (h3, d3)
    \<and> (\<forall>i < length objs. \<exists>m m'. hm (objs ! i) = Some m \<and> h3 (objs ! i) = Some m' \<and> (mb_mark m' = mb_mark m \<or>
       (\<exists>sa m1 m2. dp_ipsec_lookup_sa L s [keys ! i] = [Some sa] \<and> cn_admit N sa m = Some (True, m1) \<and> same_meta m1 m2
          \<and> protected_data sa (pkt_data m2) \<and> m' = cn_finish N m2)))"
proof -
  have that: ?thesis if "foldM (frame_packet C N) (zip objs (dp_ipsec_lookup_sa L s keys)) (hm, d, []) = Some (h2, d2, F)"
    "(if F = [] then Some (h2, d2) else case dp_ipsec_process_burst C (take (length F) ops) d2 of (got, d) \<Rightarrow> do {
        completed \<leftarrow> those (map (completed_op (zip ops F)) got);
        foldM (finish_group C N) (rte_ipsec_pkt_crypto_group C completed) (h2, d) }) = Some (h3, d3)"
    "\<And>i. i < length objs \<Longrightarrow> \<exists>m m'. hm (objs ! i) = Some m \<and> h3 (objs ! i) = Some m' \<and> (mb_mark m' = mb_mark m \<or>
       (\<exists>sa m1 m2. dp_ipsec_lookup_sa L s [keys ! i] = [Some sa] \<and> cn_admit N sa m = Some (True, m1) \<and> same_meta m1 m2
          \<and> protected_data sa (pkt_data m2) \<and> m' = cn_finish N m2))" for h2 d2 F h3 d3
    using that by blast
  let ?sas = "dp_ipsec_lookup_sa L s keys" and ?xs = "zip objs (dp_ipsec_lookup_sa L s keys)"
  have len: "length ?sas = length objs" by (metis lookup_sa_single(1) length_map objs(2))
  have sas: "?sas ! i = Some sa \<longleftrightarrow> dp_ipsec_lookup_sa L s [keys ! i] = [Some sa]" if "i < length objs" for i sa
    using that objs(2) lookup_sa_single(2)[of L s "keys ! i"]
    by (subst lookup_sa_single(1)) (simp, metis list.sel(1))
  have xs: "map fst ?xs = objs" by (simp add: len)
  have "\<exists>m. hm p = Some m \<and> (\<forall>sa. so = Some sa \<longrightarrow> cn_admit N sa m \<noteq> None)" if "(p, so) \<in> set ?xs" for p so
  proof -
    from that obtain i where i: "i < length objs" "p = objs ! i" "so = ?sas ! i" by (auto simp: in_set_zip)
    have "p \<in> set objs" using i by simp
    with pkts obtain m where "hm p = Some m" by blast
    with i sas[OF i(1)] admits show ?thesis by simp
  qed
  with frame_packets[of ?xs hm d "[]"] xs objs(1) obtain h2 d2 F where
    fr: "foldM (frame_packet C N) ?xs (hm, d, []) = Some (h2, d2, F)" "queued d2 = queued d" "distinct (map snd F)"
    "set F \<subseteq> {(sa, p). (p, Some sa) \<in> set ?xs}"
    "\<forall>(p, so) \<in> set ?xs. \<exists>m m'. hm p = Some m \<and> h2 p = Some m' \<and> framed_pkt m so m' (p \<in> snd ` set F)"
    by (auto simp del: map_fst_zip)
  have Fo: "snd ` set F \<subseteq> set objs"
  proof
    fix p assume "p \<in> snd ` set F"
    then obtain sa where "(p, Some sa) \<in> set ?xs" using fr(4) by auto
    thus "p \<in> set objs" by (rule set_zip_leftD)
  qed
  have lenF: "length F \<le> length ops"
    using card_mono[OF _ Fo] fr(3) objs(1) ops(2) by (metis List.finite_set distinct_card length_map list.set_map)
  have framed: "\<exists>m m'. hm (objs ! i) = Some m \<and> h2 (objs ! i) = Some m' \<and> framed_pkt m (?sas ! i) m' (objs ! i \<in> snd ` set F)"
    if "i < length objs" for i
    using bspec[OF fr(5), of "(objs ! i, ?sas ! i)"] that len by (force simp: in_set_zip)
  show ?thesis
  proof (cases "F = []")
    case True
    have "\<exists>m m'. hm (objs ! i) = Some m \<and> h2 (objs ! i) = Some m' \<and> mb_mark m' = mb_mark m" if "i < length objs" for i
      using framed[OF that] by (auto simp: framed_pkt_def)
    thus ?thesis by (intro that[OF fr(1), of h2 d2]) (use True in \<open>simp, blast\<close>)
  next
    case False
    obtain got d3 where got: "dp_ipsec_process_burst C (take (length F) ops) d2 = (got, d3)" by fastforce
    from process_burst_own[OF got] fr(2) idle have own: "mset (map fst got) + queued d3 \<subseteq># mset (take (length F) ops)" by simp
    from completed_groups[OF own ops(1) lenF fr(3)] obtain completed where
      c: "those (map (completed_op (zip ops F)) got) = Some completed"
      "distinct (group_pkts (rte_ipsec_pkt_crypto_group C completed))"
      "\<And>sa ms p flags. (sa, ms) \<in> set (rte_ipsec_pkt_crypto_group C completed) \<Longrightarrow> (p, flags) \<in> set ms \<Longrightarrow> (sa, p) \<in> set F"
      by blast
    let ?gs = "rte_ipsec_pkt_crypto_group C completed"
    have gsF: "\<exists>sa. (sa, p) \<in> set F" if "p \<in> set (group_pkts ?gs)" for p
      using that c(3) unfolding group_pkts_def by fastforce
    have "\<forall>p \<in> set (group_pkts ?gs). h2 p \<noteq> None"
    proof
      fix p assume "p \<in> set (group_pkts ?gs)"
      with gsF Fo have "p \<in> set objs" by force
      with framed show "h2 p \<noteq> None" by (metis in_set_conv_nth option.distinct(1))
    qed
    from finish_groups[OF c(2) this, of d3] obtain h3 d4 where
      fin: "foldM (finish_group C N) ?gs (h2, d3) = Some (h3, d4)" "\<And>p. p \<notin> set (group_pkts ?gs) \<Longrightarrow> h3 p = h2 p"
      "\<And>sa ms p flags. (sa, ms) \<in> set ?gs \<Longrightarrow> (p, flags) \<in> set ms \<Longrightarrow> \<exists>m m'. h2 p = Some m \<and> h3 p = Some m' \<and> finished_pkt sa flags m m'"
      by fast
    have each: "\<exists>m m'. hm (objs ! i) = Some m \<and> h3 (objs ! i) = Some m' \<and> (mb_mark m' = mb_mark m \<or>
       (\<exists>sa m1 m2. dp_ipsec_lookup_sa L s [keys ! i] = [Some sa] \<and> cn_admit N sa m = Some (True, m1) \<and> same_meta m1 m2
          \<and> protected_data sa (pkt_data m2) \<and> m' = cn_finish N m2))" if i: "i < length objs" for i
    proof -
      from framed[OF i] obtain m m1 where m: "hm (objs ! i) = Some m" "h2 (objs ! i) = Some m1"
        "framed_pkt m (?sas ! i) m1 (objs ! i \<in> snd ` set F)" by blast
      show ?thesis
      proof (cases "objs ! i \<in> set (group_pkts ?gs)")
        case False
        with fin(2) m show ?thesis by (auto simp: framed_pkt_def)
      next
        case True
        then obtain sa ms flags where g: "(sa, ms) \<in> set ?gs" "(objs ! i, flags) \<in> set ms" by (auto simp: group_pkts_def)
        from c(3)[OF g] have inF: "(sa, objs ! i) \<in> set F" .
        hence "objs ! i \<in> snd ` set F" by force
        with m(3) obtain sa' m0 where adm: "?sas ! i = Some sa'" "cn_admit N sa' m = Some (True, m0)" "same_meta m0 m1"
          by (auto simp: framed_pkt_def)
        from inF fr(4) obtain j where "j < length objs" "objs ! j = objs ! i" "?sas ! j = Some sa" by (auto simp: in_set_zip)
        with adm(1) objs(1) i have "sa' = sa" by (simp add: nth_eq_iff_index_eq)
        moreover from fin(3)[OF g] m(2) obtain m' where m': "h3 (objs ! i) = Some m'" "finished_pkt sa flags m1 m'" by auto
        ultimately have sa: "dp_ipsec_lookup_sa L s [keys ! i] = [Some sa]" "cn_admit N sa m = Some (True, m0)"
          using adm sas[OF i] by simp_all
        from m'(2) obtain m2 where m2: "same_meta m1 m2" "m' = cn_refuse N m2 \<or> m' = cn_finish N m2 \<and> protected_data sa (pkt_data m2)"
          unfolding finished_pkt_def by blast
        have marks: "mb_mark m2 = mb_mark m" "same_meta m0 m2" using m2(1) m(3) adm(3) by (auto simp: framed_pkt_def same_meta_def)
        from m2(2) show ?thesis
        proof
          assume "m' = cn_refuse N m2"
          with marks(1) m(1) m'(1) show ?thesis by (simp add: refuse_mark)
        next
          assume "m' = cn_finish N m2 \<and> protected_data sa (pkt_data m2)"
          with sa marks(2) m(1) m'(1) show ?thesis by blast
        qed
      qed
    qed
    show ?thesis by (rule that[OF fr(1) _ each, of d4]) (use False got c(1) fin(1) in simp_all)
  qed
qed

lemma node_process_safe:
  assumes idle: "queued d = {#}" and objs: "distinct objs"
    and pkts: "\<And>p. p \<in> set objs \<Longrightarrow> \<exists>m. h p = Some m \<and> cn_key N m \<noteq> None"
    and admits: "\<forall>k sa m. dp_ipsec_lookup_sa L s [k] = [Some sa] \<longrightarrow> cn_admit N sa m \<noteq> None"
    and goes: "\<And>p m m'. p \<in> set objs \<Longrightarrow> h p = Some m \<Longrightarrow> protected_pkt L s m m' \<Longrightarrow> cn_next N m' \<noteq> None"
  shows "\<exists>edges h' d'. crypto_node_process L s C N objs (h, d) = Some (edges, h', d') \<and> length edges = length objs
    \<and> (\<forall>i < length objs. \<exists>m m'. h (objs ! i) = Some m \<and> h' (objs ! i) = Some m' \<and> cn_next N m' = Some (edges ! i)
        \<and> (edges ! i = To_drop \<or> protected_pkt L s m m'))"
proof -
  define h1 where "h1 = (\<lambda>p. if p \<in> set objs then map_option (set_crypto_failed True) (h p) else h p)"
  have mark: "foldM mark_failed objs h = Some h1" unfolding h1_def by (rule foldM_mark_failed) (use pkts in fastforce)
  have h1: "\<exists>m. h p = Some m \<and> h1 p = Some (set_crypto_failed True m)" if "p \<in> set objs" for p
    using pkts[OF that] that by (auto simp: h1_def)
  show ?thesis
  proof (cases "rte_crypto_op_bulk_alloc C (length objs) d")
    case None
    show ?thesis
    proof (rule burst_result[of L s objs h d h1 d])
      show "crypto_node_process L s C N objs (h, d) = do { edges \<leftarrow> node_edges N objs h1; Some (edges, h1, d) }"
        by (simp add: crypto_node_process_def None mark)
    qed (use h1 goes in fastforce)+
  next
    case (Some ops)
    define keys where "keys = map (\<lambda>p. the (cn_key N (the (h1 p)))) objs"
    have kp: "h1 p \<bind> cn_key N = Some (the (cn_key N (the (h1 p))))" if "p \<in> set objs" for p
      using h1[OF that] pkts[OF that] by (auto simp: key_mark)
    have keys: "those (map (\<lambda>p. do { m \<leftarrow> h1 p; cn_key N m }) objs) = Some keys"
      unfolding keys_def by (rule those_map_eq) (use kp in simp)
    have len: "length keys = length objs" by (simp add: keys_def)
    from alloc[OF Some] have ops: "distinct ops" "length ops = length objs" by simp_all
    have h1ne: "\<forall>p \<in> set objs. h1 p \<noteq> None" using h1 by fastforce
    obtain h2 d2 F h3 d3 where
      fr: "foldM (frame_packet C N) (zip objs (dp_ipsec_lookup_sa L s keys)) (h1, d, []) = Some (h2, d2, F)"
      and fin: "(if F = [] then Some (h2, d2) else case dp_ipsec_process_burst C (take (length F) ops) d2 of (got, d) \<Rightarrow> do {
        completed \<leftarrow> those (map (completed_op (zip ops F)) got);
        foldM (finish_group C N) (rte_ipsec_pkt_crypto_group C completed) (h2, d) }) = Some (h3, d3)"
      and each: "\<And>i. i < length objs \<Longrightarrow> \<exists>m m'. h1 (objs ! i) = Some m \<and> h3 (objs ! i) = Some m' \<and> (mb_mark m' = mb_mark m \<or>
       (\<exists>sa m1 m2. dp_ipsec_lookup_sa L s [keys ! i] = [Some sa] \<and> cn_admit N sa m = Some (True, m1) \<and> same_meta m1 m2
          \<and> protected_data sa (pkt_data m2) \<and> m' = cn_finish N m2))"
      using burst_packets[OF idle objs len ops h1ne admits] by blast
    show ?thesis
    proof (rule burst_result[of L s objs h d h3 d3])
      show "crypto_node_process L s C N objs (h, d) = do { edges \<leftarrow> node_edges N objs h3; Some (edges, h3, d3) }"
        unfolding crypto_node_process_def prod.case Some option.case mark keys Option.bind.bind_lunit Let_def fr fin ..
    next
      fix p assume "p \<in> set objs"
      then obtain i where i: "i < length objs" "p = objs ! i" by (auto simp: in_set_conv_nth)
      from h1[of p] i obtain m where m: "h p = Some m" "h1 p = Some (set_crypto_failed True m)" by auto
      have k: "cn_key N m = Some (keys ! i)" using pkts[of p] i m by (auto simp: keys_def key_mark)
      from each[OF i(1)] m i(2) obtain m' where m': "h3 p = Some m'" "mb_mark m' = mb_mark (set_crypto_failed True m) \<or>
         (\<exists>sa m1 m2. dp_ipsec_lookup_sa L s [keys ! i] = [Some sa] \<and> cn_admit N sa (set_crypto_failed True m) = Some (True, m1)
            \<and> same_meta m1 m2 \<and> protected_data sa (pkt_data m2) \<and> m' = cn_finish N m2)" by auto
      from m'(2) have "mark_crypto_failed (mb_mark m') \<or> protected_pkt L s m m'"
        using k unfolding protected_pkt_def by auto
      with m(1) m'(1) show "\<exists>m m'. h p = Some m \<and> h3 p = Some m' \<and> (mark_crypto_failed (mb_mark m') \<or> protected_pkt L s m m')"
        by blast
    qed (rule goes)
  qed
qed

end

sublocale crypto_library \<subseteq> encap: secured_node C queued protected_data "ipsec_encap_node ports tx" for ports tx
  by unfold_locales
    (simp_all add: ipsec_encap_node_def ipsec_encap_build_key_def clear_sec_flags_def ipsec_encap_next_def)

sublocale crypto_library \<subseteq> decap: secured_node C queued protected_data "ipsec_decap_node s lib ports vst" for s lib ports vst
  by unfold_locales
    (auto simp: ipsec_decap_node_def ipsec_decap_build_key_def ipsec_decap_admit_def ipsec_decap_next_def Let_def bind_eq_Some_conv
      split: prod.splits option.splits)

lemma clear_sec_flags_simps [simp]:
  "mb_df (clear_sec_flags m) = mb_df m" "mb_mark (clear_sec_flags m) = mb_mark m" "pkt_data (clear_sec_flags m) = pkt_data m"
  by (simp_all add: clear_sec_flags_def pkt_data_def)

lemma encap_node_simps:
  "cn_key (ipsec_encap_node ports tx) = ipsec_encap_build_key ports" "cn_admit (ipsec_encap_node ports tx) sa m = Some (True, m)"
  "cn_finish (ipsec_encap_node ports tx) m = clear_sec_flags (set_crypto_failed False m)"
  "cn_next (ipsec_encap_node ports tx) = ipsec_encap_next tx"
  by (simp_all add: ipsec_encap_node_def)

lemma decap_node_simps:
  "cn_key (ipsec_decap_node s lib ports vst) m = Some (ipsec_decap_build_key m)"
  "cn_admit (ipsec_decap_node s lib ports vst) = ipsec_decap_admit s lib ports vst"
  "cn_finish (ipsec_decap_node s lib ports vst) = ipsec_decap_finish" "cn_next (ipsec_decap_node s lib ports vst) = ipsec_decap_next"
  by (simp_all add: ipsec_decap_node_def)

lemma decap_finish_cases:
  assumes "\<not> mark_crypto_failed (mb_mark (ipsec_decap_finish m))" "mark_crypto_failed (mb_mark m)"
  shows "pkt_data (ipsec_decap_finish m) = pkt_data m" "df_tun_dst_vni (mb_df (ipsec_decap_finish m)) = df_tun_dst_vni (mb_df m)"
    "df_nxt_hop (mb_df (ipsec_decap_finish m)) = df_nxt_hop (mb_df m)"
    "df_l3_type (mb_df (ipsec_decap_finish m)) =
       (if get8 (mb_buf m) (mb_off m + 20) = IPPROTO_IPIP then RTE_ETHER_TYPE_IPV4 else RTE_ETHER_TYPE_IPV6)"
    "get8 (mb_buf m) (mb_off m + 20) \<in> {IPPROTO_IPIP, IPPROTO_IPV6}"
  using assms by (simp_all add: ipsec_decap_finish_def ipsec_decap_restore_flow_def Let_def pkt_data_def ac_simps split: if_splits)

context crypto_library
begin

lemma encap_burst:
  assumes idle: "queued d = {#}" and objs: "distinct objs"
    and pkts: "\<forall>p\<in>set objs. \<exists>m port. h p = Some m \<and> dp_get_port_by_id ports (mb_port m) = Some port
      \<and> next_tx tx (df_nxt_hop (mb_df m)) \<noteq> None"
  shows "\<exists>edges h' d'. ipsec_encap_node_process L s C ports tx objs (h, d) = Some (edges, h', d') \<and> length edges = length objs
    \<and> (\<forall>i<length objs. edges ! i \<noteq> To_drop \<longrightarrow> (\<exists>m m' k p. h (objs ! i) = Some m \<and> h' (objs ! i) = Some m'
        \<and> ipsec_encap_build_key ports m = Some k \<and> dp_ipsec_lookup_sa L s [k] = [Some p]
        \<and> protected_data p (pkt_data m') \<and> next_tx tx (df_nxt_hop (mb_df m)) = Some (edges ! i)))"
proof -
  let ?N = "ipsec_encap_node ports tx"
  have P: "\<exists>k p. ipsec_encap_build_key ports m = Some k \<and> dp_ipsec_lookup_sa L s [k] = [Some p] \<and> protected_data p (pkt_data m')
      \<and> cn_next ?N m' = next_tx tx (df_nxt_hop (mb_df m))" if "encap.protected_pkt ports tx L s m m'" for m m'
    using that by (auto simp: encap.protected_pkt_def encap_node_simps same_meta_def ipsec_encap_next_def)
  have "\<exists>edges h' d'. crypto_node_process L s C ?N objs (h, d) = Some (edges, h', d') \<and> length edges = length objs
    \<and> (\<forall>i < length objs. \<exists>m m'. h (objs ! i) = Some m \<and> h' (objs ! i) = Some m' \<and> cn_next ?N m' = Some (edges ! i)
        \<and> (edges ! i = To_drop \<or> encap.protected_pkt ports tx L s m m'))"
  proof (rule encap.node_process_safe[OF idle objs])
    fix p assume "p \<in> set objs"
    with pkts show "\<exists>m. h p = Some m \<and> cn_key ?N m \<noteq> None"
      by (fastforce simp: encap_node_simps ipsec_encap_build_key_def Let_def)
  next
    fix p m m' assume "p \<in> set objs" "h p = Some m" "encap.protected_pkt ports tx L s m m'"
    with pkts P show "cn_next ?N m' \<noteq> None" by fastforce
  qed (simp add: encap_node_simps)
  then obtain edges h' d' where e: "crypto_node_process L s C ?N objs (h, d) = Some (edges, h', d')" "length edges = length objs"
    "\<And>i. i < length objs \<Longrightarrow> \<exists>m m'. h (objs ! i) = Some m \<and> h' (objs ! i) = Some m' \<and> cn_next ?N m' = Some (edges ! i)
        \<and> (edges ! i = To_drop \<or> encap.protected_pkt ports tx L s m m')" by blast
  have "\<exists>m m' k p. h (objs ! i) = Some m \<and> h' (objs ! i) = Some m'
        \<and> ipsec_encap_build_key ports m = Some k \<and> dp_ipsec_lookup_sa L s [k] = [Some p]
        \<and> protected_data p (pkt_data m') \<and> next_tx tx (df_nxt_hop (mb_df m)) = Some (edges ! i)"
    if i: "i < length objs" "edges ! i \<noteq> To_drop" for i
  proof -
    from e(3)[OF i(1)] i(2) obtain m m' where m: "h (objs ! i) = Some m" "h' (objs ! i) = Some m'" "cn_next ?N m' = Some (edges ! i)"
      "encap.protected_pkt ports tx L s m m'" by blast
    from P[OF m(4)] m(1-3) show ?thesis by auto
  qed
  with e(1,2) show ?thesis unfolding ipsec_encap_node_process_def by blast
qed

lemma decap_burst:
  assumes idle: "queued d = {#}" and objs: "distinct objs" and pkts: "\<forall>p\<in>set objs. h p \<noteq> None"
    and sas: "\<forall>k p. dp_ipsec_lookup_sa L s [k] = [Some p] \<longrightarrow> ips_heap s p \<noteq> None"
  shows "\<exists>edges h' d'. ipsec_decap_node_process L s C lib ports vst objs (h, d) = Some (edges, h', d') \<and> length edges = length objs
    \<and> (\<forall>i<length objs. edges ! i \<noteq> To_drop \<longrightarrow> edges ! i = To_ipip_decap \<and> (\<exists>m m' p sa dst df. h (objs ! i) = Some m \<and> h' (objs ! i) = Some m'
        \<and> dp_ipsec_lookup_sa L s [ipsec_decap_build_key m] = [Some p] \<and> ips_heap s p = Some sa \<and> protected_data p (pkt_data m')
        \<and> dp_vnf_resolve_tunnel_dst lib ports vst (mb_df m) = (Some dst, df) \<and> df_tun_dst_vni df = sa_vni sa
        \<and> df_tun_dst_vni (mb_df m') = sa_vni sa \<and> df_nxt_hop (mb_df m') = df_nxt_hop df
        \<and> df_l3_type (mb_df m') \<in> {RTE_ETHER_TYPE_IPV4, RTE_ETHER_TYPE_IPV6}))"
proof -
  let ?N = "ipsec_decap_node s lib ports vst"
  have "\<exists>edges h' d'. crypto_node_process L s C ?N objs (h, d) = Some (edges, h', d') \<and> length edges = length objs
    \<and> (\<forall>i < length objs. \<exists>m m'. h (objs ! i) = Some m \<and> h' (objs ! i) = Some m' \<and> cn_next ?N m' = Some (edges ! i)
        \<and> (edges ! i = To_drop \<or> decap.protected_pkt s lib ports vst L s m m'))"
  proof (rule decap.node_process_safe[OF idle objs])
    show "\<forall>k p m. dp_ipsec_lookup_sa L s [k] = [Some p] \<longrightarrow> cn_admit ?N p m \<noteq> None"
      using sas by (fastforce simp: decap_node_simps ipsec_decap_admit_def split: prod.splits option.splits)
  qed (use pkts in \<open>fastforce simp: decap_node_simps ipsec_decap_next_def\<close>)+
  then obtain edges h' d' where e: "crypto_node_process L s C ?N objs (h, d) = Some (edges, h', d')" "length edges = length objs"
    "\<And>i. i < length objs \<Longrightarrow> \<exists>m m'. h (objs ! i) = Some m \<and> h' (objs ! i) = Some m' \<and> cn_next ?N m' = Some (edges ! i)
        \<and> (edges ! i = To_drop \<or> decap.protected_pkt s lib ports vst L s m m')" by blast
  have "edges ! i = To_ipip_decap \<and> (\<exists>m m' p sa dst df. h (objs ! i) = Some m \<and> h' (objs ! i) = Some m'
        \<and> dp_ipsec_lookup_sa L s [ipsec_decap_build_key m] = [Some p] \<and> ips_heap s p = Some sa \<and> protected_data p (pkt_data m')
        \<and> dp_vnf_resolve_tunnel_dst lib ports vst (mb_df m) = (Some dst, df) \<and> df_tun_dst_vni df = sa_vni sa
        \<and> df_tun_dst_vni (mb_df m') = sa_vni sa \<and> df_nxt_hop (mb_df m') = df_nxt_hop df
        \<and> df_l3_type (mb_df m') \<in> {RTE_ETHER_TYPE_IPV4, RTE_ETHER_TYPE_IPV6})"
    if i: "i < length objs" "edges ! i \<noteq> To_drop" for i
  proof -
    from e(3)[OF i(1)] i(2) obtain m m' where m: "h (objs ! i) = Some m" "h' (objs ! i) = Some m'" "cn_next ?N m' = Some (edges ! i)"
      "decap.protected_pkt s lib ports vst L s m m'" by blast
    hence fin: "\<not> mark_crypto_failed (mb_mark m')" "edges ! i = To_ipip_decap"
      using i(2) by (auto simp: decap_node_simps ipsec_decap_next_def split: if_splits)
    from m(4) obtain p m1 m2 where pr: "dp_ipsec_lookup_sa L s [ipsec_decap_build_key m] = [Some p]"
      "ipsec_decap_admit s lib ports vst p (set_crypto_failed True m) = Some (True, m1)" "same_meta m1 m2"
      "protected_data p (pkt_data m2)" "m' = ipsec_decap_finish m2"
      unfolding decap.protected_pkt_def decap_node_simps by blast
    from pr(2) obtain dst df sa where adm: "dp_vnf_resolve_tunnel_dst lib ports vst (mb_df m) = (Some dst, df)" "ips_heap s p = Some sa"
      "df_tun_dst_vni df = sa_vni sa" "m1 = (set_crypto_failed True m)\<lparr> mb_df := df \<rparr>"
      by (auto simp: ipsec_decap_admit_def bind_eq_Some_conv split: prod.splits option.splits)
    have "mark_crypto_failed (mb_mark m2)" "mb_df m2 = df" using pr(3) adm(4) by (simp_all add: same_meta_def)
    with decap_finish_cases[of m2] fin(1) pr(4,5) have "protected_data p (pkt_data m')" "df_tun_dst_vni (mb_df m') = df_tun_dst_vni df"
      "df_nxt_hop (mb_df m') = df_nxt_hop df" "df_l3_type (mb_df m') \<in> {RTE_ETHER_TYPE_IPV4, RTE_ETHER_TYPE_IPV6}" by auto
    with m(1,2) pr(1) adm fin(2) show ?thesis by auto
  qed
  with e(1,2) show ?thesis unfolding ipsec_decap_node_process_def by blast
qed

end

text \<open>The association of a packet from another host, whose key is not the zeroed one.\<close>

lemma decap_key_inbound:
  assumes "sa_wf conf sa" "sa_lookup_key sa = ipsec_decap_build_key m"
    "ip6_prefix (get_ipv6 (mb_buf m) (mb_off m + 22)) \<noteq> ip6_prefix (conf_underlay_ip conf)" "ip6_prefix (conf_underlay_ip conf) \<noteq> 0"
  shows "62 \<le> mb_len m \<and> sa_dir sa = DP_IPSEC_DIR_INGRESS \<and> sa_spi sa = get32 (mb_buf m) (mb_off m + 54)"
proof (cases "62 \<le> mb_len m")
  case True
  hence "sa_lookup_key sa = dp_ipsec_build_key (get32 (mb_buf m) (mb_off m + 54))
      (get_ipv6 (mb_buf m) (mb_off m + 22)) (get_ipv6 (mb_buf m) (mb_off m + 38))"
    using assms(2) by (simp add: ipsec_decap_build_key_def Let_def IPSEC_DECAP_MIN_LEN_def ac_simps)
  from wf_key_local[OF assms(1) this] assms(3) True show ?thesis by (cases "sa_dir sa") auto
next
  case False
  have zero: "dp_ipsec_build_key 0 dp_empty_ipv6 dp_empty_ipv6 = \<lparr> key_spi = 0, key_dip = dp_empty_ipv6, key_sip = dp_empty_ipv6 \<rparr>"
    by (simp add: dp_ipsec_build_key_def mask_prefix_def dp_empty_ipv6_def)
  have "sa_lookup_key sa = dp_ipsec_build_key 0 dp_empty_ipv6 dp_empty_ipv6"
    using assms(2) False unfolding zero by (simp add: ipsec_decap_build_key_def Let_def IPSEC_DECAP_MIN_LEN_def)
  from wf_key_local[OF assms(1) this] assms(4) show ?thesis by (simp add: dp_empty_ipv6_def split: if_splits)
qed

section \<open>A reference library\<close>

text \<open>A device that completes what is queued in order.  Finishing a packet writes the
  association into its first bytes, so that it can be told which one it went through.\<close>

definition ref_tag :: "ptr \<Rightarrow> rte_mbuf \<Rightarrow> rte_mbuf" where
  "ref_tag sa m = put (mb_off m) (be32 (of_nat sa)) m"

definition ref_protected :: "ptr \<Rightarrow> bytes \<Rightarrow> bool" where
  "ref_protected sa data \<longleftrightarrow> 4 \<le> length data \<and> get32 data 0 = of_nat sa"

definition ref_finishes :: "ptr \<times> rte_mbuf \<Rightarrow> bool" where
  "ref_finishes = (\<lambda>(p, m). RX_SEC_OFFLOAD_FAILED \<notin> mb_ol_flags m \<and> 4 \<le> mb_len m \<and> mb_off m + mb_len m \<le> length (mb_buf m))"

definition ref_crypto_lib :: "ptr list crypto_lib" where
  "ref_crypto_lib = \<lparr>
     rte_crypto_op_bulk_alloc = (\<lambda>n d. Some [0..<n]),
     rte_ipsec_pkt_crypto_prepare = (\<lambda>sa m d. (True, m, d)),
     rte_cryptodev_enqueue_burst = (\<lambda>ops d. (length ops, d @ ops)),
     rte_cryptodev_dequeue_burst = (\<lambda>n d. (map (\<lambda>x. (x, True)) (take n d), drop n d)),
     rte_ipsec_pkt_crypto_group = map (\<lambda>(sa, p, ok). (sa, [(p, if ok then {RX_SEC_OFFLOAD} else {RX_SEC_OFFLOAD, RX_SEC_OFFLOAD_FAILED})])),
     rte_ipsec_pkt_process = (\<lambda>sa ms d. let ok = filter ref_finishes ms in
        (map (\<lambda>(p, m). (p, ref_tag sa m)) ok @ filter (\<lambda>x. \<not> ref_finishes x) ms, length ok, d)) \<rparr>"

lemma ref_tag_protected: "ref_finishes (p, m) \<Longrightarrow> ref_protected sa (pkt_data (ref_tag sa m))"
proof -
  assume ok: "ref_finishes (p, m)"
  let ?b = "mb_buf (ref_tag sa m)"
  have len: "4 \<le> mb_len m" "mb_off m + mb_len m \<le> length ?b" using ok by (auto simp: ref_finishes_def ref_tag_def)
  have "get8 (take (mb_len m) (drop (mb_off m) ?b)) i = get8 ?b (mb_off m + i)" if "i < 4" for i
    using len that by (simp add: get8_def)
  hence "get32 (pkt_data (ref_tag sa m)) 0 = get32 ?b (mb_off m)"
    by (simp add: pkt_data_def get32_def get16_def) (simp add: ref_tag_def)
  also have "\<dots> = of_nat sa" using len by (simp add: ref_tag_def)
  finally show ?thesis using len by (simp add: ref_protected_def pkt_data_def) (simp add: ref_tag_def)
qed

interpretation refc: crypto_library ref_crypto_lib mset ref_protected
proof
  fix sa ms d out n d' assume "rte_ipsec_pkt_process ref_crypto_lib sa ms d = (out, n, d')"
  hence o: "out = map (\<lambda>(p, m). (p, ref_tag sa m)) (filter ref_finishes ms) @ filter (\<lambda>x. \<not> ref_finishes x) ms"
    "n = length (filter ref_finishes ms)" "d' = d" by (auto simp: ref_crypto_lib_def Let_def)
  have "mset (map fst out) = mset (map fst (filter ref_finishes ms)) + mset (map fst (filter (\<lambda>x. \<not> ref_finishes x) ms))"
    unfolding o by (simp add: case_prod_beta' comp_def)
  also have "\<dots> = mset (map fst ms)" by (induction ms) auto
  moreover have "\<forall>(p, m') \<in> set out. \<exists>m. (p, m) \<in> set ms \<and> same_meta m m'"
    by (auto simp: o same_meta_def ref_tag_def)
  moreover have "\<forall>(p, m') \<in> set (take n out). ref_protected sa (pkt_data m') \<and> (\<exists>m. (p, m) \<in> set ms \<and> RX_SEC_OFFLOAD_FAILED \<notin> mb_ol_flags m)"
    by (auto simp: o(1,2) ref_tag_protected) (auto simp: ref_finishes_def)
  ultimately show "n \<le> length out \<and> mset (map fst out) = mset (map fst ms) \<and> mset d' = mset d
        \<and> (\<forall>(p, m') \<in> set out. \<exists>m. (p, m) \<in> set ms \<and> same_meta m m')
        \<and> (\<forall>(p, m') \<in> set (take n out). ref_protected sa (pkt_data m') \<and> (\<exists>m. (p, m) \<in> set ms \<and> RX_SEC_OFFLOAD_FAILED \<notin> mb_ol_flags m))"
    by (simp add: o)
next
  fix completed
  have "concat (map (\<lambda>(sa, ms). map (\<lambda>(p, flags). (sa, p, RX_SEC_OFFLOAD_FAILED \<notin> flags)) ms)
      (rte_ipsec_pkt_crypto_group ref_crypto_lib completed)) = completed"
    by (induction completed) (auto simp: ref_crypto_lib_def)
  thus "mset (concat (map (\<lambda>(sa, ms). map (\<lambda>(p, flags). (sa, p, RX_SEC_OFFLOAD_FAILED \<notin> flags)) ms)
      (rte_ipsec_pkt_crypto_group ref_crypto_lib completed))) = mset completed" by simp
next
  fix n d got d' assume "rte_cryptodev_dequeue_burst ref_crypto_lib n d = (got, d')"
  hence "got = map (\<lambda>x. (x, True)) (take n d)" "d' = drop n d" by (auto simp: ref_crypto_lib_def)
  thus "length got \<le> n \<and> mset (map fst got) + mset d' = mset d"
    by (simp add: comp_def) (metis append_take_drop_id mset_append)
qed (auto simp: ref_crypto_lib_def same_meta_def)

text \<open>One packet on the reference device.\<close>

lemma ref_burst_one:
  assumes "cn_key N (set_crypto_failed True m) = Some k" "dp_ipsec_lookup_sa L s [k] = [Some sa]"
    "cn_admit N sa (set_crypto_failed True m) = Some (True, m1)"
    "4 \<le> mb_len m1" "mb_off m1 + mb_len m1 \<le> length (mb_buf m1)" "RX_SEC_OFFLOAD_FAILED \<notin> mb_ol_flags m1"
    and m2: "m2 = cn_finish N (ref_tag sa (m1\<lparr> mb_l2_len := 14, mb_l3_len := 40, mb_ol_flags := mb_ol_flags m1 \<union> {RX_SEC_OFFLOAD} \<rparr>))"
    and "cn_next N m2 = Some e"
  shows "crypto_node_process L s ref_crypto_lib N [q] ([q \<mapsto> m], []) = Some ([e], [q \<mapsto> m2], [])"
proof -
  have "dp_ipsec_process_burst ref_crypto_lib [0] [] = ([(0, True)], [])"
    by (simp add: dp_ipsec_process_burst_def DP_IPSEC_DEQUEUE_RETRIES_def ref_crypto_lib_def numeral_eq_Suc)
  thus ?thesis
    using assms by (simp add: crypto_node_process_def mark_failed_def ref_crypto_lib_def frame_packet_def ipsec_prepare_def
        completed_op_def finish_group_def raise_flags_def ref_finishes_def Let_def node_edges_def)
qed

text \<open>A packet of an interface of network 100 towards the peer of the outbound association
  of the example database, and the peer's packet for an inbound one.\<close>

definition ex_esp_pkt :: "bytes \<Rightarrow> bytes \<Rightarrow> rte_mbuf" where
  "ex_esp_pkt src dst = ex_mbuf IPPROTO_UDP 0 (replicate 20 0 @ [4, 0] @ src @ dst @ [0, 0, 0, 9, 0, 0, 0, 1] @ replicate 16 0)"

definition ex_here :: bytes where "ex_here = replicate 6 0 @ [0xfc, 0] @ replicate 7 0 @ [5]"
definition ex_peer :: bytes where "ex_peer = replicate 6 0 @ [0xfc, 1] @ replicate 7 0 @ [9]"

definition ex_sa_ports :: "dp_port option list" where
  "ex_sa_ports = [Some (dp_port_zero\<lparr> is_pf := True \<rparr>), Some (dp_port_zero\<lparr> port_id := 1, iface := dp_iface_zero\<lparr> if_vni := 100, if_encrypt := True \<rparr> \<rparr>)]"

definition ex_sa_tx :: tx_node where
  "ex_sa_tx = \<lparr> tn_edges = [To_drop, To_tx 0], tn_index = [1, 0] \<rparr>"

definition ex_in_request :: dpgrpc_ipsec_sa where
  "ex_in_request = ex_request\<lparr> req_id := \<lparr> id_spi = 9, id_vni = 100, id_dir = DP_IPSEC_DIR_INGRESS,
       id_src = \<lparr> ip6_prefix = 0xfc01, ip6_suffix = 9 \<rparr>, id_dst = \<lparr> ip6_prefix = 0xfc00, ip6_suffix = 5 \<rparr> \<rparr> \<rparr>"

definition ex_inbound :: ipsec_state where
  "ex_inbound = snd (dp_process_create_security_association ex_conf (ref_ipsec_lib 4) ex_in_request ex_start)"

lemma ex_inbound_inv: "ipsec_inv ex_conf ex_inbound"
  unfolding ex_inbound_def by (rule create_handler_inv [OF ref.ipsec_library_axioms ex_start_inv])

lemma ex_esp_bytes:
  "get_ipv6 (mb_buf (ex_esp_pkt ex_here ex_peer)) 22 = \<lparr> ip6_prefix = 0xfc00, ip6_suffix = 5 \<rparr>"
  "get_ipv6 (mb_buf (ex_esp_pkt ex_here ex_peer)) 38 = \<lparr> ip6_prefix = 0xfc01, ip6_suffix = 9 \<rparr>"
  "get_ipv6 (mb_buf (ex_esp_pkt ex_peer ex_here)) 22 = \<lparr> ip6_prefix = 0xfc01, ip6_suffix = 9 \<rparr>"
  "get_ipv6 (mb_buf (ex_esp_pkt ex_peer ex_here)) 38 = \<lparr> ip6_prefix = 0xfc00, ip6_suffix = 5 \<rparr>"
  "get32 (mb_buf (ex_esp_pkt ex_peer ex_here)) 54 = 9" "get8 (mb_buf (ex_esp_pkt ex_peer ex_here)) 20 = 4"
  by code_simp+

lemma ex_esp_simps:
  "length src = 16 \<Longrightarrow> length dst = 16 \<Longrightarrow> length (mb_buf (ex_esp_pkt src dst)) = 78"
  "length src = 16 \<Longrightarrow> length dst = 16 \<Longrightarrow> mb_len (ex_esp_pkt src dst) = 78"
  "mb_off (ex_esp_pkt src dst) = 0" "mb_port (ex_esp_pkt src dst) = 1" "mb_ol_flags (ex_esp_pkt src dst) = {}"
  "df_nxt_hop (mb_df (ex_esp_pkt src dst)) = 0"
  by (simp_all add: ex_esp_pkt_def ex_mbuf_def dp_init_flow_ptr_def)

section \<open>Properties\<close>


lemma ex_encap_run:
  "\<exists>h'. ipsec_encap_node_process (ref_ipsec_lib 4) ex_one ref_crypto_lib ex_sa_ports ex_sa_tx [7] ([7 \<mapsto> ex_esp_pkt ex_here ex_peer], [])
     = Some ([To_tx 0], h', [])"
proof -
  let ?m = "ex_esp_pkt ex_here ex_peer"
  have len: "length ex_here = 16" "length ex_peer = 16" by (simp_all add: ex_here_def ex_peer_def)
  have k: "cn_key (ipsec_encap_node ex_sa_ports ex_sa_tx) (set_crypto_failed True ?m) =
      Some (dp_ipsec_build_key 100 \<lparr> ip6_prefix = 0xfc00, ip6_suffix = 77 \<rparr> \<lparr> ip6_prefix = 0xfc01, ip6_suffix = 3 \<rparr>)"
    by (simp add: encap_node_simps ipsec_encap_build_key_def ex_esp_simps ex_esp_bytes ex_sa_ports_def dp_get_port_by_id_def
        dp_ipsec_build_key_def mask_prefix_def)
  have "crypto_node_process (ref_ipsec_lib 4) ex_one ref_crypto_lib (ipsec_encap_node ex_sa_ports ex_sa_tx) [7] ([7 \<mapsto> ?m], []) =
      Some ([To_tx 0], [7 \<mapsto> cn_finish (ipsec_encap_node ex_sa_ports ex_sa_tx) (ref_tag 0 ((set_crypto_failed True ?m)
        \<lparr> mb_l2_len := 14, mb_l3_len := 40, mb_ol_flags := mb_ol_flags (set_crypto_failed True ?m) \<union> {RX_SEC_OFFLOAD} \<rparr>))], [])"
    by (rule ref_burst_one[OF k ex_one_found _ _ _ _ refl])
      (simp_all add: encap_node_simps ex_esp_simps len set_crypto_failed_def clear_sec_flags_def ipsec_encap_next_def ref_tag_def
        next_tx_def ex_sa_tx_def)
  thus ?thesis unfolding ipsec_encap_node_process_def by blast
qed



definition ex_from_peer :: rte_mbuf where
  "ex_from_peer = (ex_esp_pkt ex_peer ex_here)\<lparr> mb_df := (mb_df (ex_esp_pkt ex_peer ex_here))
     \<lparr> df_ul_dst_addr6 := \<lparr> ip6_prefix = 0xfc00, ip6_suffix = 5 \<rparr>, df_tun_dst_resolved := False \<rparr> \<rparr>"

definition ex_endpoint :: vnf_state where
  "ex_endpoint = \<lparr> vnf_handle_tbl = [\<lparr> ip6_prefix = 0xfc00, ip6_suffix = 5 \<rparr> \<mapsto> dp_fill_vnf_data DP_VNF_TYPE_INTERFACE_IP 1 100 (IPADDR4 0) 0],
     vnf_value_tbl = Map.empty \<rparr>"

lemma ex_inbound_found: "dp_ipsec_lookup_sa (ref_ipsec_lib 4) ex_inbound [ipsec_decap_build_key ex_from_peer] = [Some 0]"
proof -
  have len: "length ex_here = 16" "length ex_peer = 16" by (simp_all add: ex_here_def ex_peer_def)
  have k: "ipsec_decap_build_key ex_from_peer = dp_ipsec_build_key 9 \<lparr> ip6_prefix = 0xfc01, ip6_suffix = 9 \<rparr> \<lparr> ip6_prefix = 0xfc00, ip6_suffix = 5 \<rparr>"
    by (simp add: ipsec_decap_build_key_def ex_from_peer_def ex_esp_simps ex_esp_bytes len IPSEC_DECAP_MIN_LEN_def)
  show ?thesis unfolding k
    by (simp add: ex_inbound_def ex_in_request_def ex_create_simps Let_def numeral_eq_Suc upt_rec
      dp_ipsec_build_key_def mask_prefix_def)
qed

lemma ex_decap_run:
  "\<exists>h'. ipsec_decap_node_process (ref_ipsec_lib 4) ex_inbound ref_crypto_lib (ref_vnf_lib 4) ex_sa_ports ex_endpoint [7] ([7 \<mapsto> ex_from_peer], [])
     = Some ([To_ipip_decap], h', [])"
proof -
  let ?m = "set_crypto_failed True ex_from_peer" and ?N = "ipsec_decap_node ex_inbound (ref_vnf_lib 4) ex_sa_ports ex_endpoint"
  have len: "length ex_here = 16" "length ex_peer = 16" by (simp_all add: ex_here_def ex_peer_def)
  have k: "cn_key ?N ?m = Some (ipsec_decap_build_key ex_from_peer)"
    by (simp add: decap_node_simps ipsec_decap_build_key_def Let_def)
  from ipsec_library.lookup_found[OF ref.ipsec_library_axioms ex_inbound_inv ex_inbound_found] obtain sa where
    sa: "ips_heap ex_inbound 0 = Some sa" by blast
  have vni: "sa_vni sa = 100" using sa
    by (simp add: ex_inbound_def ex_in_request_def ex_create_simps Let_def numeral_eq_Suc upt_rec) auto
  have "\<exists>df. ipsec_decap_admit ex_inbound (ref_vnf_lib 4) ex_sa_ports ex_endpoint 0 ?m = Some (True, ?m\<lparr> mb_df := df \<rparr>)"
    by (simp add: ipsec_decap_admit_def dp_vnf_resolve_tunnel_dst_def ex_from_peer_def dp_get_vnf_def ref_vnf_lib_def ref_hash_def
        ex_endpoint_def dp_get_port_by_id_def ex_sa_ports_def dp_fill_vnf_data_def sa vni, rule exI, rule refl)
  then obtain df where adm: "ipsec_decap_admit ex_inbound (ref_vnf_lib 4) ex_sa_ports ex_endpoint 0 ?m = Some (True, ?m\<lparr> mb_df := df \<rparr>)" by blast
  let ?t = "ref_tag 0 (?m\<lparr> mb_df := df, mb_l2_len := 14, mb_l3_len := 40, mb_ol_flags := mb_ol_flags ?m \<union> {RX_SEC_OFFLOAD} \<rparr>)"
  have "get8 (mb_buf ?t) 20 = 4" by (simp add: ref_tag_def ex_from_peer_def ex_esp_simps get_other ex_esp_bytes)
  hence "cn_next ?N (cn_finish ?N ?t) = Some To_ipip_decap"
    by (simp add: decap_node_simps ipsec_decap_finish_def ipsec_decap_restore_flow_def Let_def ipsec_decap_next_def)
      (simp add: ref_tag_def ex_from_peer_def ex_esp_simps)
  with adm have "crypto_node_process (ref_ipsec_lib 4) ex_inbound ref_crypto_lib ?N [7] ([7 \<mapsto> ex_from_peer], []) =
      Some ([To_ipip_decap], [7 \<mapsto> cn_finish ?N ?t], [])"
    by (intro ref_burst_one[OF k ex_inbound_found, where ?m1.0 = "?m\<lparr> mb_df := df \<rparr>"])
      (simp_all add: decap_node_simps ex_from_peer_def ex_esp_simps len set_crypto_failed_def)
  thus ?thesis unfolding ipsec_decap_node_process_def by blast
qed


section \<open>Where the code differs\<close>

text \<open>The operations of a burst are freed when it ends, also those the device has not given
  back within the retries.  The next burst of the device then reads an operation that is
  freed: here one left over in the queue, number 99.\<close>

lemma leftover_operation_read:
  assumes "cn_key N (set_crypto_failed True m) = Some k" "dp_ipsec_lookup_sa L s [k] = [Some sa]"
    "cn_admit N sa (set_crypto_failed True m) = Some (True, m1)"
  shows "crypto_node_process L s ref_crypto_lib N [q] ([q \<mapsto> m], [99]) = None"
proof -
  have "dp_ipsec_process_burst ref_crypto_lib [0] [99] = ([(99, True)], [0])"
    by (simp add: dp_ipsec_process_burst_def DP_IPSEC_DEQUEUE_RETRIES_def ref_crypto_lib_def numeral_eq_Suc)
  thus ?thesis
    using assms by (simp add: crypto_node_process_def mark_failed_def ref_crypto_lib_def frame_packet_def ipsec_prepare_def
        completed_op_def)
qed

end
