(* ===== verification/Spec2Isabelle.thy ===== *)
theory Spec2Isabelle
  imports Dp_Prelude Dp_Error Dp_Ipaddr Dp_Types Dp_Ipsec Dp_Grpc_Sa Dp_Firewall Dp_Maglev Dp_Lb Dp_Vnf Dp_Vni Dp_Lpm Dp_Packet Dp_Nat Dp_Flow Dp_Cntrack Dp_Graph Dp_Virtsvc Dp_Ipsec_Nodes
begin

text \<open>
  A verification development for the IPsec proof of concept of dpservice, a
  DPDK dataplane.  Plan of the library, one theory per component:

  \<^item> \<open>Dp_Prelude\<close>: fixed-width types, results, the contract of the DPDK hash
    table, the contract of a transition system, shared lemmas.
  \<^item> \<open>Dp_Error\<close>, \<open>Dp_Ipaddr\<close>, \<open>Dp_Types\<close>: error codes, addresses, packet data.
  \<^item> \<open>Dp_Ipsec\<close>, \<open>Dp_Grpc_Sa\<close>: Security Associations and their database.
  \<^item> \<open>Dp_Firewall\<close>, \<open>Dp_Maglev\<close>, \<open>Dp_Lb\<close>: services of the dataplane.
\<close>

end
